(* ===== verification/Prelude.thy ===== *)
theory Prelude
  imports Main "HOL-Library.Word" "HOL-Library.Monad_Syntax" "HOL-Library.Signed_Division"
    "HOL-Library.Stream"
begin

text \<open>
  What every component of the development shares: the widths of C's integers, fixed-size C
  arrays with checked access, counted loops, and the part of the operating system the
  programs rely on (clock, random numbers, fallible calls, files).

  A C function that can reach undefined behaviour (an array access out of bounds, a null
  dereference, taking a mutex the caller already holds) is a function into
  \<open>'a option\<close>, where \<open>None\<close> is that undefined behaviour.  An error the C code
  itself reports (\<open>-1\<close>, \<open>false\<close>, \<open>NULL\<close>) is an ordinary value inside \<open>Some\<close>.
\<close>

section \<open>Integers\<close>

type_synonym u8 = "8 word"
type_synonym u16 = "16 word"
type_synonym u32 = "32 word"
type_synonym u64 = "64 word"
type_synonym size_t = "64 word"

definition SIZE_MAX :: size_t where
  "SIZE_MAX = - 1"

named_theorems c_mem \<open>reads and writes of C arrays and their lengths\<close>

lemma SIZE_MAX_unat [simp]: "unat SIZE_MAX = 2 ^ 64 - 1"
  by (simp add: SIZE_MAX_def unsigned_minus_1_eq_mask mask_eq_exp_minus_1)

lemma unat_of_nat_64 [simp]: "n < 2 ^ 64 \<Longrightarrow> unat (of_nat n :: u64) = n"
  by (simp add: unsigned_of_nat take_bit_nat_eq_self)

lemma unat_Suc_64: "unat (x :: u64) < 2 ^ 64 - 1 \<Longrightarrow> unat (x + 1) = Suc (unat x)"
  by (simp add: unat_word_ariths)

lemma unat_pred_64: "0 < (x :: u64) \<Longrightarrow> unat (x - 1) = unat x - 1"
  by (metis unat_minus_one word_not_simps(1))

lemma unat_add_64: "unat (x :: u64) + unat y < 2 ^ 64 \<Longrightarrow> unat (x + y) = unat x + unat y"
  by (simp add: unat_word_ariths)

section \<open>Arrays\<close>

definition arr_get :: "'a list \<Rightarrow> nat \<Rightarrow> 'a option" where
  "arr_get a i = (if i < length a then Some (a ! i) else None)"

definition arr_set :: "'a list \<Rightarrow> nat \<Rightarrow> 'a \<Rightarrow> 'a list option" where
  "arr_set a i x = (if i < length a then Some (a[i := x]) else None)"

lemma arr_get_Some [simp]: "i < length a \<Longrightarrow> arr_get a i = Some (a ! i)"
  by (simp add: arr_get_def)

lemma arr_set_Some [simp]: "i < length a \<Longrightarrow> arr_set a i x = Some (a[i := x])"
  by (simp add: arr_set_def)

lemma arr_get_None [simp]: "length a \<le> i \<Longrightarrow> arr_get a i = None"
  by (simp add: arr_get_def)

lemma arr_set_None [simp]: "length a \<le> i \<Longrightarrow> arr_set a i x = None"
  by (simp add: arr_set_def)

lemma arr_get_eq_Some [c_mem]: "arr_get a i = Some x \<longleftrightarrow> i < length a \<and> x = a ! i"
  by (auto simp: arr_get_def)

lemma arr_set_eq_Some [c_mem]: "arr_set a i x = Some b \<longleftrightarrow> i < length a \<and> b = a[i := x]"
  by (auto simp: arr_set_def)

text \<open>Writing at the end of the used part of an array appends to that part.\<close>

lemma take_Suc_update [c_mem]: "n < length a \<Longrightarrow> take (Suc n) (a[n := x]) = take n a @ [x]"
  by (simp add: take_Suc_conv_app_nth)

lemma nth_update_at [c_mem]: "j < length a \<Longrightarrow> a[i := x] ! j = (if i = j then x else a ! j)"
  by auto

text \<open>Ring positions.\<close>

lemma mod_wrap:
  fixes a m n :: nat
  assumes "a < n" and "m < n"
  shows "(a + m) mod n = (if a + m < n then a + m else a + m - n)"
  using assms by (simp add: mod_if)

text \<open>What a sequence of fallible steps that succeeds went through.\<close>

lemma bind_SomeE:
  assumes "Option.bind m f = Some y"
  obtains x where "m = Some x" "f x = Some y"
  using assms by (cases m) simp_all

section \<open>Counted loops\<close>

text \<open>
  \<open>for (i = lo; i < n; ++i) body\<close>, where the body may reach undefined behaviour.  The loop
  counters of the sources are unsigned and stay below their bound, so they are natural
  numbers here.
\<close>

function for_from :: "nat \<Rightarrow> nat \<Rightarrow> (nat \<Rightarrow> 's \<Rightarrow> 's option) \<Rightarrow> 's \<Rightarrow> 's option" where
  "for_from i n body s =
     (if i < n then Option.bind (body i s) (for_from (Suc i) n body) else Some s)"
  by pat_completeness auto
termination
  by (relation "measure (\<lambda>(i, n, _). n - i)") auto

declare for_from.simps [simp del]

lemma for_from_stop [simp]: "n \<le> i \<Longrightarrow> for_from i n body s = Some s"
  by (simp add: for_from.simps)

lemma for_from_step: "i < n \<Longrightarrow> for_from i n body s = Option.bind (body i s) (for_from (Suc i) n body)"
  by (simp add: for_from.simps)

text \<open>Total correctness of a counted loop from an invariant.\<close>

lemma for_from_rule:
  assumes "P i s" and "i \<le> n"
    and "\<And>j t. i \<le> j \<Longrightarrow> j < n \<Longrightarrow> P j t \<Longrightarrow> \<exists>t'. body j t = Some t' \<and> P (Suc j) t'"
  shows "\<exists>t. for_from i n body s = Some t \<and> P n t"
  using assms
proof (induction "n - i" arbitrary: i s)
  case 0
  then show ?case by simp
next
  case (Suc k)
  then have "i < n" by simp
  with Suc.prems obtain t' where t': "body i s = Some t'" "P (Suc i) t'"
    by blast
  have "\<exists>t. for_from (Suc i) n body t' = Some t \<and> P n t"
  proof (rule Suc.hyps(1))
    show "k = n - Suc i" using Suc.hyps(2) by simp
    show "P (Suc i) t'" by (rule t'(2))
    show "Suc i \<le> n" using \<open>i < n\<close> by simp
    show "\<exists>t'. body j t = Some t' \<and> P (Suc j) t'" if "Suc i \<le> j" "j < n" "P j t" for j t
      using Suc.prems(3) that by simp
  qed
  with t'(1) \<open>i < n\<close> show ?case by (simp add: for_from_step)
qed

text \<open>A loop whose body always succeeds computes a fold over its range.\<close>

lemma for_from_fold:
  assumes "\<And>j t. i \<le> j \<Longrightarrow> j < n \<Longrightarrow> body j t = Some (g j t)"
  shows "for_from i n body s = Some (fold g [i..<n] s)"
  using assms
proof (induction "n - i" arbitrary: i s)
  case 0
  then show ?case by simp
next
  case (Suc k)
  then have "i < n" by simp
  moreover have "for_from (Suc i) n body (g i s) = Some (fold g [Suc i..<n] (g i s))"
    by (rule Suc.hyps(1)) (use Suc.hyps(2) Suc.prems in auto)
  ultimately show ?case
    using Suc.prems [of i s] by (simp add: for_from_step upt_conv_Cons)
qed

text \<open>
  The same loop with a body that may leave the enclosing function: the flag is \<open>True\<close> when
  the loop goes on (for the whole loop: when it ran to its end) and \<open>False\<close> on such an exit.
\<close>

function for_ret :: "nat \<Rightarrow> nat \<Rightarrow> (nat \<Rightarrow> 's \<Rightarrow> (bool \<times> 's) option) \<Rightarrow> 's \<Rightarrow> (bool \<times> 's) option" where
  "for_ret i n body s =
     (if i < n
      then Option.bind (body i s) (\<lambda>(go, t). if go then for_ret (Suc i) n body t else Some (False, t))
      else Some (True, s))"
  by pat_completeness auto
termination
  by (relation "measure (\<lambda>(i, n, _). n - i)") auto

declare for_ret.simps [simp del]

lemma for_ret_stop [simp]: "n \<le> i \<Longrightarrow> for_ret i n body s = Some (True, s)"
  by (simp add: for_ret.simps)

lemma for_ret_step:
  "i < n \<Longrightarrow> for_ret i n body s =
     Option.bind (body i s) (\<lambda>(go, t). if go then for_ret (Suc i) n body t else Some (False, t))"
  by (simp add: for_ret.simps)

lemma for_ret_rule:
  assumes "P i s" and "i \<le> n"
    and "\<And>j t. i \<le> j \<Longrightarrow> j < n \<Longrightarrow> P j t \<Longrightarrow>
           \<exists>go t'. body j t = Some (go, t') \<and> (if go then P (Suc j) t' else Q j t')"
  shows "\<exists>go t. for_ret i n body s = Some (go, t) \<and> (if go then P n t else (\<exists>j \<ge> i. j < n \<and> Q j t))"
  using assms
proof (induction "n - i" arbitrary: i s)
  case 0
  then show ?case by auto
next
  case (Suc k)
  then have "i < n" by simp
  with Suc.prems obtain go t' where t': "body i s = Some (go, t')" "if go then P (Suc i) t' else Q i t'"
    by blast
  show ?case
  proof (cases go)
    case True
    have "\<exists>go t. for_ret (Suc i) n body t' = Some (go, t) \<and>
        (if go then P n t else (\<exists>j \<ge> Suc i. j < n \<and> Q j t))"
    proof (rule Suc.hyps(1))
      show "k = n - Suc i" using Suc.hyps(2) by simp
      show "P (Suc i) t'" using t'(2) True by simp
      show "Suc i \<le> n" using \<open>i < n\<close> by simp
      show "\<exists>go t'. body j t = Some (go, t') \<and> (if go then P (Suc j) t' else Q j t')"
        if "Suc i \<le> j" "j < n" "P j t" for j t
        using Suc.prems(3) that by simp
    qed
    then obtain go2 t2 where 2: "for_ret (Suc i) n body t' = Some (go2, t2)"
      "if go2 then P n t2 else (\<exists>j \<ge> Suc i. j < n \<and> Q j t2)" by blast
    have "if go2 then P n t2 else (\<exists>j \<ge> i. j < n \<and> Q j t2)"
      using 2(2) by (cases go2) (auto intro: Suc_leD)
    with 2(1) t'(1) True \<open>i < n\<close> show ?thesis by (simp add: for_ret_step)
  next
    case False
    with t' \<open>i < n\<close> show ?thesis by (auto simp: for_ret_step)
  qed
qed

text \<open>Iterations that change nothing can be skipped.\<close>

lemma for_ret_skip:
  assumes "k \<le> n" and "\<And>j. i \<le> j \<Longrightarrow> j < k \<Longrightarrow> body j s = Some (True, s)" and "i \<le> k"
  shows "for_ret i n body s = for_ret k n body s"
  using assms(2,3)
proof (induction "k - i" arbitrary: i)
  case 0
  then show ?case by simp
next
  case (Suc m)
  then have "i < k" by simp
  then have "for_ret i n body s = for_ret (Suc i) n body s"
    using assms(1) Suc.prems(1) [of i] by (simp add: for_ret_step)
  also have "\<dots> = for_ret k n body s"
    by (rule Suc.hyps(1)) (use Suc \<open>i < k\<close> in auto)
  finally show ?case .
qed

text \<open>Counting the indices that satisfy a condition.\<close>

lemma fold_count:
  "fold (\<lambda>i k. if p i then Suc k else k) xs k = k + length (filter p xs)"
  by (induction xs arbitrary: k) auto


section \<open>Simulation\<close>

text \<open>
  The contract between an operation of the program that may reach undefined behaviour and the
  operation it implements: from related states it is defined and ends in related states.
\<close>

locale simulation =
  fixes step :: "'k \<Rightarrow> 's \<Rightarrow> 's option"
    and spec :: "'k \<Rightarrow> 'a \<Rightarrow> 'a"
    and rel :: "'s \<Rightarrow> 'a \<Rightarrow> bool"
    and ok :: "'k \<Rightarrow> bool"
  assumes step_sim: "rel s a \<Longrightarrow> ok k \<Longrightarrow> \<exists>s'. step k s = Some s' \<and> rel s' (spec k a)"
begin

fun steps :: "'k list \<Rightarrow> 's \<Rightarrow> 's option" where
  "steps [] s = Some s"
| "steps (k # ks) s = do { s' \<leftarrow> step k s; steps ks s' }"

lemma steps_sim:
  assumes "rel s a" and "list_all ok ks"
  shows "\<exists>s'. steps ks s = Some s' \<and> rel s' (fold spec ks a)"
  using assms
proof (induction ks arbitrary: s a)
  case (Cons k ks)
  then obtain s1 where "step k s = Some s1" "rel s1 (spec k a)" using step_sim by fastforce
  with Cons show ?case by simp
qed simp

end

end
