(* ===== verification/Posix.thy ===== *)
theory Posix
  imports Prelude
begin

text \<open>
  The part of the C library and the operating system that the programs use: the clock,
  \<open>rand\<close>, calls that may fail, files, line input with \<open>fgets\<close>, decimal output as
  \<open>dprintf\<close> produces it and the conversions of \<open>sscanf\<close> (glibc's behaviour where the
  standard leaves it open).  What the environment decides (clock readings, random numbers,
  which calls fail and how much of a failed write reaches the file) are streams of the
  record \<open>world\<close>; every call takes the next element.
\<close>

section \<open>Characters and decimal numerals\<close>

abbreviation NL :: char where "NL \<equiv> CHR 0x0A"
abbreviation NUL :: char where "NUL \<equiv> CHR 0x00"

definition c_isspace :: "char \<Rightarrow> bool" where
  "c_isspace c = (let n = (of_char c :: nat) in n = 32 \<or> (9 \<le> n \<and> n \<le> 13))"

definition c_isdigit :: "char \<Rightarrow> bool" where
  "c_isdigit c = (let n = (of_char c :: nat) in 48 \<le> n \<and> n \<le> 57)"

definition digit_val :: "char \<Rightarrow> nat" where
  "digit_val c = of_char c - 48"

definition digit_chr :: "nat \<Rightarrow> char" where
  "digit_chr d = char_of (48 + d)"

fun dec :: "nat \<Rightarrow> string" where
  "dec n = (if n < 10 then [digit_chr n] else dec (n div 10) @ [digit_chr (n mod 10)])"

declare dec.simps [simp del]

definition dec_int :: "int \<Rightarrow> string" where
  "dec_int k = (if k < 0 then CHR ''-'' # dec (nat (- k)) else dec (nat k))"

definition digits_val :: "string \<Rightarrow> nat" where
  "digits_val ds = foldl (\<lambda>a c. 10 * a + digit_val c) 0 ds"

named_theorems ctext \<open>shape of the text the programs write\<close>

lemma of_char_digit_chr: "d < 10 \<Longrightarrow> (of_char (digit_chr d) :: nat) = 48 + d"
  by (simp add: digit_chr_def of_char_of)

lemma digit_chr_isdigit [ctext]: "d < 10 \<Longrightarrow> c_isdigit (digit_chr d)"
  by (simp add: c_isdigit_def of_char_digit_chr)

lemma digit_val_chr [simp]: "d < 10 \<Longrightarrow> digit_val (digit_chr d) = d"
  by (simp add: digit_val_def of_char_digit_chr)

lemma dec_nonempty [simp]: "dec n \<noteq> []"
  by (subst dec.simps) simp

lemma dec_digits [ctext]: "c \<in> set (dec n) \<Longrightarrow> c_isdigit c"
proof (induction n rule: dec.induct)
  case (1 n)
  then show ?case
    by (cases "n < 10") (auto simp: dec.simps [of n] digit_chr_isdigit)
qed

lemma digits_val_snoc: "digits_val (ds @ [c]) = 10 * digits_val ds + digit_val c"
  by (simp add: digits_val_def)

lemma digits_val_dec [simp]: "digits_val (dec n) = n"
proof (induction n rule: dec.induct)
  case (1 n)
  then show ?case
    by (cases "n < 10") (auto simp: dec.simps [of n] digits_val_snoc, simp add: digits_val_def)
qed

lemma dec_inj [simp]: "dec m = dec n \<longleftrightarrow> m = n"
  by (metis digits_val_dec)

lemma dec_length: "n < 10 ^ k \<Longrightarrow> 0 < k \<Longrightarrow> length (dec n) \<le> k"
proof (induction n arbitrary: k rule: dec.induct)
  case (1 n)
  show ?case
  proof (cases "n < 10")
    case True
    with "1.prems" show ?thesis by (simp add: dec.simps [of n])
  next
    case False
    with "1.prems" obtain j where j: "k = Suc j" "0 < j"
      by (cases k; cases "k - 1") auto
    with "1.prems" have "n div 10 < 10 ^ j" by (simp add: less_mult_imp_div_less)
    with False j have "length (dec (n div 10)) \<le> j" by (intro "1.IH") auto
    with False j show ?thesis by (simp add: dec.simps [of n])
  qed
qed

lemma isdigit_not_space [simp]: "c_isdigit c \<Longrightarrow> \<not> c_isspace c"
  by (simp add: c_isdigit_def c_isspace_def Let_def)

lemma isdigit_neq [simp]:
  "c_isdigit c \<Longrightarrow> c \<noteq> NL" "c_isdigit c \<Longrightarrow> c \<noteq> NUL" "c_isdigit c \<Longrightarrow> c \<noteq> CHR '' ''"
  "c_isdigit c \<Longrightarrow> c \<noteq> CHR ''-''" "c_isdigit c \<Longrightarrow> c \<noteq> CHR ''+''"
  by (auto simp: c_isdigit_def)

section \<open>Scanning\<close>

text \<open>The directives of the format strings the sources use.\<close>

datatype directive =
    Lit char
  | Space
  | ConvU64
  | ConvU32
  | ConvD
  | ConvS "nat option"
  | ConvLine "nat option"

datatype scanned = SInt int | SStr string

text \<open>
  An integer conversion skips white space, takes an optional sign and at least one digit.
\<close>

definition scan_num :: "string \<Rightarrow> (bool \<times> nat \<times> string) option" where
  "scan_num s =
     (let s1 = dropWhile c_isspace s;
          neg = (case s1 of c # _ \<Rightarrow> c = CHR ''-'' | [] \<Rightarrow> False);
          s2 = (case s1 of c # cs \<Rightarrow> if c = CHR ''-'' \<or> c = CHR ''+'' then cs else s1 | [] \<Rightarrow> s1);
          ds = takeWhile c_isdigit s2
      in if ds = [] then None else Some (neg, digits_val ds, dropWhile c_isdigit s2))"

text \<open>\<open>strtoul\<close> saturates; \<open>strtol\<close> clamps; narrower targets keep the low bits.\<close>

definition strtoul_val :: "bool \<Rightarrow> nat \<Rightarrow> int" where
  "strtoul_val neg v =
     (if v > 2 ^ 64 - 1 then 2 ^ 64 - 1 else if neg then (- int v) mod 2 ^ 64 else int v)"

definition strtol_val :: "bool \<Rightarrow> nat \<Rightarrow> int" where
  "strtol_val neg v = (if neg then max (- (2 ^ 63)) (- int v) else min (2 ^ 63 - 1) (int v))"

definition to_int32 :: "int \<Rightarrow> int" where
  "to_int32 k = (k + 2 ^ 31) mod 2 ^ 32 - 2 ^ 31"

definition scan_take :: "nat option \<Rightarrow> (char \<Rightarrow> bool) \<Rightarrow> string \<Rightarrow> string" where
  "scan_take wd p s = (let m = takeWhile p s in case wd of None \<Rightarrow> m | Some k \<Rightarrow> take k m)"

text \<open>The values assigned, in order; \<open>sscanf\<close> returns their number.\<close>

fun sscanf :: "directive list \<Rightarrow> string \<Rightarrow> scanned list" where
  "sscanf [] s = []"
| "sscanf (Lit c # ds) s = (case s of [] \<Rightarrow> [] | x # xs \<Rightarrow> if x = c then sscanf ds xs else [])"
| "sscanf (Space # ds) s = sscanf ds (dropWhile c_isspace s)"
| "sscanf (ConvU64 # ds) s =
     (case scan_num s of None \<Rightarrow> [] | Some (neg, v, rest) \<Rightarrow> SInt (strtoul_val neg v) # sscanf ds rest)"
| "sscanf (ConvU32 # ds) s =
     (case scan_num s of None \<Rightarrow> []
      | Some (neg, v, rest) \<Rightarrow> SInt (strtoul_val neg v mod 2 ^ 32) # sscanf ds rest)"
| "sscanf (ConvD # ds) s =
     (case scan_num s of None \<Rightarrow> []
      | Some (neg, v, rest) \<Rightarrow> SInt (to_int32 (strtol_val neg v)) # sscanf ds rest)"
| "sscanf (ConvS wd # ds) s =
     (let s1 = dropWhile c_isspace s; t = scan_take wd (\<lambda>c. \<not> c_isspace c) s1
      in if t = [] then [] else SStr t # sscanf ds (drop (length t) s1))"
| "sscanf (ConvLine wd # ds) s =
     (let t = scan_take wd (\<lambda>c. c \<noteq> NL) s
      in if t = [] then [] else SStr t # sscanf ds (drop (length t) s))"

text \<open>A numeral followed by something that is not a digit scans back to its value.\<close>

definition no_digit_head :: "string \<Rightarrow> bool" where
  "no_digit_head s = (case s of [] \<Rightarrow> True | c # _ \<Rightarrow> \<not> c_isdigit c)"

lemma no_digit_head_simps [simp]:
  "no_digit_head []" "no_digit_head (c # s) \<longleftrightarrow> \<not> c_isdigit c"
  by (simp_all add: no_digit_head_def)

lemma digits_split:
  assumes "\<And>c. c \<in> set ds \<Longrightarrow> c_isdigit c" and "no_digit_head rest"
  shows "takeWhile c_isdigit (ds @ rest) = ds" "dropWhile c_isdigit (ds @ rest) = rest"
proof -
  have *: "takeWhile c_isdigit rest = []" "dropWhile c_isdigit rest = rest"
    using assms(2) by (cases rest; simp)+
  show "takeWhile c_isdigit (ds @ rest) = ds" "dropWhile c_isdigit (ds @ rest) = rest"
    using assms(1) * by (simp_all add: takeWhile_append2 dropWhile_append2)
qed

lemma dec_split:
  assumes "no_digit_head rest"
  shows "takeWhile c_isdigit (dec n @ rest) = dec n" "dropWhile c_isdigit (dec n @ rest) = rest"
  using digits_split [OF _ assms, of "dec n"] dec_digits by blast+

lemma dec_Cons: "\<exists>c cs. dec n = c # cs \<and> c_isdigit c"
  using dec_digits dec_nonempty by (metis list.exhaust list.set_intros(1))

lemma scan_num_dec [simp]:
  assumes "no_digit_head rest"
  shows "scan_num (dec n @ rest) = Some (False, n, rest)"
    and "scan_num (CHR '' '' # dec n @ rest) = Some (False, n, rest)"
proof -
  obtain c cs where c: "dec n = c # cs" "c_isdigit c" using dec_Cons by blast
  note c_rest = dec_split [OF assms, of n, unfolded c(1)]
  have "digits_val (c # cs) = n" using digits_val_dec [of n] c(1) by simp
  with c c_rest show 1: "scan_num (dec n @ rest) = Some (False, n, rest)"
    by (simp add: scan_num_def Let_def)
  have "c_isspace (CHR '' '')" by (simp add: c_isspace_def)
  then show "scan_num (CHR '' '' # dec n @ rest) = Some (False, n, rest)"
    using 1 by (simp add: scan_num_def)
qed

lemma scan_num_neg [simp]:
  assumes "no_digit_head rest"
  shows "scan_num (CHR ''-'' # dec n @ rest) = Some (True, n, rest)"
    and "scan_num (CHR '' '' # CHR ''-'' # dec n @ rest) = Some (True, n, rest)"
proof -
  have "c_isspace (CHR '' '')" "\<not> c_isspace (CHR ''-'')"
    by (simp_all add: c_isspace_def)
  then show "scan_num (CHR ''-'' # dec n @ rest) = Some (True, n, rest)"
    "scan_num (CHR '' '' # CHR ''-'' # dec n @ rest) = Some (True, n, rest)"
    by (simp_all add: scan_num_def dec_split [OF assms])
qed

lemma strtoul_unat [simp]: "strtoul_val False (unat (x :: u64)) = uint x"
  using unsigned_less [of x, where 'a = nat] by (simp add: strtoul_val_def)

lemma strtoul_unat32 [simp]: "strtoul_val False (unat (x :: u32)) = uint x"
  using unsigned_less [of x, where 'a = nat] by (simp add: strtoul_val_def)

lemma to_int32_id: "- (2 ^ 31) \<le> k \<Longrightarrow> k < 2 ^ 31 \<Longrightarrow> to_int32 k = k"
  by (simp add: to_int32_def)

section \<open>Lines of a file\<close>

text \<open>\<open>fgets\<close> with room for \<open>k\<close> characters and the terminating null.\<close>

fun fgets :: "nat \<Rightarrow> string \<Rightarrow> string \<times> string" where
  "fgets 0 s = ([], s)"
| "fgets (Suc k) [] = ([], [])"
| "fgets (Suc k) (c # cs) =
     (if c = NL then ([c], cs) else let (l, r) = fgets k cs in (c # l, r))"

lemma fgets_length: "fgets k s = (l, r) \<Longrightarrow> length l + length r = length s"
  by (induction k s arbitrary: l r rule: fgets.induct) (auto split: if_splits prod.splits)

lemma fgets_progress: "fgets (Suc k) (c # cs) = (l, r) \<Longrightarrow> length r < length (c # cs)"
  by (auto split: if_splits prod.splits dest: fgets_length)

text \<open>The lines a loop over \<open>fgets\<close> sees until end of file.\<close>

function fgets_all :: "nat \<Rightarrow> string \<Rightarrow> string list" where
  "fgets_all k s =
     (if s = [] \<or> k = 0 then [] else fst (fgets k s) # fgets_all k (snd (fgets k s)))"
  by pat_completeness auto
termination
proof (relation "measure (\<lambda>(k, s). length s)")
  fix k :: nat and s :: string
  assume "\<not> (s = [] \<or> k = 0)"
  then obtain c cs j where "s = c # cs" "k = Suc j" by (cases s; cases k) auto
  then show "((k, snd (fgets k s)), k, s) \<in> measure (\<lambda>(k, s). length s)"
    using fgets_progress [of j c cs] by (metis case_prod_conv in_measure prod.collapse)
qed simp

declare fgets_all.simps [simp del]

lemma fgets_all_Nil [simp]: "fgets_all k [] = []"
  by (simp add: fgets_all.simps)

text \<open>A text without null characters, one newline, at its end, and at most \<open>k\<close> characters.\<close>

definition full_line :: "nat \<Rightarrow> string \<Rightarrow> bool" where
  "full_line k l = (l \<noteq> [] \<and> last l = NL \<and> NL \<notin> set (butlast l) \<and> NUL \<notin> set l \<and> length l \<le> k)"

lemma fgets_exact: "NL \<notin> set b \<Longrightarrow> length b < k \<Longrightarrow> fgets k (b @ NL # rest) = (b @ [NL], rest)"
proof (induction b arbitrary: k)
  case Nil
  then show ?case by (cases k) auto
next
  case (Cons c b)
  then obtain j where "k = Suc j" by (cases k) auto
  with Cons show ?case by auto
qed

lemma full_line_split: "full_line k l \<Longrightarrow> l = butlast l @ [NL] \<and> length (butlast l) < k"
  by (cases l rule: rev_cases) (auto simp: full_line_def)

lemma fgets_full_line:
  assumes "full_line k l"
  shows "fgets k (l @ rest) = (l, rest)"
proof -
  have "NL \<notin> set (butlast l)" using assms by (simp add: full_line_def)
  then have "fgets k (butlast l @ NL # rest) = (butlast l @ [NL], rest)"
    using full_line_split [OF assms] by (intro fgets_exact) auto
  then show ?thesis using full_line_split [OF assms] by (metis append.assoc append_Cons append_Nil)
qed

lemma fgets_all_concat:
  assumes "\<And>l. l \<in> set ls \<Longrightarrow> full_line k l"
  shows "fgets_all k (concat ls) = ls"
  using assms
proof (induction ls)
  case (Cons l ls)
  have l: "full_line k l" using Cons.prems by simp
  then have "l \<noteq> []" by (simp add: full_line_def)
  moreover have "k \<noteq> 0" using full_line_split [OF l] by auto
  ultimately have "fgets_all k (concat (l # ls)) = l # fgets_all k (concat ls)"
    by (subst fgets_all.simps) (simp add: fgets_full_line [OF l])
  with Cons show ?case by simp
qed simp

text \<open>A C string ends at its first null character.\<close>

definition cstr :: "string \<Rightarrow> string" where
  "cstr s = takeWhile (\<lambda>c. c \<noteq> NUL) s"

lemma cstr_id [simp]: "NUL \<notin> set s \<Longrightarrow> cstr s = s"
  by (simp add: cstr_def) (metis takeWhile_eq_all_conv)

section \<open>The world\<close>

definition PATH_MAX :: nat where "PATH_MAX = 4096"

record world =
  clock_s :: "(int \<times> int) option stream"  \<comment> \<open>seconds and nanoseconds, \<open>None\<close> when the call fails\<close>
  rand_s :: "int stream"
  call_s :: "nat option stream"  \<comment> \<open>\<open>Some k\<close>: the call fails, a write after \<open>k\<close> characters\<close>
  files :: "string \<Rightarrow> string option"
  next_fd :: nat
  project_root :: string

definition clock_gettime :: "world \<Rightarrow> (int \<times> int) option \<times> world" where
  "clock_gettime w = (shd (clock_s w), w\<lparr>clock_s := stl (clock_s w)\<rparr>)"

definition c_rand :: "world \<Rightarrow> int \<times> world" where
  "c_rand w = (shd (rand_s w), w\<lparr>rand_s := stl (rand_s w)\<rparr>)"

definition sys_call :: "world \<Rightarrow> nat option \<times> world" where
  "sys_call w = (shd (call_s w), w\<lparr>call_s := stl (call_s w)\<rparr>)"

definition append_file :: "string \<Rightarrow> string \<Rightarrow> world \<Rightarrow> world" where
  "append_file path txt w =
     w\<lparr>files := (files w)(path \<mapsto> (case files w path of None \<Rightarrow> txt | Some old \<Rightarrow> old @ txt))\<rparr>"

text \<open>\<open>dprintf\<close> and \<open>fdatasync\<close> on a descriptor open for appending to \<open>path\<close>.\<close>

definition dprintf :: "int \<Rightarrow> string \<Rightarrow> string \<Rightarrow> world \<Rightarrow> int \<times> world" where
  "dprintf fd path txt w =
     (if fd = - 1 then (- 1, w)
      else let (res, w) = sys_call w in
        case res of None \<Rightarrow> (int (length txt), append_file path txt w)
        | Some k \<Rightarrow> (- 1, append_file path (take k txt) w))"

definition fdatasync :: "int \<Rightarrow> world \<Rightarrow> int \<times> world" where
  "fdatasync fd w =
     (if fd = - 1 then (- 1, w)
      else let (res, w) = sys_call w in case res of None \<Rightarrow> (0, w) | Some _ \<Rightarrow> (- 1, w))"

lemma dec_no_special [simp]: "NL \<notin> set (dec n)" "NUL \<notin> set (dec n)"
  using dec_digits isdigit_neq by blast+

lemma dec_int_no_special [simp]: "NL \<notin> set (dec_int k)" "NUL \<notin> set (dec_int k)"
  by (simp_all add: dec_int_def)

lemma scan_num_dec_int:
  assumes "no_digit_head rest"
  shows "scan_num (dec_int k @ rest) = Some (k < 0, nat \<bar>k\<bar>, rest)"
  using assms by (simp add: dec_int_def)

lemma to_int32_scanned: "- (2 ^ 31) \<le> k \<Longrightarrow> k < 2 ^ 31 \<Longrightarrow> to_int32 (strtol_val (k < 0) (nat \<bar>k\<bar>)) = k"
  by (auto simp: strtol_val_def to_int32_id)

end
