(* ===== verification/Raft_Types.thy ===== *)
theory Raft_Types
  imports Posix
begin

text \<open>
  The data of the Raft node, from \<open>include/tetrish/raft.h\<close>: one record per struct, one
  datatype per enum, arrays as lists of their declared size.  Terms, indices, ids and sizes
  are 64-bit words as in the header; times (\<open>int64_t\<close> milliseconds) are integers.  The
  command type is the enum's underlying 32-bit value, because a restored or received entry
  can hold any of them.  The mutex is a flag that says whether it is held.
\<close>

section \<open>Constants and enums\<close>

definition RAFT_MAX_PEERS :: nat where "RAFT_MAX_PEERS = 8"
definition RAFT_LOG_CAP :: nat where "RAFT_LOG_CAP = 1024"
definition RAFT_APPEND_BATCH :: nat where "RAFT_APPEND_BATCH = 64"
definition RAFT_NONE :: u64 where "RAFT_NONE = - 1"

type_synonym raft_node_id_t = u64
type_synonym raft_index_t = u64
type_synonym raft_term_t = u64
type_synonym raft_msec_t = int

datatype ServerState = FOLLOWER | CANDIDATE | LEADER | FAILED

type_synonym core_cmd_type = u32

definition CORE_CMD_NOOP :: core_cmd_type where "CORE_CMD_NOOP = 0"
definition CORE_CMD_LOBBY_JOIN :: core_cmd_type where "CORE_CMD_LOBBY_JOIN = 1"
definition CORE_CMD_GAME_INPUT :: core_cmd_type where "CORE_CMD_GAME_INPUT = 2"

datatype raft_msg_type =
    RAFT_MSG_REQUEST_VOTE
  | RAFT_MSG_REQUEST_VOTE_RESPONSE
  | RAFT_MSG_APPEND_ENTRIES
  | RAFT_MSG_APPEND_ENTRIES_RESPONSE

section \<open>Entries and messages\<close>

record client_command =
  cc_type :: core_cmd_type
  room_key :: u64
  player_id :: u64
  cc_input :: u32

record LogEntry =
  le_index :: raft_index_t
  le_term :: raft_term_t
  le_command :: client_command

definition zero_entry :: LogEntry where
  "zero_entry =
     \<lparr>le_index = 0, le_term = 0,
      le_command = \<lparr>cc_type = 0, room_key = 0, player_id = 0, cc_input = 0\<rparr>\<rparr>"

record AppendEntriesRequest =
  ae_term :: raft_term_t
  ae_leaderId :: raft_node_id_t
  ae_prevLogIndex :: raft_index_t
  ae_prevLogTerm :: raft_term_t
  ae_leaderCommit :: raft_index_t
  ae_log_len :: size_t
  ae_log :: "LogEntry list"

record AppendEntriesResponse =
  aer_term :: raft_term_t
  aer_success :: bool
  aer_matchIndex :: raft_index_t

record RequestVoteRequest =
  rv_term :: raft_term_t
  rv_lastLogIndex :: raft_index_t
  rv_lastLogTerm :: raft_term_t
  rv_candidateId :: raft_node_id_t

record RequestVoteResponse =
  rvr_term :: raft_term_t
  rvr_voteGranted :: bool

datatype raft_body =
    append_entry AppendEntriesRequest
  | append_entry_response AppendEntriesResponse
  | request_vote RequestVoteRequest
  | request_vote_response RequestVoteResponse

record raft_message =
  msg_type :: raft_msg_type
  msg_peer_idx :: size_t
  msg_body :: raft_body

section \<open>The node\<close>

record raft_peer =
  peer_id :: raft_node_id_t
  peer_host :: string
  peer_port :: u16

record PersistentState =
  currentTerm :: raft_term_t
  votedFor :: raft_node_id_t
  plog :: "LogEntry list"
  log_len :: size_t

record VolatileState =
  commitIndex :: raft_index_t
  lastApplied :: raft_index_t

record VolatileStateCandidate =
  electionterm :: raft_term_t
  votes_responded :: "bool list"
  votes_granted :: "bool list"

record VolatileStateLeader =
  next_index :: "raft_index_t list"
  match_index :: "raft_index_t list"

record raft_node =
  state :: ServerState
  node_id :: raft_node_id_t
  leader_id :: raft_node_id_t
  peers :: "raft_peer list"
  peer_count :: size_t
  pstate :: PersistentState
  vstate :: VolatileState
  cstate :: VolatileStateCandidate
  lstate :: VolatileStateLeader
  election_timeout_duration_ms :: raft_msec_t
  latest_heartbeat_ms :: raft_msec_t
  heartbeat_interval_ms :: raft_msec_t
  latest_heartbeat_interval_ms :: raft_msec_t
  log_file :: int
  mu :: bool

text \<open>What \<open>memset\<close> to zero leaves in each struct.\<close>

definition zero_peer :: raft_peer where
  "zero_peer = \<lparr>peer_id = 0, peer_host = replicate 64 NUL, peer_port = 0\<rparr>"

definition zero_pstate :: PersistentState where
  "zero_pstate =
     \<lparr>currentTerm = 0, votedFor = 0, plog = replicate RAFT_LOG_CAP zero_entry, log_len = 0\<rparr>"

definition zero_cstate :: VolatileStateCandidate where
  "zero_cstate =
     \<lparr>electionterm = 0, votes_responded = replicate RAFT_MAX_PEERS False,
      votes_granted = replicate RAFT_MAX_PEERS False\<rparr>"

definition zero_lstate :: VolatileStateLeader where
  "zero_lstate =
     \<lparr>next_index = replicate RAFT_MAX_PEERS 0, match_index = replicate RAFT_MAX_PEERS 0\<rparr>"

definition zero_node :: raft_node where
  "zero_node =
     \<lparr>state = FOLLOWER, node_id = 0, leader_id = 0, peers = replicate RAFT_MAX_PEERS zero_peer,
      peer_count = 0, pstate = zero_pstate, vstate = \<lparr>commitIndex = 0, lastApplied = 0\<rparr>,
      cstate = zero_cstate, lstate = zero_lstate, election_timeout_duration_ms = 0,
      latest_heartbeat_ms = 0, heartbeat_interval_ms = 0, latest_heartbeat_interval_ms = 0,
      log_file = 0, mu = False\<rparr>"

section \<open>Access paths\<close>

text \<open>\<open>r->pstate.currentTerm\<close> and its kin.\<close>

abbreviation "r_term r \<equiv> currentTerm (pstate r)"
abbreviation "r_voted r \<equiv> votedFor (pstate r)"
abbreviation "r_log r \<equiv> plog (pstate r)"
abbreviation "r_len r \<equiv> log_len (pstate r)"
abbreviation "r_commit r \<equiv> commitIndex (vstate r)"
abbreviation "r_applied r \<equiv> lastApplied (vstate r)"

abbreviation "set_term t \<equiv> pstate_update (currentTerm_update (\<lambda>_. t))"
abbreviation "set_voted v \<equiv> pstate_update (votedFor_update (\<lambda>_. v))"
abbreviation "set_log l \<equiv> pstate_update (plog_update (\<lambda>_. l))"
abbreviation "set_len n \<equiv> pstate_update (log_len_update (\<lambda>_. n))"
abbreviation "set_commit n \<equiv> vstate_update (commitIndex_update (\<lambda>_. n))"
abbreviation "set_applied n \<equiv> vstate_update (lastApplied_update (\<lambda>_. n))"

text \<open>The entries the node holds: the used part of the log array.\<close>

definition entries :: "raft_node \<Rightarrow> LogEntry list" where
  "entries r = take (unat (r_len r)) (r_log r)"

text \<open>The peers the node knows: the used part of the peer array.\<close>

definition peer_ids :: "raft_node \<Rightarrow> raft_node_id_t list" where
  "peer_ids r = map peer_id (take (unat (peer_count r)) (peers r))"

section \<open>The mutex\<close>

text \<open>Locking a mutex the node's own code already holds is undefined.\<close>

definition mutex_lock :: "raft_node \<Rightarrow> raft_node option" where
  "mutex_lock r = (if mu r then None else Some (r\<lparr>mu := True\<rparr>))"

definition mutex_unlock :: "raft_node \<Rightarrow> raft_node" where
  "mutex_unlock r = r\<lparr>mu := False\<rparr>"

section \<open>Well-formed nodes\<close>

text \<open>
  The array sizes of the struct, and the bounds that keep every access inside its array.
\<close>

definition raft_sizes :: "raft_node \<Rightarrow> bool" where
  "raft_sizes r =
     (length (peers r) = RAFT_MAX_PEERS \<and> length (r_log r) = RAFT_LOG_CAP \<and>
      length (votes_responded (cstate r)) = RAFT_MAX_PEERS \<and>
      length (votes_granted (cstate r)) = RAFT_MAX_PEERS \<and>
      length (next_index (lstate r)) = RAFT_MAX_PEERS \<and>
      length (match_index (lstate r)) = RAFT_MAX_PEERS)"

definition raft_bounds :: "raft_node \<Rightarrow> bool" where
  "raft_bounds r =
     (unat (peer_count r) \<le> RAFT_MAX_PEERS \<and> unat (r_len r) \<le> RAFT_LOG_CAP \<and>
      unat (r_commit r) \<le> RAFT_LOG_CAP \<and>
      (state r = LEADER \<longrightarrow>
        (\<forall>i < unat (peer_count r).
           0 < next_index (lstate r) ! i \<and> unat (next_index (lstate r) ! i) \<le> Suc (unat (r_len r)))))"

definition raft_wf :: "raft_node \<Rightarrow> bool" where
  "raft_wf r = (raft_sizes r \<and> raft_bounds r)"

lemmas raft_wf_defs = raft_wf_def raft_sizes_def raft_bounds_def

text \<open>The entry at each used position carries its own index, counted from one.\<close>

definition indexed :: "LogEntry list \<Rightarrow> bool" where
  "indexed es = (\<forall>i < length es. unat (le_index (es ! i)) = Suc i)"

end
