(* ===== verification/Raft_Persist.thy ===== *)
theory Raft_Persist
  imports Raft_Types
begin

text \<open>
  The durable log of a Raft node (\<open>raft.c\<close>: \<open>persist_state_locked\<close>,
  \<open>persist_log_entry_locked\<close>, \<open>persist_truncate_locked\<close>, \<open>restore_pstate\<close>,
  \<open>create_log_file\<close>).  Every change of the persistent state is one line of text, \<open>STATE\<close>,
  \<open>ENTRY\<close> or \<open>TRUNCATE\<close>; on start-up the lines are scanned back in order.  The theory
  models the text itself, character by character, on the writing and on the reading side.
\<close>

section \<open>Paths\<close>

definition raft_log_path :: "string \<Rightarrow> raft_node_id_t \<Rightarrow> string" where
  "raft_log_path root nid = take (PATH_MAX - 1) (root @ ''/tmp/raft-'' @ dec (unat nid) @ ''.log'')"

abbreviation log_path :: "raft_node \<Rightarrow> world \<Rightarrow> string" where
  "log_path r w \<equiv> raft_log_path (project_root w) (node_id r)"

section \<open>Writing\<close>

definition state_line :: "raft_term_t \<Rightarrow> raft_node_id_t \<Rightarrow> string" where
  "state_line t v = ''STATE '' @ dec (unat t) @ '' '' @ dec (unat v) @ [NL]"

definition entry_line :: "LogEntry \<Rightarrow> string" where
  "entry_line e =
     ''ENTRY '' @ dec (unat (le_index e)) @ '' '' @ dec (unat (le_term e)) @ '' '' @
     dec_int (sint (cc_type (le_command e))) @ '' '' @
     dec (unat (room_key (le_command e))) @ '' '' @
     dec (unat (player_id (le_command e))) @ '' '' @
     dec (unat (cc_input (le_command e))) @ [NL]"

definition truncate_line :: "raft_index_t \<Rightarrow> string" where
  "truncate_line from = ''TRUNCATE '' @ dec (unat from) @ [NL]"

text \<open>Each of the three functions writes its line and then flushes it to storage.\<close>

definition write_synced :: "raft_node \<Rightarrow> string \<Rightarrow> world \<Rightarrow> int \<times> world" where
  "write_synced r txt w =
     (let (n, w) = dprintf (log_file r) (log_path r w) txt w in
      if n < 0 then (- 1, w)
      else let (rc, w) = fdatasync (log_file r) w in if rc = - 1 then (- 1, w) else (0, w))"

definition persist_state_locked :: "raft_node \<Rightarrow> world \<Rightarrow> int \<times> world" where
  "persist_state_locked r w = write_synced r (state_line (r_term r) (r_voted r)) w"

definition persist_log_entry_locked :: "raft_node \<Rightarrow> LogEntry \<Rightarrow> world \<Rightarrow> int \<times> world" where
  "persist_log_entry_locked r entry w = write_synced r (entry_line entry) w"

definition persist_truncate_locked :: "raft_node \<Rightarrow> raft_index_t \<Rightarrow> world \<Rightarrow> int \<times> world" where
  "persist_truncate_locked r from w = write_synced r (truncate_line from) w"

section \<open>Reading\<close>

definition fmt_STATE :: "directive list" where
  "fmt_STATE = map Lit ''STATE'' @ [Space, ConvU64, Space, ConvU64]"

definition fmt_TRUNCATE :: "directive list" where
  "fmt_TRUNCATE = map Lit ''TRUNCATE'' @ [Space, ConvU64]"

definition fmt_ENTRY :: "directive list" where
  "fmt_ENTRY =
     map Lit ''ENTRY'' @
     [Space, ConvU64, Space, ConvU64, Space, ConvD, Space, ConvU64, Space, ConvU64, Space, ConvU32]"

definition restore_entry :: "LogEntry \<Rightarrow> raft_node \<Rightarrow> (bool \<times> raft_node) option" where
  "restore_entry entry r =
     (if le_index entry \<noteq> r_len r + 1 then Some (False, r)
      else if RAFT_LOG_CAP \<le> unat (r_len r) then Some (False, r)
      else do {
        l \<leftarrow> arr_set (r_log r) (unat (r_len r)) entry;
        Some (True, set_len (r_len r + 1) (set_log l r))
      })"

definition restore_truncate :: "raft_index_t \<Rightarrow> raft_node \<Rightarrow> bool \<times> raft_node" where
  "restore_truncate trunc r =
     (if trunc = 0 then (False, r)
      else (True, if trunc \<le> r_len r + 1 then set_len (trunc - 1) r else r))"

text \<open>One line of the file; \<open>False\<close> stops the restoration with an error.\<close>

definition restore_line :: "string \<Rightarrow> raft_node \<Rightarrow> (bool \<times> raft_node) option" where
  "restore_line line r =
     (case sscanf fmt_STATE (cstr line) of
        [SInt t, SInt v] \<Rightarrow> Some (True, set_voted (word_of_int v) (set_term (word_of_int t) r))
      | _ \<Rightarrow>
        (case sscanf fmt_TRUNCATE (cstr line) of
           [SInt t] \<Rightarrow> Some (restore_truncate (word_of_int t) r)
         | _ \<Rightarrow>
           (case sscanf fmt_ENTRY (cstr line) of
              [SInt i, SInt t, SInt c, SInt k, SInt p, SInt n] \<Rightarrow>
                restore_entry
                  \<lparr>le_index = word_of_int i, le_term = word_of_int t,
                   le_command = \<lparr>cc_type = word_of_int c, room_key = word_of_int k,
                     player_id = word_of_int p, cc_input = word_of_int n\<rparr>\<rparr> r
            | _ \<Rightarrow> Some (True, r))))"

fun restore_lines :: "string list \<Rightarrow> raft_node \<Rightarrow> (int \<times> raft_node) option" where
  "restore_lines [] r = Some (0, r)"
| "restore_lines (l # ls) r = do {
     (go, r) \<leftarrow> restore_line l r;
     if go then restore_lines ls r else Some (- 1, r)
   }"

text \<open>The line buffer has 256 characters; a missing file is nothing to restore.\<close>

definition restore_pstate :: "raft_node \<Rightarrow> world \<Rightarrow> (int \<times> raft_node \<times> world) option" where
  "restore_pstate r w =
     (let (opened, w) = sys_call w in
      if opened \<noteq> None then Some (- 1, r, w)
      else case files w (log_path r w) of
          None \<Rightarrow> Some (0, r, w)
        | Some txt \<Rightarrow>
            let (fp, w) = sys_call w in
            if fp \<noteq> None then Some (- 1, r, w)
            else do {
              (rc, r) \<leftarrow> restore_lines (fgets_all 255 txt) r;
              Some (rc, r, w)
            })"

text \<open>
  On success the function ends without a \<open>return\<close>, so it yields no value:
  the first component is \<open>None\<close> then.
\<close>

definition create_log_file :: "raft_node \<Rightarrow> world \<Rightarrow> int option \<times> raft_node \<times> world" where
  "create_log_file r w =
     (let (opened, w) = sys_call w in
      if opened \<noteq> None then (Some (- 1), r\<lparr>log_file := - 1\<rparr>, w)
      else (None, r\<lparr>log_file := int (next_fd w)\<rparr>, append_file (log_path r w) '''' w))"

end
