(* ===== verification/Raft_Node.thy ===== *)
theory Raft_Node
  imports Raft_Persist
begin

text \<open>
  The operations of a Raft node (\<open>src/tetrish/system_programs/raft.c\<close>), each a function of
  the node and the world.  Every operation takes the node's mutex, so one call is one atomic
  step; the model keeps the lock and unlock of every path.  Pointers that the code tests
  against \<open>NULL\<close> are options in the exported operations; the part of an operation after
  those tests has the suffix \<open>_body\<close>.  Diagnostic output is not modelled.
\<close>

section \<open>Helpers\<close>

definition raft_max :: "raft_index_t \<Rightarrow> raft_index_t \<Rightarrow> raft_index_t" where
  "raft_max a b = (if a > b then a else b)"

definition find_peer_idx :: "raft_node \<Rightarrow> raft_node_id_t \<Rightarrow> size_t option" where
  "find_peer_idx r peer =
     for_from 0 (unat (peer_count r))
       (\<lambda>i peeridx. do {
          p \<leftarrow> arr_get (peers r) i;
          Some (if peer_id p = peer then of_nat i else peeridx)
        }) SIZE_MAX"

definition majority :: "size_t \<Rightarrow> size_t" where
  "majority n = n div 2 + 1"

definition checkLog :: "raft_index_t \<Rightarrow> raft_term_t \<Rightarrow> raft_index_t \<Rightarrow> raft_term_t \<Rightarrow> bool" where
  "checkLog reqLogIdx reqLogTerm lastIdx lastTerm =
     (if reqLogTerm \<noteq> lastTerm then reqLogTerm > lastTerm else reqLogIdx \<ge> lastIdx)"

definition raft_last_log_index :: "raft_node \<Rightarrow> raft_index_t" where
  "raft_last_log_index r = r_len r"

definition raft_last_log_term :: "raft_node \<Rightarrow> raft_term_t option" where
  "raft_last_log_term r =
     (if r_len r = 0 then Some 0
      else do { e \<leftarrow> arr_get (r_log r) (unat (r_len r - 1)); Some (le_term e) })"

text \<open>
  The first peer with the id: the result and the value left in \<open>*peer_idx\<close>.  The out
  parameter is an option because the code tests it against \<open>NULL\<close>.
\<close>

definition raft_find_peer_index ::
  "raft_node option \<Rightarrow> raft_node_id_t \<Rightarrow> size_t option \<Rightarrow> (bool \<times> size_t option) option" where
  "raft_find_peer_index rp pid out =
     (case (rp, out) of
        (Some r, Some old) \<Rightarrow> do {
          (missing, o') \<leftarrow>
            for_ret 0 (unat (peer_count r))
              (\<lambda>i s. do {
                 p \<leftarrow> arr_get (peers r) i;
                 Some (if peer_id p = pid then (False, of_nat i) else (True, s))
               }) old;
          Some (\<not> missing, Some o')
        }
      | _ \<Rightarrow> Some (False, out))"

section \<open>Time\<close>

definition raft_now_msec :: "world \<Rightarrow> raft_msec_t \<times> world" where
  "raft_now_msec w =
     (let (ts, w) = clock_gettime w in
      case ts of None \<Rightarrow> (- 1, w)
      | Some (tv_sec, tv_nsec) \<Rightarrow> (tv_sec * 1000 + tv_nsec sdiv 1000000, w))"

definition raft_election_timeout_expired :: "raft_node \<Rightarrow> world \<Rightarrow> bool \<times> world" where
  "raft_election_timeout_expired r w =
     (let (now, w) = raft_now_msec w in
      if now < 0 then (False, w)
      else (now - latest_heartbeat_ms r \<ge> election_timeout_duration_ms r, w))"

definition raft_random_election_timeout :: "world \<Rightarrow> raft_msec_t \<times> world" where
  "raft_random_election_timeout w = (let (n, w) = c_rand w in (150 + n smod 150, w))"

definition raft_reset_election_timer :: "raft_node \<Rightarrow> world \<Rightarrow> raft_node \<times> world" where
  "raft_reset_election_timer r w =
     (let (d, w) = raft_random_election_timeout w; (now, w) = raft_now_msec w
      in (r\<lparr>election_timeout_duration_ms := d, latest_heartbeat_ms := now\<rparr>, w))"

section \<open>Changes of role\<close>

definition raft_init_candidate_state :: "raft_node \<Rightarrow> raft_term_t \<Rightarrow> raft_node" where
  "raft_init_candidate_state r t = r\<lparr>cstate := zero_cstate\<lparr>electionterm := t\<rparr>\<rparr>"

definition raft_init_leader_state :: "raft_node \<Rightarrow> raft_node option" where
  "raft_init_leader_state r =
     (let r = r\<lparr>state := LEADER, leader_id := node_id r, lstate := zero_lstate\<rparr> in
      for_from 0 (unat (peer_count r))
        (\<lambda>i r. do {
           nx \<leftarrow> arr_set (next_index (lstate r)) i (raft_last_log_index r + 1);
           mt \<leftarrow> arr_set (match_index (lstate r)) i 0;
           Some (r\<lparr>lstate := \<lparr>next_index = nx, match_index = mt\<rparr>\<rparr>)
         }) r)"

definition raft_clear_candidate_state :: "raft_node \<Rightarrow> raft_node" where
  "raft_clear_candidate_state r = r\<lparr>cstate := zero_cstate\<rparr>"

definition raft_clear_leader_state :: "raft_node \<Rightarrow> raft_node" where
  "raft_clear_leader_state r = r\<lparr>lstate := zero_lstate\<rparr>"

definition update_term_locked :: "raft_node \<Rightarrow> raft_term_t \<Rightarrow> world \<Rightarrow> int \<times> raft_node \<times> world" where
  "update_term_locked r newTerm w =
     (if newTerm \<le> r_term r then (0, r, w)
      else
        let r = (if state r \<noteq> FAILED then r\<lparr>state := FOLLOWER\<rparr> else r);
            r = set_term newTerm r;
            r = set_voted RAFT_NONE r;
            r = r\<lparr>leader_id := RAFT_NONE\<rparr>;
            (rc, w) = persist_state_locked r w
        in if rc < 0 then (- 1, r\<lparr>state := FAILED\<rparr>, w)
           else
             let r = raft_clear_candidate_state r;
                 r = raft_clear_leader_state r;
                 (r, w) = raft_reset_election_timer r w
             in (0, r, w))"

definition update_term :: "raft_node option \<Rightarrow> raft_term_t \<Rightarrow> world \<Rightarrow> (raft_node option \<times> world) option" where
  "update_term rp newTerm w =
     (case rp of None \<Rightarrow> Some (None, w)
      | Some r \<Rightarrow> do {
          r \<leftarrow> mutex_lock r;
          let (rc, r, w) = update_term_locked r newTerm w;
          Some (Some (mutex_unlock r), w)
        })"

text \<open>
  A fresh node.  The two branches on the result of \<open>create_log_file\<close> only differ in a
  diagnostic, so the missing return value of its success path does not reach the node.
\<close>

definition initialise_raft_sm_body :: "raft_node_id_t \<Rightarrow> world \<Rightarrow> (raft_node \<times> world) option" where
  "initialise_raft_sm_body nid w =
     (let r = zero_node;
          r = r\<lparr>log_file := - 1\<rparr>;
          r = r\<lparr>mu := False\<rparr>;
          r = r\<lparr>state := FOLLOWER, node_id := nid, leader_id := RAFT_NONE, peer_count := 0\<rparr>;
          r = set_len 0 (set_voted RAFT_NONE (set_term 0 r));
          r = set_applied 0 (set_commit 0 r);
          r = r\<lparr>heartbeat_interval_ms := 50\<rparr>;
          (r, w) = raft_reset_election_timer r w
      in do {
        (rc, r, w) \<leftarrow> restore_pstate r w;
        if rc = - 1 then Some (r, w)
        else let (ret, r, w) = create_log_file r w in Some (r, w)
      })"

definition initialise_raft_sm ::
  "raft_node option \<Rightarrow> raft_node_id_t \<Rightarrow> world \<Rightarrow> (raft_node option \<times> world) option" where
  "initialise_raft_sm rp nid w =
     (case rp of None \<Rightarrow> Some (None, w)
      | Some _ \<Rightarrow> do { (r, w) \<leftarrow> initialise_raft_sm_body nid w; Some (Some r, w) })"

section \<open>Elections\<close>

definition vote_request :: "raft_node \<Rightarrow> raft_term_t \<Rightarrow> RequestVoteRequest" where
  "vote_request r last_term =
     \<lparr>rv_term = r_term r, rv_lastLogIndex = raft_last_log_index r, rv_lastLogTerm = last_term,
      rv_candidateId = node_id r\<rparr>"

text \<open>Fill \<open>out\<close> with one request per peer while there is room; the number written.\<close>

function broadcast ::
  "RequestVoteRequest \<Rightarrow> nat \<Rightarrow> nat \<Rightarrow> nat \<Rightarrow> nat \<Rightarrow> raft_message list \<Rightarrow> (nat \<times> raft_message list) option"
where
  "broadcast rq npeers out_cap i out_len out =
     (if i < npeers \<and> out_len < out_cap then do {
        out \<leftarrow> arr_set out out_len
          \<lparr>msg_type = RAFT_MSG_REQUEST_VOTE, msg_peer_idx = of_nat i, msg_body = request_vote rq\<rparr>;
        broadcast rq npeers out_cap (Suc i) (Suc out_len) out
      } else Some (out_len, out))"
  by pat_completeness auto
termination
  by (relation "measure (\<lambda>(_, npeers, _, i, _, _). npeers - i)") auto

declare broadcast.simps [simp del]

definition raft_timeout_body ::
  "raft_node \<Rightarrow> raft_message list \<Rightarrow> size_t \<Rightarrow> world
    \<Rightarrow> (size_t \<times> raft_message list \<times> raft_node \<times> world) option" where
  "raft_timeout_body r out out_cap w = do {
     r \<leftarrow> mutex_lock r;
     if state r = FAILED \<or> state r = LEADER then Some (0, out, mutex_unlock r, w)
     else let (expired, w) = raft_election_timeout_expired r w in
       if \<not> expired then Some (0, out, mutex_unlock r, w)
       else
         let r = r\<lparr>leader_id := RAFT_NONE, state := CANDIDATE\<rparr>;
             r = set_term (r_term r + 1) r;
             r = set_voted (node_id r) r;
             (rc, w) = persist_state_locked r w
         in if rc < 0 then Some (0, out, mutex_unlock r, w)
            else
              let r = raft_init_candidate_state r (r_term r);
                  (r, w) = raft_reset_election_timer r w
              in if majority (peer_count r + 1) = 1
                 then do { r \<leftarrow> raft_init_leader_state r; Some (0, out, mutex_unlock r, w) }
                 else do {
                   last_term \<leftarrow> raft_last_log_term r;
                   (n, out) \<leftarrow> broadcast (vote_request r last_term) (unat (peer_count r)) (unat out_cap) 0 0 out;
                   Some (of_nat n, out, mutex_unlock r, w)
                 }
   }"

definition raft_timeout ::
  "raft_node option \<Rightarrow> raft_message list option \<Rightarrow> size_t \<Rightarrow> world
    \<Rightarrow> (size_t \<times> raft_message list option \<times> raft_node option \<times> world) option" where
  "raft_timeout rp out out_cap w =
     (case (rp, out) of
        (Some r, Some o') \<Rightarrow> do {
          (n, o', r, w) \<leftarrow> raft_timeout_body r o' out_cap w;
          Some (n, Some o', Some r, w)
        }
      | _ \<Rightarrow> Some (0, out, rp, w))"

text \<open>
  The response carries the term the node had on entry: the code fills it in before
  \<open>update_term_locked\<close> runs and does not refresh it.
\<close>

definition HandleRequestVoteRequest_body ::
  "raft_node \<Rightarrow> RequestVoteRequest \<Rightarrow> world \<Rightarrow> (RequestVoteResponse \<times> raft_node \<times> world) option" where
  "HandleRequestVoteRequest_body r req w = do {
     let resp = \<lparr>rvr_term = r_term r, rvr_voteGranted = False\<rparr>;
     r \<leftarrow> mutex_lock r;
     let (rc, r, w) = (if rv_term req > r_term r then update_term_locked r (rv_term req) w else (0, r, w));
     if rv_term req < r_term r then Some (resp, mutex_unlock r, w)
     else if state r = LEADER then Some (resp, mutex_unlock r, w)
     else do {
       able \<leftarrow>
         (if r_voted r = RAFT_NONE \<or> r_voted r = rv_candidateId req
          then do {
            last_term \<leftarrow> raft_last_log_term r;
            Some (checkLog (rv_lastLogIndex req) (rv_lastLogTerm req) (raft_last_log_index r) last_term)
          }
          else Some False);
       if able then
         let r = set_voted (rv_candidateId req) r;
             (rc, w) = persist_state_locked r w
         in if rc < 0 then Some (resp, mutex_unlock (r\<lparr>state := FAILED\<rparr>), w)
            else let (r, w) = raft_reset_election_timer r w
                 in Some (resp\<lparr>rvr_voteGranted := True\<rparr>, mutex_unlock r, w)
       else Some (resp, mutex_unlock r, w)
     }
   }"

text \<open>The node is read before it is compared with \<open>NULL\<close>.\<close>

definition HandleRequestVoteRequest ::
  "raft_node option \<Rightarrow> RequestVoteRequest option \<Rightarrow> world
    \<Rightarrow> (RequestVoteResponse \<times> raft_node option \<times> world) option" where
  "HandleRequestVoteRequest rp reqp w = do {
     r \<leftarrow> rp;
     case reqp of
       None \<Rightarrow> Some (\<lparr>rvr_term = r_term r, rvr_voteGranted = False\<rparr>, rp, w)
     | Some req \<Rightarrow> do {
         (resp, r, w) \<leftarrow> HandleRequestVoteRequest_body r req w;
         Some (resp, Some r, w)
       }
   }"

definition count_votes :: "raft_node \<Rightarrow> nat option" where
  "count_votes r =
     for_from 0 (unat (peer_count r))
       (\<lambda>i votes. do {
          g \<leftarrow> arr_get (votes_granted (cstate r)) i;
          Some (if g then Suc votes else votes)
        }) 1"

definition HandleRequestVoteResponse_body ::
  "raft_node \<Rightarrow> RequestVoteResponse \<Rightarrow> raft_node_id_t \<Rightarrow> world \<Rightarrow> (raft_node \<times> world) option" where
  "HandleRequestVoteResponse_body r resp peer w = do {
     r \<leftarrow> mutex_lock r;
     if rvr_term resp > r_term r
     then let (rc, r, w) = update_term_locked r (rvr_term resp) w in Some (mutex_unlock r, w)
     else if state r \<noteq> CANDIDATE \<or> rvr_term resp \<noteq> r_term r \<or>
             rvr_term resp \<noteq> electionterm (cstate r)
     then Some (mutex_unlock r, w)
     else do {
       peer_idx \<leftarrow> find_peer_idx r peer;
       if peer_idx = SIZE_MAX then Some (mutex_unlock r, w)
       else do {
         dup \<leftarrow> arr_get (votes_responded (cstate r)) (unat peer_idx);
         if dup then Some (mutex_unlock r, w)
         else do {
           vr \<leftarrow> arr_set (votes_responded (cstate r)) (unat peer_idx) True;
           vg \<leftarrow> arr_set (votes_granted (cstate r)) (unat peer_idx) (rvr_voteGranted resp);
           let r = r\<lparr>cstate := (cstate r)\<lparr>votes_responded := vr, votes_granted := vg\<rparr>\<rparr>;
           votes \<leftarrow> count_votes r;
           if of_nat votes \<ge> majority (peer_count r + 1)
           then do {
             r \<leftarrow> raft_init_leader_state r;
             Some (mutex_unlock (r\<lparr>latest_heartbeat_ms := 0\<rparr>), w)
           }
           else Some (mutex_unlock r, w)
         }
       }
     }
   }"

definition HandleRequestVoteResponse ::
  "raft_node option \<Rightarrow> RequestVoteResponse option \<Rightarrow> raft_node_id_t \<Rightarrow> world
    \<Rightarrow> (raft_node option \<times> world) option" where
  "HandleRequestVoteResponse rp respp peer w =
     (case (rp, respp) of
        (Some r, Some resp) \<Rightarrow> do {
          (r, w) \<leftarrow> HandleRequestVoteResponse_body r resp peer w;
          Some (Some r, w)
        }
      | _ \<Rightarrow> Some (rp, w))"

section \<open>Replication\<close>

text \<open>The heartbeat; \<open>*req\<close> keeps its old value when the node is not a leader.\<close>

definition heartbeat_tick ::
  "raft_node \<Rightarrow> AppendEntriesRequest \<Rightarrow> (bool \<times> AppendEntriesRequest \<times> raft_node) option" where
  "heartbeat_tick r req = do {
     r \<leftarrow> mutex_lock r;
     if state r = FAILED \<or> state r \<noteq> LEADER then Some (False, req, mutex_unlock r)
     else Some (True,
       \<lparr>ae_term = r_term r, ae_leaderId = node_id r, ae_prevLogIndex = 0, ae_prevLogTerm = 0,
        ae_leaderCommit = r_commit r, ae_log_len = 0,
        ae_log = replicate RAFT_APPEND_BATCH zero_entry\<rparr>, mutex_unlock r)
   }"

definition copy_entries :: "raft_node \<Rightarrow> raft_index_t \<Rightarrow> nat \<Rightarrow> LogEntry list \<Rightarrow> LogEntry list option" where
  "copy_entries r nextIdx entryCount dst =
     for_from 0 entryCount
       (\<lambda>i dst. do {
          e \<leftarrow> arr_get (r_log r) (unat (nextIdx - 1 + of_nat i));
          arr_set dst i e
        }) dst"

definition raft_append_entries_body ::
  "raft_node \<Rightarrow> size_t \<Rightarrow> AppendEntriesRequest
    \<Rightarrow> (bool \<times> AppendEntriesRequest \<times> raft_node) option" where
  "raft_append_entries_body r peer_idx req = do {
     r \<leftarrow> mutex_lock r;
     if state r \<noteq> LEADER \<or> peer_idx \<ge> peer_count r then Some (False, req, mutex_unlock r)
     else do {
       nextIdx \<leftarrow> arr_get (next_index (lstate r)) (unat peer_idx);
       let prevLogIdx = nextIdx - 1;
       prevLogTerm \<leftarrow>
         (if prevLogIdx > 0
          then do { e \<leftarrow> arr_get (r_log r) (unat (prevLogIdx - 1)); Some (le_term e) }
          else Some 0);
       let available = r_len r - nextIdx + 1;
       let entryCount =
         (if nextIdx \<le> r_len r
          then (if available < of_nat RAFT_APPEND_BATCH then available else of_nat RAFT_APPEND_BATCH)
          else 0);
       es \<leftarrow> copy_entries r nextIdx (unat entryCount) (replicate RAFT_APPEND_BATCH zero_entry);
       Some (True,
         \<lparr>ae_term = r_term r, ae_leaderId = node_id r, ae_prevLogIndex = prevLogIdx,
          ae_prevLogTerm = prevLogTerm, ae_leaderCommit = r_commit r, ae_log_len = entryCount,
          ae_log = es\<rparr>, mutex_unlock r)
     }
   }"

definition raft_append_entries ::
  "raft_node option \<Rightarrow> size_t \<Rightarrow> AppendEntriesRequest option
    \<Rightarrow> (bool \<times> AppendEntriesRequest option \<times> raft_node option) option" where
  "raft_append_entries rp peer_idx reqp =
     (case (rp, reqp) of
        (Some r, Some req) \<Rightarrow> do {
          (b, req, r) \<leftarrow> raft_append_entries_body r peer_idx req;
          Some (b, Some req, Some r)
        }
      | _ \<Rightarrow> Some (False, reqp, rp))"

definition ae_prev_matches :: "raft_node \<Rightarrow> AppendEntriesRequest \<Rightarrow> bool option" where
  "ae_prev_matches r req =
     (if ae_prevLogIndex req > 0
      then do {
        prev \<leftarrow> arr_get (r_log r) (unat (ae_prevLogIndex req - 1));
        Some (le_term prev = ae_prevLogTerm req)
      }
      else Some True)"

text \<open>
  One incoming entry; \<open>False\<close> is the early return of the failure response.
\<close>

definition ae_entry ::
  "AppendEntriesRequest \<Rightarrow> nat \<Rightarrow> raft_node \<times> world \<Rightarrow> (bool \<times> raft_node \<times> world) option" where
  "ae_entry req i = (\<lambda>(r, w). do {
     incoming \<leftarrow> arr_get (ae_log req) i;
     let expected = ae_prevLogIndex req + of_nat i + 1;
     if le_index incoming \<noteq> expected then Some (False, r, w)
     else do {
       let pos = le_index incoming - 1;
       old \<leftarrow> (if pos < r_len r
               then do { e \<leftarrow> arr_get (r_log r) (unat pos); Some (Some e) } else Some None);
       if (case old of Some e \<Rightarrow> le_term e = le_term incoming | None \<Rightarrow> False)
       then Some (True, r, w)
       else do {
         let (rc, w) = (if old \<noteq> None then persist_truncate_locked r (le_index incoming) w else (0, w));
         if rc < 0 then Some (False, r\<lparr>state := FAILED\<rparr>, w)
         else do {
           let r = (if old \<noteq> None then set_len pos r else r);
           if RAFT_LOG_CAP \<le> unat (r_len r) then Some (False, r, w)
           else do {
             let (rc, w) = persist_log_entry_locked r incoming w;
             if rc < 0 then Some (False, r\<lparr>state := FAILED\<rparr>, w)
             else do {
               l \<leftarrow> arr_set (r_log r) (unat (r_len r)) incoming;
               Some (True, set_len (r_len r + 1) (set_log l r), w)
             }
           }
         }
       }
     }
   })"

definition ae_entries ::
  "AppendEntriesRequest \<Rightarrow> raft_node \<Rightarrow> world \<Rightarrow> (bool \<times> raft_node \<times> world) option" where
  "ae_entries req r w = for_ret 0 (unat (ae_log_len req)) (ae_entry req) (r, w)"

definition ae_learn_commit :: "raft_node \<Rightarrow> AppendEntriesRequest \<Rightarrow> raft_node" where
  "ae_learn_commit r req =
     (if ae_leaderCommit req > r_commit r
      then let last = raft_last_log_index r
           in set_commit (if ae_leaderCommit req < last then ae_leaderCommit req else last) r
      else r)"

definition HandleAppendEntriesRequest_body ::
  "raft_node \<Rightarrow> AppendEntriesRequest \<Rightarrow> world \<Rightarrow> (AppendEntriesResponse \<times> raft_node \<times> world) option" where
  "HandleAppendEntriesRequest_body r req w = do {
     r \<leftarrow> mutex_lock r;
     let resp = \<lparr>aer_term = r_term r, aer_success = False, aer_matchIndex = 0\<rparr>;
     if ae_term req < r_term r then Some (resp, mutex_unlock r, w)
     else
       let (rc, r, w) = (if ae_term req > r_term r then update_term_locked r (ae_term req) w else (0, r, w))
       in if rc < 0 then Some (resp, mutex_unlock r, w)
       else do {
         let resp = resp\<lparr>aer_term := r_term r\<rparr>;
         let r = (if state r \<noteq> FAILED then r\<lparr>state := FOLLOWER\<rparr> else r);
         let r = r\<lparr>leader_id := ae_leaderId req\<rparr>;
         let (now, w) = raft_now_msec w;
         let r = r\<lparr>latest_heartbeat_ms := now\<rparr>;
         let (r, w) = raft_reset_election_timer r w;
         if ae_prevLogIndex req > r_len r then Some (resp, mutex_unlock r, w)
         else do {
           ok \<leftarrow> ae_prev_matches r req;
           if \<not> ok then Some (resp, mutex_unlock r, w)
           else do {
             (completed, r, w) \<leftarrow> ae_entries req r w;
             if \<not> completed then Some (resp, mutex_unlock r, w)
             else
               let r = ae_learn_commit r req
               in Some (resp\<lparr>aer_success := True,
                          aer_matchIndex := ae_prevLogIndex req + ae_log_len req\<rparr>,
                        mutex_unlock r, w)
           }
         }
       }
   }"

definition HandleAppendEntriesRequest ::
  "raft_node option \<Rightarrow> AppendEntriesRequest option \<Rightarrow> world
    \<Rightarrow> (AppendEntriesResponse \<times> raft_node option \<times> world) option" where
  "HandleAppendEntriesRequest rp reqp w =
     (case (rp, reqp) of
        (Some r, Some req) \<Rightarrow> do {
          (resp, r, w) \<leftarrow> HandleAppendEntriesRequest_body r req w;
          Some (resp, Some r, w)
        }
      | _ \<Rightarrow> Some (\<lparr>aer_term = 0, aer_success = False, aer_matchIndex = 0\<rparr>, rp, w))"

section \<open>Commitment\<close>

definition count_matches :: "raft_node \<Rightarrow> raft_index_t \<Rightarrow> nat option" where
  "count_matches r n =
     for_from 0 (unat (peer_count r))
       (\<lambda>peer track. do {
          m \<leftarrow> arr_get (match_index (lstate r)) peer;
          Some (if m \<ge> n then Suc track else track)
        }) 1"

text \<open>The loop from the last index down to the commit index.\<close>

fun advance_from :: "raft_node \<Rightarrow> nat \<Rightarrow> raft_node option" where
  "advance_from r 0 = Some r"
| "advance_from r (Suc m) =
     (if unat (r_commit r) < Suc m then do {
        e \<leftarrow> arr_get (r_log r) m;
        if le_term e \<noteq> r_term r then advance_from r m
        else do {
          track \<leftarrow> count_matches r (of_nat (Suc m));
          if of_nat track \<ge> majority (peer_count r + 1)
          then Some (set_commit (of_nat (Suc m)) r)
          else advance_from r m
        }
      } else Some r)"

definition AdvanceCommitIndex_locked :: "raft_node \<Rightarrow> raft_node option" where
  "AdvanceCommitIndex_locked r =
     (if state r \<noteq> LEADER then Some r else advance_from r (unat (raft_last_log_index r)))"

text \<open>
  State and term are read before the lock is taken; like every handler this is one step, so no
  other call of the node runs between the test and the lock.
\<close>

definition HandleAppendEntriesResponse ::
  "raft_node \<Rightarrow> AppendEntriesResponse \<Rightarrow> raft_node_id_t \<Rightarrow> world \<Rightarrow> (raft_node \<times> world) option" where
  "HandleAppendEntriesResponse r resp peer w =
     (if state r \<noteq> LEADER then Some (r, w)
      else if r_term r > aer_term resp then Some (r, w)
      else do {
        r \<leftarrow> mutex_lock r;
        if r_term r < aer_term resp
        then let (rc, r, w) = update_term_locked r (aer_term resp) w in Some (mutex_unlock r, w)
        else do {
          peer_idx \<leftarrow> find_peer_idx r peer;
          if peer_idx = SIZE_MAX then Some (mutex_unlock r, w)
          else if aer_success resp then do {
            nx \<leftarrow> arr_get (next_index (lstate r)) (unat peer_idx);
            r \<leftarrow>
              (if nx < aer_matchIndex resp
               then do {
                 mt' \<leftarrow> arr_set (match_index (lstate r)) (unat peer_idx) (aer_matchIndex resp);
                 nx' \<leftarrow> arr_set (next_index (lstate r)) (unat peer_idx) (aer_matchIndex resp + 1);
                 Some (r\<lparr>lstate := \<lparr>next_index = nx', match_index = mt'\<rparr>\<rparr>)
               }
               else Some r);
            r \<leftarrow> AdvanceCommitIndex_locked r;
            Some (mutex_unlock r, w)
          }
          else do {
            nx \<leftarrow> arr_get (next_index (lstate r)) (unat peer_idx);
            r \<leftarrow>
              (if nx > 1
               then do {
                 nx' \<leftarrow> arr_set (next_index (lstate r)) (unat peer_idx) (nx - 1);
                 Some (r\<lparr>lstate := (lstate r)\<lparr>next_index := nx'\<rparr>\<rparr>)
               }
               else Some r);
            Some (mutex_unlock r, w)
          }
        }
      })"

text \<open>Handing committed entries to the application.\<close>

function apply_loop ::
  "raft_node \<Rightarrow> nat \<Rightarrow> size_t \<Rightarrow> LogEntry list \<Rightarrow> (nat \<times> LogEntry list \<times> raft_node) option" where
  "apply_loop r cnt out_cap out =
     (if r_applied r < r_commit r \<and> cnt < unat out_cap then do {
        e \<leftarrow> arr_get (r_log r) (unat (r_applied r));
        out \<leftarrow> arr_set out cnt e;
        apply_loop (set_applied (r_applied r + 1) r) (Suc cnt) out_cap out
      } else Some (cnt, out, r))"
  by pat_completeness auto
termination
  by (relation "measure (\<lambda>(_, cnt, out_cap, _). unat out_cap - cnt)") auto

declare apply_loop.simps [simp del]

definition raft_commit_entry_body ::
  "raft_node \<Rightarrow> LogEntry list \<Rightarrow> size_t \<Rightarrow> (size_t \<times> LogEntry list \<times> raft_node) option" where
  "raft_commit_entry_body r out out_cap = do {
     r \<leftarrow> mutex_lock r;
     (cnt, out, r) \<leftarrow> apply_loop r 0 out_cap out;
     Some (of_nat cnt, out, mutex_unlock r)
   }"

definition raft_commit_entry ::
  "raft_node option \<Rightarrow> LogEntry list option \<Rightarrow> size_t
    \<Rightarrow> (size_t \<times> LogEntry list option \<times> raft_node option) option" where
  "raft_commit_entry rp out out_cap =
     (case (rp, out) of
        (Some r, Some o') \<Rightarrow> do {
          (n, o', r) \<leftarrow> raft_commit_entry_body r o' out_cap;
          Some (n, Some o', Some r)
        }
      | _ \<Rightarrow> Some (0, out, rp))"

definition raft_leader_send_command_body ::
  "raft_node \<Rightarrow> client_command \<Rightarrow> world \<Rightarrow> (int \<times> raft_node \<times> world) option" where
  "raft_leader_send_command_body r command w = do {
     r \<leftarrow> mutex_lock r;
     if state r \<noteq> LEADER then Some (- 1, mutex_unlock r, w)
     else if RAFT_LOG_CAP \<le> unat (r_len r) then Some (- 1, mutex_unlock r, w)
     else
       let entry = \<lparr>le_index = raft_last_log_index r + 1, le_term = r_term r, le_command = command\<rparr>;
           (rc, w) = persist_log_entry_locked r entry w
       in if rc < 0 then Some (- 1, mutex_unlock (r\<lparr>state := FAILED\<rparr>), w)
       else do {
         l \<leftarrow> arr_set (r_log r) (unat (r_len r)) entry;
         let r = set_len (r_len r + 1) (set_log l r);
         let r = (if majority (peer_count r + 1) = 1 then set_commit (le_index entry) r else r);
         Some (0, mutex_unlock r, w)
       }
   }"

definition raft_leader_send_command ::
  "raft_node option \<Rightarrow> client_command option \<Rightarrow> world \<Rightarrow> (int \<times> raft_node option \<times> world) option" where
  "raft_leader_send_command rp cmdp w =
     (case (rp, cmdp) of
        (Some r, Some c) \<Rightarrow> do {
          (rc, r, w) \<leftarrow> raft_leader_send_command_body r c w;
          Some (rc, Some r, w)
        }
      | _ \<Rightarrow> Some (- 1, rp, w))"

end
