(* ===== verification/Raft_Safety.thy ===== *)
theory Raft_Safety
  imports Raft_Node
begin

text \<open>
  What every operation of the Raft node keeps: the array bounds and the lock discipline
  (no operation reaches undefined behaviour from a well-formed node, and the mutex is free
  again on every path), the node's identity and peers, and the rule that terms never go back
  and a vote cast in a term is never changed within it.
\<close>

section \<open>The contract of an operation\<close>

definition same_config :: "raft_node \<Rightarrow> raft_node \<Rightarrow> bool" where
  "same_config r r' =
     (node_id r' = node_id r \<and> peers r' = peers r \<and> peer_count r' = peer_count r \<and>
      log_file r' = log_file r)"

definition vote_stable :: "raft_node \<Rightarrow> raft_node \<Rightarrow> bool" where
  "vote_stable r r' =
     (r_term r < r_term r' \<or>
      r_term r = r_term r' \<and> (r_voted r = RAFT_NONE \<or> r_voted r' = r_voted r))"

definition evolves :: "raft_node \<Rightarrow> raft_node \<Rightarrow> bool" where
  "evolves r r' = (same_config r r' \<and> vote_stable r r')"

text \<open>A node between two calls: well formed and with the mutex free.\<close>

definition raft_idle :: "raft_node \<Rightarrow> bool" where
  "raft_idle r = (raft_wf r \<and> \<not> mu r)"

lemma evolves_refl [simp]: "evolves r r"
  by (simp add: evolves_def same_config_def vote_stable_def)

lemma evolves_trans: "evolves r r' \<Longrightarrow> evolves r' r'' \<Longrightarrow> evolves r r''"
  by (auto simp: evolves_def same_config_def vote_stable_def)

lemma evolves_same:
  "same_config r r' \<Longrightarrow> r_term r' = r_term r \<Longrightarrow> r_voted r' = r_voted r \<Longrightarrow> evolves r r'"
  by (simp add: evolves_def vote_stable_def)

section \<open>Sizes as numerals\<close>

lemmas raft_caps = RAFT_MAX_PEERS_def RAFT_LOG_CAP_def RAFT_APPEND_BATCH_def

lemma wf_lengths:
  assumes "raft_wf r"
  shows "length (peers r) = 8" "length (r_log r) = 1024"
    "length (votes_responded (cstate r)) = 8" "length (votes_granted (cstate r)) = 8"
    "length (next_index (lstate r)) = 8" "length (match_index (lstate r)) = 8"
  using assms by (simp_all add: raft_wf_defs raft_caps)

lemma wf_bounds:
  assumes "raft_wf r"
  shows "unat (peer_count r) \<le> 8" "unat (r_len r) \<le> 1024" "unat (r_commit r) \<le> 1024"
  using assms by (simp_all add: raft_wf_defs raft_caps)

lemma wf_next_index:
  assumes "raft_wf r" "state r = LEADER" "i < unat (peer_count r)"
  shows "0 < next_index (lstate r) ! i" "unat (next_index (lstate r) ! i) \<le> Suc (unat (r_len r))"
  using assms by (simp_all add: raft_wf_defs)

lemma zero_sizes [simp]:
  "length (votes_responded zero_cstate) = 8" "length (votes_granted zero_cstate) = 8"
  "length (next_index zero_lstate) = 8" "length (match_index zero_lstate) = 8"
  by (simp_all add: zero_cstate_def zero_lstate_def raft_caps)

text \<open>Well-formedness reads only these parts of a node.\<close>

lemma wf_transfer:
  assumes "raft_wf r" and "same_config r r'" and "r_log r' = r_log r" and "r_len r' = r_len r"
    and "vstate r' = vstate r"
    and "length (votes_responded (cstate r')) = 8" "length (votes_granted (cstate r')) = 8"
    and "length (next_index (lstate r')) = 8" "length (match_index (lstate r')) = 8"
    and "state r' = LEADER \<Longrightarrow> state r = LEADER \<and> lstate r' = lstate r"
  shows "raft_wf r'"
proof -
  have "raft_sizes r'" using assms by (simp add: raft_wf_defs same_config_def raft_caps)
  moreover have "raft_bounds r'"
    using assms by (auto simp: raft_wf_defs same_config_def)
  ultimately show ?thesis by (simp add: raft_wf_def)
qed

section \<open>Locks and timers\<close>

lemma mutex_lock_free [simp]: "\<not> mu r \<Longrightarrow> mutex_lock r = Some (r\<lparr>mu := True\<rparr>)"
  by (simp add: mutex_lock_def)

lemma unlock_lock: "\<not> mu r \<Longrightarrow> mutex_unlock (r\<lparr>mu := True\<rparr>) = r"
  by (cases r) (simp add: mutex_unlock_def)

lemma mutex_lock_Some [simp]: "mutex_lock r = Some r' \<longleftrightarrow> \<not> mu r \<and> r' = r\<lparr>mu := True\<rparr>"
  by (auto simp: mutex_lock_def)

text \<open>The clock and the random numbers are all the timers touch.\<close>

lemma now_shape: "raft_now_msec w = (t, w') \<Longrightarrow> \<exists>c. w' = w\<lparr>clock_s := c\<rparr>"
  by (auto simp: raft_now_msec_def clock_gettime_def split: prod.splits option.splits)

lemma reset_timer_shape:
  "raft_reset_election_timer r w = (r', w') \<Longrightarrow>
     \<exists>d t c n. r' = r\<lparr>election_timeout_duration_ms := d, latest_heartbeat_ms := t\<rparr> \<and>
       w' = w\<lparr>rand_s := n, clock_s := c\<rparr>"
  by (auto simp: raft_reset_election_timer_def raft_random_election_timeout_def c_rand_def
      split: prod.splits dest!: now_shape)

lemma expired_shape: "raft_election_timeout_expired r w = (b, w') \<Longrightarrow> \<exists>c. w' = w\<lparr>clock_s := c\<rparr>"
  by (auto simp: raft_election_timeout_expired_def split: prod.splits if_splits dest!: now_shape)

section \<open>Changing the term\<close>

lemma update_term_locked_old [simp]: "t \<le> r_term r \<Longrightarrow> update_term_locked r t w = (0, r, w)"
  by (simp add: update_term_locked_def)

lemma update_term_locked_new:
  assumes "update_term_locked r t w = (rc, r', w')" and "r_term r < t"
  shows "r_term r' = t" "r_voted r' = RAFT_NONE" "r_log r' = r_log r" "r_len r' = r_len r"
    "vstate r' = vstate r" "same_config r r'" "mu r' = mu r"
    "state r' = (if rc < 0 \<or> state r = FAILED then FAILED else FOLLOWER)"
    "(cstate r' = cstate r \<and> lstate r' = lstate r) \<or> (cstate r' = zero_cstate \<and> lstate r' = zero_lstate)"
    "rc = 0 \<or> rc = - 1"
  using assms
  by (auto simp: update_term_locked_def Let_def same_config_def raft_clear_candidate_state_def
      raft_clear_leader_state_def split: prod.splits if_splits dest!: reset_timer_shape)

lemma update_term_locked_wf:
  assumes "update_term_locked r t w = (rc, r', w')" and "raft_wf r"
  shows "raft_wf r'"
proof (cases "t \<le> r_term r")
  case True
  with assms show ?thesis by simp
next
  case False
  then have "r_term r < t" by simp
  note f = update_term_locked_new [OF assms(1) this]
  show ?thesis
    by (rule wf_transfer [OF assms(2) f(6) f(3) f(4) f(5)])
      (use f(8,9) wf_lengths [OF assms(2)] in \<open>auto split: if_splits\<close>)
qed

lemma update_term_locked_evolves:
  assumes "update_term_locked r t w = (rc, r', w')"
  shows "evolves r r'" "mu r' = mu r" "max (r_term r) t = r_term r'"
    "state r' = LEADER \<Longrightarrow> r' = r" "state r' = CANDIDATE \<Longrightarrow> r' = r"
    "entries r' = entries r" "vstate r' = vstate r"
proof -
  have *: "evolves r r' \<and> mu r' = mu r \<and> max (r_term r) t = r_term r' \<and>
      (state r' = LEADER \<longrightarrow> r' = r) \<and> (state r' = CANDIDATE \<longrightarrow> r' = r) \<and>
      entries r' = entries r \<and> vstate r' = vstate r"
  proof (cases "t \<le> r_term r")
    case True
    with assms show ?thesis by (simp add: max_def)
  next
    case False
    then have lt: "r_term r < t" by simp
    note f = update_term_locked_new [OF assms lt]
    from f lt show ?thesis
      by (auto simp: evolves_def vote_stable_def entries_def max_def split: if_splits)
  qed
  then show "evolves r r'" "mu r' = mu r" "max (r_term r) t = r_term r'"
    "state r' = LEADER \<Longrightarrow> r' = r" "state r' = CANDIDATE \<Longrightarrow> r' = r"
    "entries r' = entries r" "vstate r' = vstate r"
    by auto
qed

section \<open>Loops over the peers\<close>

lemma find_peer_idx_spec:
  assumes "raft_wf r"
  shows "\<exists>i. find_peer_idx r p = Some i \<and>
    (if i = SIZE_MAX then p \<notin> set (peer_ids r)
     else unat i < unat (peer_count r) \<and> peer_ids r ! unat i = p)"
proof -
  let ?n = "unat (peer_count r)"
  define P where "P = (\<lambda>j (t :: size_t).
    (t = SIZE_MAX \<and> (\<forall>k < j. peer_id (peers r ! k) \<noteq> p)) \<or>
    (unat t < j \<and> peer_id (peers r ! unat t) = p))"
  have n: "?n \<le> 8" "length (peers r) = 8" using wf_bounds wf_lengths assms by auto
  have "\<exists>t. find_peer_idx r p = Some t \<and> P ?n t"
    unfolding find_peer_idx_def
    by (rule for_from_rule) (use n in \<open>auto simp: P_def less_Suc_eq\<close>)
  moreover have "peer_ids r ! k = peer_id (peers r ! k)" if "k < ?n" for k
    using that n by (simp add: peer_ids_def)
  moreover have "set (peer_ids r) = (\<lambda>k. peer_id (peers r ! k)) ` {..<?n}"
    using n by (simp add: peer_ids_def nth_image [symmetric] image_image lessThan_atLeast0)
  ultimately show ?thesis using n by (fastforce simp: P_def)
qed

lemma count_votes_spec:
  assumes "raft_wf r"
  shows "count_votes r =
    Some (Suc (length (filter (\<lambda>i. votes_granted (cstate r) ! i) [0..<unat (peer_count r)])))"
proof -
  have "count_votes r = Some (fold (\<lambda>i k. if votes_granted (cstate r) ! i then Suc k else k)
      [0..<unat (peer_count r)] 1)"
    unfolding count_votes_def
    by (rule for_from_fold) (use wf_bounds(1) [OF assms] wf_lengths(4) [OF assms] in simp)
  then show ?thesis by (simp add: fold_count)
qed

lemma count_matches_spec:
  assumes "raft_wf r"
  shows "count_matches r n =
    Some (Suc (length (filter (\<lambda>i. n \<le> match_index (lstate r) ! i) [0..<unat (peer_count r)])))"
proof -
  have "count_matches r n = Some (fold (\<lambda>i k. if n \<le> match_index (lstate r) ! i then Suc k else k)
      [0..<unat (peer_count r)] 1)"
    unfolding count_matches_def
    by (rule for_from_fold) (use wf_bounds(1) [OF assms] wf_lengths(6) [OF assms] in simp)
  then show ?thesis by (simp add: fold_count)
qed

lemma replicate_update:
  assumes "j < m"
  shows "(replicate j x @ replicate (m - j) y)[j := x] = replicate (Suc j) x @ replicate (m - Suc j) y"
proof -
  have "replicate (m - j) y = y # replicate (m - Suc j) y"
    using assms by (metis Suc_diff_Suc replicate_Suc)
  then show ?thesis by (simp add: list_update_append replicate_app_Cons_same)
qed

lemma replicate_update_same [simp]: "(replicate m y)[j := y] = replicate m y"
proof (cases "j < m")
  case True
  then show ?thesis by (metis list_update_id nth_replicate)
qed (simp add: list_update_beyond)

text \<open>The state of a new leader.\<close>

definition new_leader :: "raft_node \<Rightarrow> raft_node" where
  "new_leader r =
     r\<lparr>state := LEADER, leader_id := node_id r,
       lstate := \<lparr>next_index = replicate (unat (peer_count r)) (r_len r + 1) @
                   replicate (8 - unat (peer_count r)) 0,
                 match_index = replicate 8 0\<rparr>\<rparr>"

lemma init_leader_shape:
  assumes "raft_wf r"
  shows "raft_init_leader_state r = Some (new_leader r)"
proof -
  let ?n = "unat (peer_count r)"
  let ?r = "\<lambda>j. r\<lparr>state := LEADER, leader_id := node_id r,
    lstate := \<lparr>next_index = replicate j (r_len r + 1) @ replicate (8 - j) 0,
      match_index = replicate 8 0\<rparr>\<rparr>"
  have n: "?n \<le> 8" using wf_bounds assms by auto
  let ?body = "\<lambda>i r. do {
      nx \<leftarrow> arr_set (next_index (lstate r)) i (r_len r + 1);
      mt \<leftarrow> arr_set (match_index (lstate r)) i 0;
      Some (r\<lparr>lstate := \<lparr>next_index = nx, match_index = mt\<rparr>\<rparr>)
    }"
  have "\<exists>t. for_from 0 ?n ?body (?r 0) = Some t \<and> t = ?r ?n"
  proof (rule for_from_rule [where P = "\<lambda>j t. t = ?r j"])
    fix j t
    assume "j < ?n" and t: "t = ?r j"
    with n have "j < 8" by simp
    then show "\<exists>t'. ?body j t = Some t' \<and> t' = ?r (Suc j)"
      unfolding t by (simp add: replicate_update)
  qed simp_all
  then have "raft_init_leader_state r = Some (?r ?n)"
    by (simp add: raft_init_leader_state_def raft_last_log_index_def zero_lstate_def raft_caps)
  then show ?thesis by (simp add: new_leader_def)
qed

lemma new_leader_fields [simp]:
  "state (new_leader r) = LEADER" "pstate (new_leader r) = pstate r"
  "vstate (new_leader r) = vstate r" "cstate (new_leader r) = cstate r"
  "node_id (new_leader r) = node_id r" "peers (new_leader r) = peers r"
  "peer_count (new_leader r) = peer_count r" "log_file (new_leader r) = log_file r"
  "mu (new_leader r) = mu r"
  by (simp_all add: new_leader_def)

lemma new_leader_wf:
  assumes "raft_wf r"
  shows "raft_wf (new_leader r)"
proof -
  have "0 < r_len r + 1 \<and> unat (r_len r + 1) \<le> Suc (unat (r_len r))"
    using wf_bounds(2) [OF assms] by (simp add: unat_Suc_64 word_less_nat_alt)
  then show ?thesis
    using assms wf_lengths [OF assms] wf_bounds(1) [OF assms]
    by (auto simp: raft_wf_defs new_leader_def raft_caps nth_append)
qed

lemma last_log_term_wf:
  assumes "raft_wf r"
  shows "raft_last_log_term r =
    Some (if entries r = [] then 0 else le_term (last (entries r)))"
proof (cases "r_len r = 0")
  case True
  then show ?thesis by (simp add: raft_last_log_term_def entries_def)
next
  case False
  then have pos: "0 < unat (r_len r)" by (simp add: unat_gt_0)
  have le: "unat (r_len r) \<le> length (r_log r)"
    using wf_bounds(2) [OF assms] wf_lengths(2) [OF assms] by simp
  have "last (entries r) = r_log r ! (unat (r_len r) - 1)"
    unfolding entries_def by (subst last_conv_nth) (use pos le in \<open>auto simp: min_def\<close>)
  moreover have "unat (r_len r - 1) = unat (r_len r) - 1"
    using False by (simp add: unat_pred_64 word_neq_0_conv [symmetric])
  moreover have "entries r \<noteq> []" using pos le by (auto simp: entries_def)
  ultimately show ?thesis
    using False pos le by (simp add: raft_last_log_term_def arr_get_def)
qed

text \<open>The messages of a broadcast: one per peer, in order, as far as there is room.\<close>

definition vote_message :: "RequestVoteRequest \<Rightarrow> nat \<Rightarrow> raft_message" where
  "vote_message rq i =
     \<lparr>msg_type = RAFT_MSG_REQUEST_VOTE, msg_peer_idx = of_nat i, msg_body = request_vote rq\<rparr>"

lemma broadcast_spec:
  assumes "cap \<le> length out" and "i \<le> min np cap"
  shows "broadcast rq np cap i i out =
    Some (min np cap, take i out @ map (vote_message rq) [i..<min np cap] @ drop (min np cap) out)"
  using assms
proof (induction "min np cap - i" arbitrary: i out)
  case 0
  then have "i = min np cap" by simp
  moreover from this have "\<not> (i < np \<and> i < cap)" by auto
  then have "broadcast rq np cap i i out = Some (i, out)"
    by (subst broadcast.simps) (simp only: if_False)
  ultimately show ?case by simp
next
  case (Suc m)
  then have i: "i < np" "i < cap" "i < length out" by auto
  let ?out = "out[i := vote_message rq i]"
  have "broadcast rq np cap i i out = broadcast rq np cap (Suc i) (Suc i) ?out"
    using i by (subst broadcast.simps) (simp add: vote_message_def)
  also have "\<dots> = Some (min np cap,
      take (Suc i) ?out @ map (vote_message rq) [Suc i..<min np cap] @ drop (min np cap) ?out)"
    by (rule Suc.hyps(1)) (use Suc i in auto)
  also have "take (Suc i) ?out = take i out @ [vote_message rq i]"
    using i(3) by (rule take_Suc_update)
  also have "drop (min np cap) ?out = drop (min np cap) out" using i by simp
  finally show ?case using i by (simp add: upt_conv_Cons)
qed

section \<open>Majorities\<close>

lemma unat_majority: "unat (majority n) = Suc (unat n div 2)"
proof -
  have "unat n div 2 < 2 ^ 63" using unsigned_less [of n, where 'a = nat] by simp
  then have "unat (n div 2) + 1 < 2 ^ 64" by (simp add: unat_div_distrib)
  then show ?thesis by (simp add: majority_def unat_add_64 unat_div_distrib)
qed

lemma majority_single:
  assumes "unat pc \<le> 8"
  shows "majority (pc + 1) = 1 \<longleftrightarrow> pc = 0"
proof -
  have "unat (pc + 1) = Suc (unat pc)" using assms by (simp add: unat_Suc_64)
  then have "unat (majority (pc + 1)) = 1 \<longleftrightarrow> unat pc = 0"
    by (cases "unat pc") (simp_all add: unat_majority)
  then show ?thesis by (metis unat_0 unat_1 unat_eq_zero word_unat_eq_iff)
qed

section \<open>Starting an election\<close>

definition candidate_of :: "raft_node \<Rightarrow> raft_node" where
  "candidate_of r =
     set_voted (node_id r) (set_term (r_term r + 1) (r\<lparr>leader_id := RAFT_NONE, state := CANDIDATE\<rparr>))"

definition campaigner :: "raft_node \<Rightarrow> raft_node" where
  "campaigner r = raft_init_candidate_state (candidate_of r) (r_term r + 1)"

lemma candidate_fields [simp]:
  "state (candidate_of r) = CANDIDATE" "node_id (candidate_of r) = node_id r"
  "peers (candidate_of r) = peers r" "peer_count (candidate_of r) = peer_count r"
  "r_term (candidate_of r) = r_term r + 1" "r_voted (candidate_of r) = node_id r"
  "r_log (candidate_of r) = r_log r" "r_len (candidate_of r) = r_len r"
  "vstate (candidate_of r) = vstate r" "cstate (candidate_of r) = cstate r"
  "lstate (candidate_of r) = lstate r" "log_file (candidate_of r) = log_file r"
  "mu (candidate_of r) = mu r"
  by (simp_all add: candidate_of_def)

lemma campaigner_fields [simp]:
  "state (campaigner r) = CANDIDATE" "node_id (campaigner r) = node_id r"
  "peers (campaigner r) = peers r" "peer_count (campaigner r) = peer_count r"
  "pstate (campaigner r) = pstate (candidate_of r)"
  "vstate (campaigner r) = vstate r" "cstate (campaigner r) = zero_cstate\<lparr>electionterm := r_term r + 1\<rparr>"
  "lstate (campaigner r) = lstate r" "log_file (campaigner r) = log_file r"
  "mu (campaigner r) = mu r"
  by (simp_all add: campaigner_def raft_init_candidate_state_def)

lemma candidate_wf: "raft_wf r \<Longrightarrow> raft_wf (candidate_of r)"
  by (rule wf_transfer) (simp_all add: same_config_def wf_lengths)

lemma campaigner_wf: "raft_wf r \<Longrightarrow> raft_wf (campaigner r)"
  by (rule wf_transfer) (simp_all add: same_config_def wf_lengths)

text \<open>A node whose timers were rearmed.\<close>

definition retimed :: "raft_node \<Rightarrow> raft_node \<Rightarrow> bool" where
  "retimed r r' = (\<exists>d t. r' = r\<lparr>election_timeout_duration_ms := d, latest_heartbeat_ms := t\<rparr>)"

lemma retimed_refl [simp]: "retimed r r"
  unfolding retimed_def by (rule exI [of _ "election_timeout_duration_ms r"],
      rule exI [of _ "latest_heartbeat_ms r"]) simp

lemma retimed_wf: "retimed r r' \<Longrightarrow> raft_wf r' = raft_wf r"
  by (auto simp: retimed_def raft_wf_defs)

lemma unlock_candidate:
  "\<not> mu r \<Longrightarrow> mutex_unlock (candidate_of (r\<lparr>mu := True\<rparr>)) = candidate_of r"
  by (cases r) (simp add: candidate_of_def mutex_unlock_def)

lemma unlock_campaigner:
  "\<not> mu r \<Longrightarrow> retimed (campaigner (r\<lparr>mu := True\<rparr>)) q \<Longrightarrow> retimed (campaigner r) (mutex_unlock q)"
  "\<not> mu r \<Longrightarrow> retimed (campaigner (r\<lparr>mu := True\<rparr>)) q \<Longrightarrow>
     retimed (new_leader (campaigner r)) (mutex_unlock (new_leader q))"
  by (cases r; auto simp: retimed_def mutex_unlock_def new_leader_def campaigner_def candidate_of_def
      raft_init_candidate_state_def)+

lemma retimed_fields:
  assumes "retimed r r'"
  shows "state r' = state r" "pstate r' = pstate r" "vstate r' = vstate r" "cstate r' = cstate r"
    "lstate r' = lstate r" "node_id r' = node_id r" "peers r' = peers r"
    "peer_count r' = peer_count r" "log_file r' = log_file r" "mu r' = mu r" "leader_id r' = leader_id r"
  using assms by (auto simp: retimed_def)

lemma reset_timer_retimed: "raft_reset_election_timer r w = (r', w') \<Longrightarrow> retimed r r'"
  unfolding retimed_def using reset_timer_shape by blast

lemma mu_unlock [simp]: "\<not> mu (mutex_unlock r)"
  by (simp add: mutex_unlock_def)

lemma unlock_fields [simp]:
  "state (mutex_unlock r) = state r" "pstate (mutex_unlock r) = pstate r"
  "vstate (mutex_unlock r) = vstate r" "cstate (mutex_unlock r) = cstate r"
  "lstate (mutex_unlock r) = lstate r" "node_id (mutex_unlock r) = node_id r"
  "peers (mutex_unlock r) = peers r" "peer_count (mutex_unlock r) = peer_count r"
  "log_file (mutex_unlock r) = log_file r" "leader_id (mutex_unlock r) = leader_id r"
  by (simp_all add: mutex_unlock_def)

lemma wf_mu [simp]: "raft_wf (mutex_unlock r) = raft_wf r" "raft_wf (r\<lparr>mu := b\<rparr>) = raft_wf r"
  by (simp_all add: raft_wf_defs)

lemma wf_insensitive [simp]:
  "raft_wf (set_voted v r) = raft_wf r" "raft_wf (set_term t r) = raft_wf r"
  "raft_wf (r\<lparr>leader_id := x\<rparr>) = raft_wf r" "raft_wf (r\<lparr>latest_heartbeat_ms := z\<rparr>) = raft_wf r"
  by (simp_all add: raft_wf_defs)

lemma wf_demote: "raft_wf r \<Longrightarrow> s \<noteq> LEADER \<Longrightarrow> raft_wf (r\<lparr>state := s\<rparr>)"
  by (simp add: raft_wf_defs)

lemma last_log_term_cong:
  "r_log r' = r_log r \<Longrightarrow> r_len r' = r_len r \<Longrightarrow> raft_last_log_term r' = raft_last_log_term r"
  by (simp add: raft_last_log_term_def)

lemma raft_timeout_body_unfold:
  assumes "\<not> mu r" and "raft_election_timeout_expired (r\<lparr>mu := True\<rparr>) w = (b, w1)"
    and "persist_state_locked (candidate_of (r\<lparr>mu := True\<rparr>)) w1 = (rc, w2)"
    and "raft_reset_election_timer (campaigner (r\<lparr>mu := True\<rparr>)) w2 = (r3, w3)"
  shows "raft_timeout_body r out cap w =
    (if state r = FAILED \<or> state r = LEADER then Some (0, out, r, w)
     else if \<not> b then Some (0, out, r, w1)
     else if rc < 0 then Some (0, out, mutex_unlock (candidate_of (r\<lparr>mu := True\<rparr>)), w2)
     else if majority (peer_count r3 + 1) = 1
     then do { q \<leftarrow> raft_init_leader_state r3; Some (0, out, mutex_unlock q, w3) }
     else do {
       last_term \<leftarrow> raft_last_log_term r3;
       (n, out) \<leftarrow> broadcast (vote_request r3 last_term) (unat (peer_count r3)) (unat cap) 0 0 out;
       Some (of_nat n, out, mutex_unlock r3, w3)
     })"
  using assms
  by (simp add: raft_timeout_body_def unlock_lock campaigner_def candidate_of_def)

lemma raft_timeout_body_cases:
  assumes "raft_idle r" and "unat cap \<le> length out"
  shows "\<exists>n out' r' w'. raft_timeout_body r out cap w = Some (n, out', r', w') \<and> \<not> mu r' \<and>
    (n = 0 \<and> out' = out \<and> retimed r r' \<or>
     state r \<in> {FOLLOWER, CANDIDATE} \<and> n = 0 \<and> out' = out \<and> r' = candidate_of r \<or>
     state r \<in> {FOLLOWER, CANDIDATE} \<and> peer_count r = 0 \<and> n = 0 \<and> out' = out \<and>
       retimed (new_leader (campaigner r)) r' \<or>
     state r \<in> {FOLLOWER, CANDIDATE} \<and> peer_count r \<noteq> 0 \<and> retimed (campaigner r) r' \<and>
       (\<exists>k last_term. k = min (unat (peer_count r)) (unat cap) \<and> n = of_nat k \<and>
         raft_last_log_term r = Some last_term \<and>
         out' = map (vote_message (vote_request r' last_term)) [0..<k] @ drop k out))"
proof -
  have wf: "raft_wf r" and free: "\<not> mu r" using assms(1) by (simp_all add: raft_idle_def)
  let ?l = "r\<lparr>mu := True\<rparr>"
  show ?thesis
  proof (cases "state r = FAILED \<or> state r = LEADER")
    case True
    then show ?thesis
      using free by (simp add: raft_timeout_body_def unlock_lock)
  next
    case False
    then have st: "state r \<in> {FOLLOWER, CANDIDATE}" by (cases "state r") auto
    obtain b w1 where b: "raft_election_timeout_expired ?l w = (b, w1)" by fastforce
    obtain rc w2 where rc: "persist_state_locked (candidate_of ?l) w1 = (rc, w2)" by fastforce
    obtain r3 w3 where r3: "raft_reset_election_timer (campaigner ?l) w2 = (r3, w3)" by fastforce
    have r3': "retimed (campaigner ?l) r3" using r3 by (rule reset_timer_retimed)
    note f3 = retimed_fields [OF r3']
    have wf3: "raft_wf r3"
      using wf campaigner_wf [of ?l] retimed_wf [OF r3'] by simp
    note body = raft_timeout_body_unfold [OF free b rc r3, of out cap]
    have pc: "majority (peer_count r3 + 1) = 1 \<longleftrightarrow> peer_count r = 0"
      using majority_single wf_bounds(1) [OF wf] f3 by simp
    consider "\<not> b" | "b" "rc < 0" | "b" "\<not> rc < 0" "peer_count r = 0"
      | "b" "\<not> rc < 0" "peer_count r \<noteq> 0" by blast
    then show ?thesis
    proof cases
      case 1
      with body free False show ?thesis by simp
    next
      case 2
      with body st free False show ?thesis by (simp add: unlock_candidate)
    next
      case 3
      with body False pc init_leader_shape [OF wf3] st unlock_campaigner(2) [OF free r3'] show ?thesis
        by simp
    next
      case 4
      obtain lt where lt: "raft_last_log_term r3 = Some lt" "raft_last_log_term r = Some lt"
        using last_log_term_wf [OF wf] last_log_term_cong [of r3 r] f3(2) by simp
      have "vote_request (mutex_unlock r3) lt = vote_request r3 lt"
        by (simp add: vote_request_def raft_last_log_index_def)
      with 4 body False pc lt st unlock_campaigner(1) [OF free r3'] f3 broadcast_spec [OF assms(2), of 0]
      show ?thesis by simp
    qed
  qed
qed

lemma evolves_mu [simp]:
  "evolves (r\<lparr>mu := b\<rparr>) r' = evolves r r'" "evolves r (mutex_unlock r') = evolves r r'"
  by (simp_all add: evolves_def same_config_def vote_stable_def)

lemma retimed_evolves: "retimed r r' \<Longrightarrow> evolves q r' = evolves q r"
  by (simp add: evolves_def same_config_def vote_stable_def retimed_fields)

text \<open>Only an election makes a candidate or a leader.\<close>

definition no_promotion :: "raft_node \<Rightarrow> raft_node \<Rightarrow> bool" where
  "no_promotion r r' =
     ((state r' = LEADER \<longrightarrow> state r = LEADER \<and> r_term r' = r_term r) \<and>
      (state r' = CANDIDATE \<longrightarrow> state r = CANDIDATE \<and> r_term r' = r_term r \<and> cstate r' = cstate r) \<and>
      (cstate r' = cstate r \<or> cstate r' = zero_cstate))"

lemma no_promotion_refl [simp]: "no_promotion r r"
  by (simp add: no_promotion_def)

lemma no_promotion_trans: "no_promotion r r' \<Longrightarrow> no_promotion r' r'' \<Longrightarrow> no_promotion r r''"
  by (auto simp: no_promotion_def)

lemma no_promotion_mu [simp]:
  "no_promotion (r\<lparr>mu := b\<rparr>) r' = no_promotion r r'" "no_promotion r (mutex_unlock r') = no_promotion r r'"
  by (simp_all add: no_promotion_def)

lemma no_promotion_failed: "no_promotion r r' \<Longrightarrow> no_promotion r (r'\<lparr>state := FAILED\<rparr>)"
  by (simp add: no_promotion_def)

lemma retimed_no_promotion: "retimed r r' \<Longrightarrow> no_promotion q r' = no_promotion q r"
  by (simp add: no_promotion_def retimed_fields)

lemma update_term_locked_no_promotion: "update_term_locked r t w = (rc, r', w') \<Longrightarrow> no_promotion r r'"
  using update_term_locked_evolves(4,5) [of r t w rc r' w'] update_term_locked_new(9) [of r t w rc r' w']
  by (cases "t \<le> r_term r") (auto simp: no_promotion_def)

text \<open>The node does not vote: its vote is the one it had in the same term, or none.\<close>

definition vote_kept :: "raft_node \<Rightarrow> raft_node \<Rightarrow> bool" where
  "vote_kept r r' = (r_voted r' = RAFT_NONE \<or> r_term r' = r_term r \<and> r_voted r' = r_voted r)"

lemma vote_kept_same [simp]: "r_term r' = r_term r \<Longrightarrow> r_voted r' = r_voted r \<Longrightarrow> vote_kept r r'"
  by (simp add: vote_kept_def)

lemma update_term_locked_kept: "update_term_locked r t w = (rc, r', w') \<Longrightarrow> vote_kept r r'"
  using update_term_locked_new(2) [of r t w rc r' w'] by (cases "t \<le> r_term r") (auto simp: vote_kept_def)

section \<open>Granting a vote\<close>

text \<open>Both kinds of request first adopt a newer term.\<close>

definition adopt_term :: "raft_node \<Rightarrow> raft_term_t \<Rightarrow> world \<Rightarrow> int \<times> raft_node \<times> world" where
  "adopt_term r t w = (if t > r_term r then update_term_locked r t w else (0, r, w))"

lemma adopt_term_facts:
  assumes "adopt_term r t w = (rc, r', w')" and "raft_wf r"
  shows "raft_wf r'" "evolves r r'" "no_promotion r r'" "mu r' = mu r" "r_term r' = max (r_term r) t"
    "r_log r' = r_log r" "r_len r' = r_len r" "vstate r' = vstate r"
    "r_term r < t \<Longrightarrow> state r' = FOLLOWER \<or> state r' = FAILED"
    "t \<le> r_term r \<Longrightarrow> r' = r" "vote_kept r r'"
proof -
  have "raft_wf r' \<and> evolves r r' \<and> no_promotion r r' \<and> mu r' = mu r \<and> r_term r' = max (r_term r) t \<and>
    r_log r' = r_log r \<and> r_len r' = r_len r \<and> vstate r' = vstate r \<and>
    (r_term r < t \<longrightarrow> state r' = FOLLOWER \<or> state r' = FAILED) \<and> (t \<le> r_term r \<longrightarrow> r' = r) \<and> vote_kept r r'"
  proof (cases "t > r_term r")
    case True
    with assms(1) have u: "update_term_locked r t w = (rc, r', w')" by (simp add: adopt_term_def)
    note new = update_term_locked_new [OF u True]
    have "state r' = FOLLOWER \<or> state r' = FAILED" by (subst (1 2) new(8)) simp
    then show ?thesis
      using True new(1,3-5,7) update_term_locked_kept [OF u] update_term_locked_wf [OF u assms(2)] update_term_locked_evolves(1) [OF u]
        update_term_locked_no_promotion [OF u] by (simp add: max_def less_imp_le)
  next
    case False
    with assms show ?thesis by (simp add: adopt_term_def max_def)
  qed
  then show "raft_wf r'" "evolves r r'" "no_promotion r r'" "mu r' = mu r" "r_term r' = max (r_term r) t"
    "r_log r' = r_log r" "r_len r' = r_len r" "vstate r' = vstate r"
    "r_term r < t \<Longrightarrow> state r' = FOLLOWER \<or> state r' = FAILED"
    "t \<le> r_term r \<Longrightarrow> r' = r" "vote_kept r r'"
    by blast+
qed

definition log_checked :: "RequestVoteRequest \<Rightarrow> raft_node \<Rightarrow> bool" where
  "log_checked req r =
     (\<exists>lt. raft_last_log_term r = Some lt \<and>
        checkLog (rv_lastLogIndex req) (rv_lastLogTerm req) (raft_last_log_index r) lt)"

lemma HandleRequestVoteRequest_body_cases:
  assumes "raft_idle r"
  shows "\<exists>resp r' w'. HandleRequestVoteRequest_body r req w = Some (resp, r', w') \<and>
    raft_idle r' \<and> evolves r r' \<and> no_promotion r r' \<and> (state r' = LEADER \<longrightarrow> r' = r) \<and>
    rvr_term resp = r_term r \<and> r_term r' = max (r_term r) (rv_term req) \<and>
    r_log r' = r_log r \<and> r_len r' = r_len r \<and> vstate r' = vstate r \<and>
    (rvr_voteGranted resp \<longrightarrow> r_term r' = rv_term req \<and> r_voted r' = rv_candidateId req \<and>
      (r_term r = rv_term req \<longrightarrow> r_voted r = RAFT_NONE \<or> r_voted r = rv_candidateId req) \<and>
      log_checked req r) \<and>
    (vote_kept r r' \<or>
     r_term r' = rv_term req \<and> r_voted r' = rv_candidateId req \<and> log_checked req r)"
proof -
  have wf: "raft_wf r" and free: "\<not> mu r" using assms by (simp_all add: raft_idle_def)
  obtain rc r1 w1 where a: "adopt_term (r\<lparr>mu := True\<rparr>) (rv_term req) w = (rc, r1, w1)"
    by (metis prod_cases3)
  note f = adopt_term_facts [OF a, simplified, OF wf]
  obtain lt where lt: "raft_last_log_term r1 = Some lt" using last_log_term_wf [OF f(1)] by simp
  define able where "able = ((r_voted r1 = RAFT_NONE \<or> r_voted r1 = rv_candidateId req) \<and>
    checkLog (rv_lastLogIndex req) (rv_lastLogTerm req) (r_len r1) lt)"
  let ?r2 = "set_voted (rv_candidateId req) r1"
  obtain rc2 w2 where p: "persist_state_locked ?r2 w1 = (rc2, w2)" by fastforce
  obtain r3 w3 where t: "raft_reset_election_timer ?r2 w2 = (r3, w3)" by fastforce
  note r3 = retimed_fields [OF reset_timer_retimed [OF t]]
  let ?resp = "\<lparr>rvr_term = r_term r, rvr_voteGranted = False\<rparr>"
  have body: "HandleRequestVoteRequest_body r req w =
    (if rv_term req < r_term r1 \<or> state r1 = LEADER \<or> \<not> able then Some (?resp, mutex_unlock r1, w1)
     else if rc2 < 0 then Some (?resp, mutex_unlock (?r2\<lparr>state := FAILED\<rparr>), w2)
     else Some (?resp\<lparr>rvr_voteGranted := True\<rparr>, mutex_unlock r3, w3))"
    using free a p t lt
    by (auto simp: HandleRequestVoteRequest_body_def adopt_term_def able_def raft_last_log_index_def Let_def
        split: if_splits)
  have wf2: "raft_wf ?r2" "raft_wf (?r2\<lparr>state := FAILED\<rparr>)" "raft_wf r3"
    using f(1) retimed_wf [OF reset_timer_retimed [OF t]] by (simp_all add: wf_demote)
  have ev2: "evolves r1 ?r2" "no_promotion r1 ?r2" if able
    using that by (auto simp: able_def evolves_def same_config_def vote_stable_def no_promotion_def)
  have chk: "r_term r1 = rv_term req \<and> log_checked req r" if "\<not> (rv_term req < r_term r1 \<or> state r1 = LEADER \<or> \<not> able)"
  proof -
    have "raft_last_log_term r = Some lt" using lt last_log_term_cong [OF f(6,7)] by simp
    moreover have "checkLog (rv_lastLogIndex req) (rv_lastLogTerm req) (raft_last_log_index r) lt"
      using that f(7) by (auto simp: able_def raft_last_log_index_def)
    moreover have "r_term r1 = rv_term req" using that f(5) by (auto simp: max_def split: if_splits)
    ultimately show ?thesis unfolding log_checked_def by blast
  qed
  have lead: "mutex_unlock r1 = r" if "state r1 = LEADER"
    using that f(9,10) unlock_lock [OF free] by (metis ServerState.distinct(3,11) not_le)
  have kept: "vote_kept r (mutex_unlock r1)" using f(11) by (simp add: vote_kept_def)
  consider "rv_term req < r_term r1 \<or> state r1 = LEADER \<or> \<not> able"
    | "\<not> (rv_term req < r_term r1 \<or> state r1 = LEADER \<or> \<not> able)" "rc2 < 0"
    | "\<not> (rv_term req < r_term r1 \<or> state r1 = LEADER \<or> \<not> able)" "\<not> rc2 < 0" by blast
  then show ?thesis
  proof cases
    case 1
    with body f kept lead show ?thesis by (auto simp: raft_idle_def)
  next
    case 2
    then have "evolves r ?r2" "no_promotion r ?r2"
      using ev2 f(2,3) evolves_trans no_promotion_trans by blast+
    then have "evolves r (?r2\<lparr>state := FAILED\<rparr>)" "no_promotion r (?r2\<lparr>state := FAILED\<rparr>)"
      by (simp_all add: evolves_def same_config_def vote_stable_def no_promotion_failed)
    with 2 body f wf2(2) chk [OF 2(1)] show ?thesis by (simp add: raft_idle_def)
  next
    case 3
    then have e: "evolves r ?r2" "no_promotion r ?r2"
      using ev2 f(2,3) evolves_trans no_promotion_trans by blast+
    have "r_term r = rv_term req \<longrightarrow> r_voted r = RAFT_NONE \<or> r_voted r = rv_candidateId req"
      using 3(1) f(10) by (auto simp: able_def)
    then show ?thesis
      using 3 chk [OF 3(1)] body f wf2(3) e r3
      by (simp add: raft_idle_def retimed_evolves [OF reset_timer_retimed [OF t]]
          retimed_no_promotion [OF reset_timer_retimed [OF t]])
  qed
qed

end
