(* ===== verification/Raft_Contract.thy ===== *)
theory Raft_Contract
  imports Raft_Safety
begin

text \<open>
  The contract of the remaining operations of the node: counting votes, building and
  handling \<open>AppendEntries\<close>, handing out committed entries and accepting commands.  Each
  \<open>_cases\<close> lemma says that the operation returns (no undefined behaviour), that the node is
  idle again, and what changed.
\<close>

section \<open>Counting a vote\<close>

definition record_vote :: "raft_node \<Rightarrow> nat \<Rightarrow> bool \<Rightarrow> raft_node" where
  "record_vote r i g =
     r\<lparr>cstate := (cstate r)\<lparr>votes_responded := (votes_responded (cstate r))[i := True],
                             votes_granted := (votes_granted (cstate r))[i := g]\<rparr>\<rparr>"

definition granted_by :: "raft_node \<Rightarrow> nat set" where
  "granted_by r = {i. i < unat (peer_count r) \<and> votes_granted (cstate r) ! i}"

lemma record_vote_fields [simp]:
  "state (record_vote r i g) = state r" "pstate (record_vote r i g) = pstate r"
  "vstate (record_vote r i g) = vstate r" "lstate (record_vote r i g) = lstate r"
  "node_id (record_vote r i g) = node_id r" "peers (record_vote r i g) = peers r"
  "peer_count (record_vote r i g) = peer_count r" "log_file (record_vote r i g) = log_file r"
  "mu (record_vote r i g) = mu r" "electionterm (cstate (record_vote r i g)) = electionterm (cstate r)"
  "votes_granted (cstate (record_vote r i g)) = (votes_granted (cstate r))[i := g]"
  by (simp_all add: record_vote_def)

lemma record_vote_wf: "raft_wf r \<Longrightarrow> raft_wf (record_vote r i g)"
  by (rule wf_transfer) (simp_all add: same_config_def wf_lengths record_vote_def)

lemma card_filter_upt: "length (filter p [0..<n]) = card {i. i < n \<and> p i}"
proof -
  have "length (filter p [0..<n]) = card (set (filter p [0..<n]))"
    by (rule distinct_card [symmetric]) simp
  also have "set (filter p [0..<n]) = {i. i < n \<and> p i}" by auto
  finally show ?thesis .
qed

lemma count_votes_granted: "raft_wf r \<Longrightarrow> count_votes r = Some (Suc (card (granted_by r)))"
  by (simp add: count_votes_spec card_filter_upt granted_by_def)

text \<open>A count of peers compares with the majority of the cluster without wrap-around.\<close>

lemma majority_reached:
  assumes "unat pc \<le> 8" and "k \<le> 8"
  shows "majority (pc + 1) \<le> of_nat (Suc k) \<longleftrightarrow> Suc (unat pc) div 2 \<le> k"
proof -
  have "unat (pc + 1) = Suc (unat pc)" using assms by (simp add: unat_Suc_64)
  then show ?thesis
    using assms(2) by (simp add: word_le_nat_alt unat_majority del: of_nat_Suc)
qed

lemma card_below: "card {i. i < (n :: nat) \<and> p i} \<le> n"
  by (metis (no_types, lifting) card_mono card_Collect_less_nat finite_Collect_less_nat mem_Collect_eq subsetI)

lemma granted_by_le: "card (granted_by r) \<le> unat (peer_count r)"
  by (simp add: granted_by_def card_below)

text \<open>The node after the vote of peer \<open>i\<close> was counted.\<close>

definition vote_outcome :: "raft_node \<Rightarrow> nat \<Rightarrow> bool \<Rightarrow> raft_node \<Rightarrow> bool" where
  "vote_outcome r i g r' =
     (let q = record_vote r i g in
      r' = (if Suc (unat (peer_count r)) div 2 \<le> card (granted_by q)
            then (new_leader q)\<lparr>latest_heartbeat_ms := 0\<rparr> else q))"

lemma HandleRequestVoteResponse_body_cases:
  assumes "raft_idle r"
  shows "\<exists>r' w'. HandleRequestVoteResponse_body r resp peer w = Some (r', w') \<and>
    raft_idle r' \<and> evolves r r' \<and> r_log r' = r_log r \<and> r_len r' = r_len r \<and> vstate r' = vstate r \<and>
    (rvr_term resp \<le> r_term r \<longrightarrow> pstate r' = pstate r) \<and> vote_kept r r' \<and>
    (no_promotion r r' \<and> (state r' = LEADER \<longrightarrow> r' = r) \<and> r_term r' = max (r_term r) (rvr_term resp) \<or>
     (\<exists>i. state r = CANDIDATE \<and> rvr_term resp = r_term r \<and> electionterm (cstate r) = r_term r \<and>
        i < unat (peer_count r) \<and> peer_ids r ! i = peer \<and> \<not> votes_responded (cstate r) ! i \<and>
        vote_outcome r i (rvr_voteGranted resp) r'))"
proof -
  have wf: "raft_wf r" and free: "\<not> mu r" using assms by (simp_all add: raft_idle_def)
  let ?l = "r\<lparr>mu := True\<rparr>"
  have wfl: "raft_wf ?l" using wf by simp
  consider "rvr_term resp > r_term r"
    | "\<not> rvr_term resp > r_term r"
      "state r \<noteq> CANDIDATE \<or> rvr_term resp \<noteq> r_term r \<or> rvr_term resp \<noteq> electionterm (cstate r)"
    | "state r = CANDIDATE" "rvr_term resp = r_term r" "electionterm (cstate r) = r_term r"
    by (metis order_less_irrefl)
  then show ?thesis
  proof cases
    case 1
    obtain rc r1 w1 where u: "update_term_locked ?l (rvr_term resp) w = (rc, r1, w1)"
      by (metis prod_cases3)
    note f = update_term_locked_evolves [OF u] and g = update_term_locked_new [OF u, simplified, OF 1]
    have "HandleRequestVoteResponse_body r resp peer w = Some (mutex_unlock r1, w1)"
      using 1 free u by (simp add: HandleRequestVoteResponse_body_def)
    then show ?thesis
      using 1 f g(3,4,5,8) update_term_locked_kept [OF u] update_term_locked_wf [OF u wfl] update_term_locked_no_promotion [OF u]
      by (simp add: raft_idle_def not_le vote_kept_def)
  next
    case 2
    then have "HandleRequestVoteResponse_body r resp peer w = Some (r, w)"
      using free by (auto simp: HandleRequestVoteResponse_body_def unlock_lock)
    then show ?thesis using assms 2(1) by (simp add: max_def)
  next
    case 3
    obtain i where i: "find_peer_idx ?l peer = Some i"
      "if i = SIZE_MAX then peer \<notin> set (peer_ids ?l)
       else unat i < unat (peer_count ?l) \<and> peer_ids ?l ! unat i = peer"
      using find_peer_idx_spec [OF wfl] by blast
    have ids: "peer_ids ?l = peer_ids r" by (simp add: peer_ids_def)
    have len: "unat (peer_count r) \<le> 8" "length (votes_responded (cstate r)) = 8"
      "length (votes_granted (cstate r)) = 8" using wf_bounds [OF wf] wf_lengths [OF wf] by auto
    consider "i = SIZE_MAX" | "i \<noteq> SIZE_MAX" "votes_responded (cstate r) ! unat i"
      | "i \<noteq> SIZE_MAX" "\<not> votes_responded (cstate r) ! unat i" by blast
    then show ?thesis
    proof cases
      case 4: 1
      then have "HandleRequestVoteResponse_body r resp peer w = Some (r, w)"
        using 3 free i(1) by (simp add: HandleRequestVoteResponse_body_def unlock_lock)
      then show ?thesis using assms 3(2) by simp
    next
      case 5: 2
      then have "HandleRequestVoteResponse_body r resp peer w = Some (r, w)"
        using 3 free i len by (simp add: HandleRequestVoteResponse_body_def unlock_lock)
      then show ?thesis using assms 3(2) by simp
    next
      case 6: 3
      then have ii: "unat i < unat (peer_count r)" "peer_ids r ! unat i = peer"
        using i(2) ids by simp_all
      let ?g = "rvr_voteGranted resp"
      let ?ql = "record_vote ?l (unat i) ?g" and ?q = "record_vote r (unat i) ?g"
      have wfq: "raft_wf ?ql" using wfl by (rule record_vote_wf)
      have gq: "granted_by ?ql = granted_by ?q" by (simp add: granted_by_def)
      have k: "card (granted_by ?q) \<le> 8"
        using granted_by_le [of ?q] len(1) by simp
      have "HandleRequestVoteResponse_body r resp peer w = do {
          votes \<leftarrow> count_votes ?ql;
          if of_nat votes \<ge> majority (peer_count ?ql + 1)
          then do {
            r \<leftarrow> raft_init_leader_state ?ql;
            Some (mutex_unlock (r\<lparr>latest_heartbeat_ms := 0\<rparr>), w)
          }
          else Some (mutex_unlock ?ql, w)
        }"
        unfolding record_vote_def HandleRequestVoteResponse_body_def Let_def
        using 3 6 free i(1) ii len by (simp cong: if_cong)
      then have "HandleRequestVoteResponse_body r resp peer w =
        (if Suc (unat (peer_count r)) div 2 \<le> card (granted_by ?q)
         then Some (mutex_unlock ((new_leader ?ql)\<lparr>latest_heartbeat_ms := 0\<rparr>), w)
         else Some (mutex_unlock ?ql, w))"
        using majority_reached [OF len(1) k]
        by (simp add: count_votes_granted [OF wfq] init_leader_shape [OF wfq] gq del: of_nat_Suc)
      moreover have "mutex_unlock ((new_leader ?ql)\<lparr>latest_heartbeat_ms := 0\<rparr>) =
          (new_leader ?q)\<lparr>latest_heartbeat_ms := 0\<rparr>" "mutex_unlock ?ql = ?q"
        using free by (cases r; simp add: mutex_unlock_def new_leader_def record_vote_def)+
      moreover have "raft_idle ?q" "raft_idle ((new_leader ?q)\<lparr>latest_heartbeat_ms := 0\<rparr>)"
        using record_vote_wf [OF wf] new_leader_wf free by (simp_all add: raft_idle_def)
      moreover have "evolves r ?q" "evolves r ((new_leader ?q)\<lparr>latest_heartbeat_ms := 0\<rparr>)"
        by (rule evolves_same; simp add: same_config_def)+
      ultimately show ?thesis using 3 6 ii by (auto simp: vote_outcome_def Let_def)
    qed
  qed
qed

section \<open>Changes of the log\<close>

text \<open>A node of which only the log differs.\<close>

definition relogged :: "raft_node \<Rightarrow> raft_node \<Rightarrow> bool" where
  "relogged r r' = (\<exists>l n. r' = set_len n (set_log l r))"

lemma relogged_refl [simp]: "relogged r r"
  unfolding relogged_def by (rule exI [of _ "r_log r"], rule exI [of _ "r_len r"]) simp

lemma relogged_trans: "relogged r r' \<Longrightarrow> relogged r' r'' \<Longrightarrow> relogged r r''"
  by (cases r; cases "pstate r") (auto simp: relogged_def)

lemma relogged_fields:
  assumes "relogged r r'"
  shows "state r' = state r" "r_term r' = r_term r" "r_voted r' = r_voted r" "vstate r' = vstate r"
    "cstate r' = cstate r" "lstate r' = lstate r" "node_id r' = node_id r" "peers r' = peers r"
    "peer_count r' = peer_count r" "log_file r' = log_file r" "mu r' = mu r" "leader_id r' = leader_id r"
  using assms by (auto simp: relogged_def)

lemma entries_cong: "r_log r' = r_log r \<Longrightarrow> r_len r' = r_len r \<Longrightarrow> entries r' = entries r"
  by (simp add: entries_def)

lemma entries_length: "raft_wf r \<Longrightarrow> length (entries r) = unat (r_len r)"
  using wf_bounds(2) [of r] wf_lengths(2) [of r] by (simp add: entries_def)

lemma entries_nth: "i < unat (r_len r) \<Longrightarrow> entries r ! i = r_log r ! i"
  by (simp add: entries_def)

text \<open>The two ways the code changes the log.\<close>

lemma entries_append:
  assumes "unat (r_len r) < 1024" and "length (r_log r) = 1024"
  shows "entries (set_len (r_len r + 1) (set_log ((r_log r)[unat (r_len r) := e]) r)) = entries r @ [e]"
proof -
  have "unat (r_len r + 1) = Suc (unat (r_len r))" using assms by (simp add: unat_Suc_64)
  then show ?thesis using assms by (simp add: entries_def take_Suc_update)
qed

lemma entries_truncate:
  assumes "unat n \<le> unat (r_len r)"
  shows "entries (set_len n r) = take (unat n) (entries r)"
  using assms by (simp add: entries_def min_def)

lemma wf_append:
  assumes "raft_wf r" and "unat (r_len r) < 1024"
  shows "raft_wf (set_len (r_len r + 1) (set_log ((r_log r)[unat (r_len r) := e]) r))"
proof -
  have "unat (r_len r + 1) = Suc (unat (r_len r))" using assms by (simp add: unat_Suc_64)
  then show ?thesis using assms by (force simp: raft_wf_defs raft_caps)
qed

lemma wf_truncate:
  assumes "raft_wf r" and "unat n \<le> unat (r_len r)" and "state r \<noteq> LEADER"
  shows "raft_wf (set_len n r)"
  using assms by (simp add: raft_wf_defs raft_caps)

section \<open>Accepting entries from the leader\<close>

text \<open>
  What one incoming entry does to the entries a follower holds, at the position
  \<open>prev + i\<close>: an entry of the same term stays, otherwise the log is cut there and the
  incoming entry is appended.
\<close>

definition merge_step :: "nat \<Rightarrow> LogEntry list \<Rightarrow> nat \<Rightarrow> LogEntry list \<Rightarrow> LogEntry list" where
  "merge_step prev es i l =
     (if prev + i < length l \<and> le_term (l ! (prev + i)) = le_term (es ! i) then l
      else take (prev + i) l @ [es ! i])"

definition ae_len_ok :: "AppendEntriesRequest \<Rightarrow> bool" where
  "ae_len_ok req = (unat (ae_log_len req) \<le> length (ae_log req))"

text \<open>The log has an entry of another term where the request has its entry \<open>i\<close>.\<close>

definition conflict_at :: "AppendEntriesRequest \<Rightarrow> nat \<Rightarrow> LogEntry list \<Rightarrow> bool" where
  "conflict_at req i l =
     (let k = unat (ae_prevLogIndex req) + i in k < length l \<and> le_term (l ! k) \<noteq> le_term (ae_log req ! i))"

text \<open>The node after a refused entry.\<close>

definition ae_refused :: "AppendEntriesRequest \<Rightarrow> nat \<Rightarrow> raft_node \<Rightarrow> raft_node \<Rightarrow> bool" where
  "ae_refused req i r r' =
     (r' = r \<and> le_index (ae_log req ! i) \<noteq> ae_prevLogIndex req + of_nat i + 1 \<or>
      r' = r \<and> unat (r_len r) = RAFT_LOG_CAP \<and> unat (ae_prevLogIndex req) + i = RAFT_LOG_CAP \<or>
      r' = r\<lparr>state := FAILED\<rparr> \<or>
      r' = (set_len (ae_prevLogIndex req + of_nat i) r)\<lparr>state := FAILED\<rparr> \<and>
        conflict_at req i (entries r))"

lemma ae_entry_spec:
  assumes wf: "raft_wf r" and follower: "state r \<noteq> LEADER"
    and i: "i < length (ae_log req)" and prev: "unat (ae_prevLogIndex req) + i \<le> unat (r_len r)"
  shows "\<exists>go r' w'. ae_entry req i (r, w) = Some (go, r', w') \<and>
    (if go then le_index (ae_log req ! i) = ae_prevLogIndex req + of_nat i + 1 \<and> relogged r r' \<and>
        raft_wf r' \<and> unat (ae_prevLogIndex req) + Suc i \<le> unat (r_len r') \<and>
        entries r' = merge_step (unat (ae_prevLogIndex req)) (ae_log req) i (entries r)
     else ae_refused req i r r')"
proof -
  let ?e = "ae_log req ! i" and ?p = "ae_prevLogIndex req + of_nat i"
  have len: "unat (r_len r) \<le> 1024" "length (r_log r) = 1024" "length (entries r) = unat (r_len r)"
    using wf_bounds wf_lengths entries_length wf by auto
  have p: "unat ?p = unat (ae_prevLogIndex req) + i"
    using prev len(1) by (simp add: unat_add_64)
  show ?thesis
  proof (cases "le_index ?e = ?p + 1")
    case False
    then have "ae_entry req i (r, w) = Some (False, r, w)" using i by (simp add: ae_entry_def)
    then show ?thesis using False by (auto simp: ae_refused_def)
  next
    case idx: True
    consider (same) "unat ?p < unat (r_len r)" "le_term (r_log r ! unat ?p) = le_term ?e"
      | (differs) "unat ?p < unat (r_len r)" "le_term (r_log r ! unat ?p) \<noteq> le_term ?e"
      | (new) "unat ?p = unat (r_len r)"
      using prev p by linarith
    then show ?thesis
    proof cases
      case same
      then have "ae_entry req i (r, w) = Some (True, r, w)"
        using i idx len by (simp add: ae_entry_def word_less_nat_alt)
      then show ?thesis
        using idx same p wf len by (auto simp: merge_step_def entries_nth)
    next
      case differs
      obtain rc w1 where rc: "persist_truncate_locked r (?p + 1) w = (rc, w1)" by fastforce
      let ?t = "set_len ?p r"
      obtain rc2 w2 where rc2: "persist_log_entry_locked ?t ?e w1 = (rc2, w2)" by fastforce
      let ?a = "set_len (?p + 1) (set_log ((r_log r)[unat ?p := ?e]) ?t)"
      have body: "ae_entry req i (r, w) =
          (if rc < 0 then Some (False, r\<lparr>state := FAILED\<rparr>, w1)
           else if rc2 < 0 then Some (False, ?t\<lparr>state := FAILED\<rparr>, w2)
           else Some (True, ?a, w2))"
        using i idx len differs rc rc2
        by (simp add: ae_entry_def word_less_nat_alt RAFT_LOG_CAP_def Let_def o_def cong: if_cong)
      have wft: "raft_wf ?t" using wf follower differs(1) by (intro wf_truncate) auto
      have "entries ?a = entries ?t @ [?e]"
        using entries_append [of ?t ?e] differs(1) len by simp
      moreover have "entries ?t = take (unat ?p) (entries r)"
        using entries_truncate differs(1) by simp
      moreover have "raft_wf ?a" using wf_append [OF wft, of ?e] differs(1) len by simp
      moreover have "relogged r ?a"
        unfolding relogged_def by (rule exI [of _ "(r_log r)[unat ?p := ?e]"], rule exI [of _ "?p + 1"]) simp
      moreover have "unat (?p + 1) = Suc (unat ?p)" using differs(1) len by (simp add: unat_Suc_64)
      moreover have "entries r ! unat ?p = r_log r ! unat ?p" using differs(1) by (rule entries_nth)
      ultimately show ?thesis
        using body idx differs p len by (auto simp: merge_step_def ae_refused_def conflict_at_def)
    next
      case new
      obtain rc2 w2 where rc2: "persist_log_entry_locked r ?e w = (rc2, w2)" by fastforce
      let ?a = "set_len (r_len r + 1) (set_log ((r_log r)[unat (r_len r) := ?e]) r)"
      have eq: "?p = r_len r" using new by (simp add: word_unat_eq_iff)
      have r: "r = set_len ?p r" using eq by simp
      show ?thesis
      proof (cases "unat (r_len r) = 1024")
        case True
        then have "ae_entry req i (r, w) = Some (False, r, w)"
          using i idx eq by (simp add: ae_entry_def RAFT_LOG_CAP_def)
        then show ?thesis using True new p by (auto simp: ae_refused_def RAFT_LOG_CAP_def)
      next
        case False
        then have lt: "unat (r_len r) < 1024" using len by simp
        have body: "ae_entry req i (r, w) =
            (if rc2 < 0 then Some (False, r\<lparr>state := FAILED\<rparr>, w2) else Some (True, ?a, w2))"
          using i idx len lt eq rc2 by (simp add: ae_entry_def RAFT_LOG_CAP_def Let_def o_def cong: if_cong)
        moreover have "entries ?a = entries r @ [?e]" using lt len by (intro entries_append)
        moreover have "raft_wf ?a" using wf lt by (rule wf_append)
        moreover have "relogged r ?a" unfolding relogged_def by blast
        moreover have "unat (r_len r + 1) = Suc (unat (r_len r))" using lt by (simp add: unat_Suc_64)
        ultimately show ?thesis
          using idx new p len by (auto simp: merge_step_def ae_refused_def)
      qed
    qed
  qed
qed

definition merged :: "AppendEntriesRequest \<Rightarrow> nat \<Rightarrow> LogEntry list \<Rightarrow> LogEntry list" where
  "merged req n l = fold (merge_step (unat (ae_prevLogIndex req)) (ae_log req)) [0..<n] l"

definition ae_indexed :: "AppendEntriesRequest \<Rightarrow> nat \<Rightarrow> bool" where
  "ae_indexed req n =
     (\<forall>i < n. le_index (ae_log req ! i) = ae_prevLogIndex req + of_nat i + 1)"

lemma merged_0 [simp]: "merged req 0 l = l"
  by (simp add: merged_def)

lemma merged_Suc: "merged req (Suc n) l = merge_step (unat (ae_prevLogIndex req)) (ae_log req) n (merged req n l)"
  by (simp add: merged_def)

text \<open>The node after \<open>n\<close> accepted entries.\<close>

definition ae_prefix :: "AppendEntriesRequest \<Rightarrow> raft_node \<Rightarrow> nat \<Rightarrow> raft_node \<Rightarrow> bool" where
  "ae_prefix req r n q =
     (relogged r q \<and> raft_wf q \<and> unat (ae_prevLogIndex req) + n \<le> unat (r_len q) \<and>
      entries q = merged req n (entries r) \<and> ae_indexed req n)"

lemma ae_entries_spec:
  assumes "raft_wf r" and "state r \<noteq> LEADER" and "ae_len_ok req"
    and "unat (ae_prevLogIndex req) \<le> unat (r_len r)"
  shows "\<exists>go r' w'. ae_entries req r w = Some (go, r', w') \<and>
    (if go then ae_prefix req r (unat (ae_log_len req)) r'
     else (\<exists>n < unat (ae_log_len req). \<exists>q. ae_prefix req r n q \<and> ae_refused req n q r'))"
proof -
  let ?N = "unat (ae_log_len req)"
  have "\<exists>go t. ae_entries req r w = Some (go, t) \<and>
    (if go then ae_prefix req r ?N (fst t)
     else (\<exists>j \<ge> 0. j < ?N \<and> (\<exists>q. ae_prefix req r j q \<and> ae_refused req j q (fst t))))"
    unfolding ae_entries_def
  proof (rule for_ret_rule)
    show "ae_prefix req r 0 (fst (r, w))"
      using assms by (simp add: ae_prefix_def ae_indexed_def)
    fix j and t :: "raft_node \<times> world"
    assume j: "j < ?N" and t: "ae_prefix req r j (fst t)"
    have q: "raft_wf (fst t)" "state (fst t) \<noteq> LEADER" "relogged r (fst t)"
      "unat (ae_prevLogIndex req) + j \<le> unat (r_len (fst t))"
      using t assms(2) by (auto simp: ae_prefix_def relogged_fields)
    have "j < length (ae_log req)" using j assms(3) by (simp add: ae_len_ok_def)
    from ae_entry_spec [OF q(1,2) this q(4), of "snd t"]
    show "\<exists>go t'. ae_entry req j t = Some (go, t') \<and>
      (if go then ae_prefix req r (Suc j) (fst t')
       else (\<exists>q. ae_prefix req r j q \<and> ae_refused req j q (fst t')))"
      using t by (fastforce simp: ae_prefix_def merged_Suc ae_indexed_def less_Suc_eq
          intro: relogged_trans split: if_splits)
  qed simp
  then show ?thesis by (metis prod.collapse)
qed

lemma ae_refused_entries:
  assumes "ae_prefix req r n q" and "ae_refused req n q r'" and "state r \<noteq> LEADER"
  shows "raft_wf r'" "evolves r r'" "mu r' = mu r" "vstate r' = vstate r"
    "state r' = state r \<or> state r' = FAILED" "r_term r' = r_term r \<and> cstate r' = cstate r \<and> r_voted r' = r_voted r"
    "entries r' = merged req n (entries r) \<or>
     entries r' = take (unat (ae_prevLogIndex req) + n) (merged req n (entries r)) \<and>
     conflict_at req n (merged req n (entries r)) \<and> state r' = FAILED"
proof -
  let ?p = "ae_prevLogIndex req + of_nat n"
  have q: "relogged r q" "raft_wf q" "unat (ae_prevLogIndex req) + n \<le> unat (r_len q)"
    "entries q = merged req n (entries r)" using assms(1) by (simp_all add: ae_prefix_def)
  note f = relogged_fields [OF q(1)]
  have p: "unat ?p = unat (ae_prevLogIndex req) + n"
    using q(3) wf_bounds(2) [OF q(2)] by (simp add: unat_add_64)
  have t: "raft_wf (set_len ?p q)" "entries (set_len ?p q) = take (unat ?p) (entries q)"
    using q p f(1) assms(3) entries_truncate [of ?p q] by (auto intro: wf_truncate)
  consider "r' = q" | "r' = q\<lparr>state := FAILED\<rparr>"
    | "r' = (set_len ?p q)\<lparr>state := FAILED\<rparr>" "conflict_at req n (entries q)"
    using assms(2) by (auto simp: ae_refused_def)
  then have "raft_wf r' \<and> evolves r r' \<and> mu r' = mu r \<and> vstate r' = vstate r \<and>
    (state r' = state r \<or> state r' = FAILED) \<and>
    (r_term r' = r_term r \<and> cstate r' = cstate r \<and> r_voted r' = r_voted r) \<and>
    (entries r' = merged req n (entries r) \<or>
     entries r' = take (unat (ae_prevLogIndex req) + n) (merged req n (entries r)) \<and>
     conflict_at req n (merged req n (entries r)) \<and> state r' = FAILED)"
    using q t f p
    by cases (auto simp: entries_def evolves_def same_config_def vote_stable_def intro: wf_demote)
  then show "raft_wf r'" "evolves r r'" "mu r' = mu r" "vstate r' = vstate r"
    "state r' = state r \<or> state r' = FAILED" "r_term r' = r_term r \<and> cstate r' = cstate r \<and> r_voted r' = r_voted r"
    "entries r' = merged req n (entries r) \<or>
     entries r' = take (unat (ae_prevLogIndex req) + n) (merged req n (entries r)) \<and>
     conflict_at req n (merged req n (entries r)) \<and> state r' = FAILED"
    by blast+
qed

lemma ae_learn_commit_fields [simp]:
  "state (ae_learn_commit r req) = state r" "pstate (ae_learn_commit r req) = pstate r"
  "cstate (ae_learn_commit r req) = cstate r" "lstate (ae_learn_commit r req) = lstate r"
  "node_id (ae_learn_commit r req) = node_id r" "peers (ae_learn_commit r req) = peers r"
  "peer_count (ae_learn_commit r req) = peer_count r" "log_file (ae_learn_commit r req) = log_file r"
  "mu (ae_learn_commit r req) = mu r" "r_applied (ae_learn_commit r req) = r_applied r"
  "r_commit (ae_learn_commit r req) =
     (if r_commit r < ae_leaderCommit req then min (ae_leaderCommit req) (r_len r) else r_commit r)"
  by (auto simp: ae_learn_commit_def raft_last_log_index_def Let_def min_def)

lemma ae_learn_commit_wf: "raft_wf r \<Longrightarrow> raft_wf (ae_learn_commit r req)"
  by (auto simp: ae_learn_commit_def Let_def raft_last_log_index_def raft_wf_defs word_less_nat_alt)

text \<open>A follower's log agrees with the entry before those of the request.\<close>

definition prev_ok :: "AppendEntriesRequest \<Rightarrow> LogEntry list \<Rightarrow> bool" where
  "prev_ok req l =
     (let p = unat (ae_prevLogIndex req)
      in p \<le> length l \<and> (0 < p \<longrightarrow> le_term (l ! (p - 1)) = ae_prevLogTerm req))"

lemma ae_prev_matches_spec:
  assumes "raft_wf r"
  shows "(if r_len r < ae_prevLogIndex req then Some False else ae_prev_matches r req) =
    Some (prev_ok req (entries r))"
proof (cases "ae_prevLogIndex req = 0 \<or> r_len r < ae_prevLogIndex req")
  case True
  then show ?thesis
    using entries_length [OF assms] by (auto simp: prev_ok_def ae_prev_matches_def word_less_nat_alt)
next
  case False
  then have p: "0 < ae_prevLogIndex req" "unat (ae_prevLogIndex req) \<le> unat (r_len r)"
    by (simp_all add: word_neq_0_conv word_le_nat_alt not_less)
  then have "unat (ae_prevLogIndex req - 1) = unat (ae_prevLogIndex req) - 1" "0 < unat (ae_prevLogIndex req)"
    by (simp_all add: unat_pred_64 unat_gt_0 word_neq_0_conv)
  then show ?thesis
    using False p entries_length [OF assms] wf_lengths(2) [OF assms] wf_bounds(2) [OF assms]
    by (auto simp: prev_ok_def ae_prev_matches_def entries_nth Let_def)
qed

text \<open>The follower's part of the handler, after the term checks.\<close>

definition ae_follow :: "raft_node \<Rightarrow> AppendEntriesRequest \<Rightarrow> raft_node" where
  "ae_follow r req =
     (if state r \<noteq> FAILED then r\<lparr>state := FOLLOWER\<rparr> else r)\<lparr>leader_id := ae_leaderId req\<rparr>"

lemma ae_follow_fields [simp]:
  "state (ae_follow r req) = (if state r = FAILED then FAILED else FOLLOWER)"
  "pstate (ae_follow r req) = pstate r" "vstate (ae_follow r req) = vstate r"
  "node_id (ae_follow r req) = node_id r" "peers (ae_follow r req) = peers r"
  "peer_count (ae_follow r req) = peer_count r" "log_file (ae_follow r req) = log_file r"
  "mu (ae_follow r req) = mu r" "cstate (ae_follow r req) = cstate r"
  by (simp_all add: ae_follow_def)

lemma ae_follow_wf: "raft_wf r \<Longrightarrow> raft_wf (ae_follow r req)"
  by (simp add: ae_follow_def wf_demote)

lemma evolves_follow: "evolves r (ae_follow r req)" "no_promotion r (ae_follow r req)"
  by (auto intro!: evolves_same simp: same_config_def no_promotion_def)

lemma retimed_now: "retimed r q \<Longrightarrow> retimed (r\<lparr>latest_heartbeat_ms := t\<rparr>) q"
  unfolding retimed_def by auto

definition ae_tail ::
  "raft_node \<Rightarrow> AppendEntriesRequest \<Rightarrow> AppendEntriesResponse \<Rightarrow> world
    \<Rightarrow> (AppendEntriesResponse \<times> raft_node \<times> world) option" where
  "ae_tail r req resp w = do {
     ok \<leftarrow> (if r_len r < ae_prevLogIndex req then Some False else ae_prev_matches r req);
     if \<not> ok then Some (resp, mutex_unlock r, w)
     else do {
       (completed, r, w) \<leftarrow> ae_entries req r w;
       if \<not> completed then Some (resp, mutex_unlock r, w)
       else Some (resp\<lparr>aer_success := True, aer_matchIndex := ae_prevLogIndex req + ae_log_len req\<rparr>,
                  mutex_unlock (ae_learn_commit r req), w)
     }
   }"

lemma HandleAppendEntriesRequest_body_unfold:
  assumes "\<not> mu r" and "\<not> ae_term req < r_term r"
    and "adopt_term (r\<lparr>mu := True\<rparr>) (ae_term req) w = (rc, r1, w1)"
  shows "\<exists>r2 w2. retimed (ae_follow r1 req) r2 \<and> (\<exists>c n. w2 = w1\<lparr>clock_s := c, rand_s := n\<rparr>) \<and>
    HandleAppendEntriesRequest_body r req w =
      (if rc < 0 then Some (\<lparr>aer_term = r_term r, aer_success = False, aer_matchIndex = 0\<rparr>, mutex_unlock r1, w1)
       else ae_tail r2 req \<lparr>aer_term = r_term r1, aer_success = False, aer_matchIndex = 0\<rparr> w2)"
proof -
  obtain now wa where now: "raft_now_msec w1 = (now, wa)" by fastforce
  obtain r2 w2 where r2: "raft_reset_election_timer ((ae_follow r1 req)\<lparr>latest_heartbeat_ms := now\<rparr>) wa = (r2, w2)"
    by fastforce
  have t: "retimed (ae_follow r1 req) r2"
    using reset_timer_shape [OF r2] unfolding retimed_def by auto
  have w: "\<exists>c n. w2 = w1\<lparr>clock_s := c, rand_s := n\<rparr>"
    using reset_timer_shape [OF r2] now_shape [OF now] by (cases w1) auto
  have "HandleAppendEntriesRequest_body r req w =
      (if rc < 0 then Some (\<lparr>aer_term = r_term r, aer_success = False, aer_matchIndex = 0\<rparr>, mutex_unlock r1, w1)
       else ae_tail r2 req \<lparr>aer_term = r_term r1, aer_success = False, aer_matchIndex = 0\<rparr> w2)"
    using assms now r2 unfolding ae_follow_def
    by (simp add: HandleAppendEntriesRequest_body_def adopt_term_def ae_tail_def Let_def cong: if_cong)
  then show ?thesis using t w by blast
qed

text \<open>What the handler promises, in terms of the entries before and after.\<close>

definition ae_accepted :: "AppendEntriesRequest \<Rightarrow> raft_node \<Rightarrow> AppendEntriesResponse \<Rightarrow> raft_node \<Rightarrow> bool" where
  "ae_accepted req r resp r' =
     (prev_ok req (entries r) \<and> ae_indexed req (unat (ae_log_len req)) \<and>
      unat (ae_prevLogIndex req) + unat (ae_log_len req) \<le> unat (r_len r') \<and>
      aer_matchIndex resp = ae_prevLogIndex req + ae_log_len req \<and>
      entries r' = merged req (unat (ae_log_len req)) (entries r) \<and>
      r_commit r' = (if r_commit r < ae_leaderCommit req then min (ae_leaderCommit req) (r_len r')
                     else r_commit r) \<and>
      r_applied r' = r_applied r)"

definition ae_rejected :: "AppendEntriesRequest \<Rightarrow> raft_node \<Rightarrow> raft_node \<Rightarrow> bool" where
  "ae_rejected req r r' =
     (vstate r' = vstate r \<and>
      (entries r' = entries r \<or>
       prev_ok req (entries r) \<and>
       (\<exists>n < unat (ae_log_len req). ae_indexed req n \<and>
          (entries r' = merged req n (entries r) \<or>
           entries r' = take (unat (ae_prevLogIndex req) + n) (merged req n (entries r)) \<and>
           conflict_at req n (merged req n (entries r)) \<and> state r' = FAILED))))"

lemma ae_tail_spec:
  assumes wf: "raft_wf r" and st: "state r \<noteq> LEADER" and ok: "ae_len_ok req"
    and resp: "\<not> aer_success resp"
  shows "\<exists>resp' r' w'. ae_tail r req resp w = Some (resp', r', w') \<and> raft_idle r' \<and> evolves r r' \<and>
    (state r' = state r \<or> state r' = FAILED) \<and> r_term r' = r_term r \<and> cstate r' = cstate r \<and>
    r_voted r' = r_voted r \<and> aer_term resp' = aer_term resp \<and>
    (if aer_success resp' then ae_accepted req r resp' r' else ae_rejected req r r')"
proof (cases "prev_ok req (entries r)")
  case False
  then have "ae_tail r req resp w = Some (resp, mutex_unlock r, w)"
    by (simp add: ae_tail_def ae_prev_matches_spec [OF wf])
  then show ?thesis
    using wf resp by (simp add: raft_idle_def ae_rejected_def entries_def)
next
  case True
  then have prev: "unat (ae_prevLogIndex req) \<le> unat (r_len r)"
    using entries_length [OF wf] by (simp add: prev_ok_def Let_def)
  obtain go r1 w1 where e: "ae_entries req r w = Some (go, r1, w1)"
    "if go then ae_prefix req r (unat (ae_log_len req)) r1
     else (\<exists>n < unat (ae_log_len req). \<exists>q. ae_prefix req r n q \<and> ae_refused req n q r1)"
    using ae_entries_spec [OF wf st ok prev, of w] by blast
  have body: "ae_tail r req resp w =
    (if \<not> go then Some (resp, mutex_unlock r1, w1)
     else Some (resp\<lparr>aer_success := True, aer_matchIndex := ae_prevLogIndex req + ae_log_len req\<rparr>,
                mutex_unlock (ae_learn_commit r1 req), w1))"
    using True e(1) by (simp add: ae_tail_def ae_prev_matches_spec [OF wf])
  show ?thesis
  proof (cases go)
    case go: True
    then have q: "ae_prefix req r (unat (ae_log_len req)) r1" using e(2) by simp
    then have r1: "relogged r r1" "raft_wf r1" by (simp_all add: ae_prefix_def)
    note f = relogged_fields [OF r1(1)]
    let ?r' = "mutex_unlock (ae_learn_commit r1 req)"
    have "evolves r ?r'" using f by (intro evolves_same) (simp_all add: same_config_def)
    moreover have "raft_idle ?r'" using ae_learn_commit_wf [OF r1(2)] by (simp add: raft_idle_def)
    moreover have "entries ?r' = entries r1" by (rule entries_cong) simp_all
    ultimately show ?thesis
      using go body True q f by (simp add: ae_accepted_def ae_prefix_def)
  next
    case False
    then obtain n q where n: "n < unat (ae_log_len req)" and q: "ae_prefix req r n q" "ae_refused req n q r1"
      using e(2) by auto
    note f = ae_refused_entries [OF q st]
    have "entries (mutex_unlock r1) = entries r1" by (rule entries_cong) simp_all
    moreover have "ae_indexed req n" using q(1) by (simp add: ae_prefix_def)
    ultimately have "ae_rejected req r (mutex_unlock r1)"
      using f(4,7) n True by (auto simp: ae_rejected_def)
    then show ?thesis using False body f resp by (simp add: raft_idle_def)
  qed
qed

lemma adopt_term_failed:
  assumes "adopt_term r t w = (rc, r', w')" and "rc < 0"
  shows "state r' = FAILED"
  using assms update_term_locked_new(8) [of r t w rc r' w'] by (auto simp: adopt_term_def split: if_splits)

lemma HandleAppendEntriesRequest_body_cases:
  assumes "raft_idle r" and "ae_len_ok req"
  shows "\<exists>resp r' w'. HandleAppendEntriesRequest_body r req w = Some (resp, r', w') \<and>
    raft_idle r' \<and> evolves r r' \<and> no_promotion r r' \<and> vote_kept r r' \<and> r_term r' = max (r_term r) (ae_term req) \<and>
    (state r' = LEADER \<longrightarrow> r' = r) \<and> (ae_term req < r_term r \<longrightarrow> r' = r) \<and> r_term r \<le> aer_term resp \<and> aer_term resp \<le> r_term r' \<and>
    (if aer_success resp
     then r_term r \<le> ae_term req \<and> aer_term resp = ae_term req \<and> ae_accepted req r resp r'
     else ae_rejected req r r')"
proof -
  have wf: "raft_wf r" and free: "\<not> mu r" using assms by (simp_all add: raft_idle_def)
  show ?thesis
  proof (cases "ae_term req < r_term r")
    case True
    then have "HandleAppendEntriesRequest_body r req w =
        Some (\<lparr>aer_term = r_term r, aer_success = False, aer_matchIndex = 0\<rparr>, r, w)"
      using free by (simp add: HandleAppendEntriesRequest_body_def unlock_lock)
    then show ?thesis using True assms(1) by (auto simp: ae_rejected_def max_def)
  next
    case False
    obtain rc r1 w1 where a: "adopt_term (r\<lparr>mu := True\<rparr>) (ae_term req) w = (rc, r1, w1)"
      by (metis prod_cases3)
    note f = adopt_term_facts [OF a, simplified, OF wf]
    have en: "entries r1 = entries r" using f(6,7) by (rule entries_cong)
    have tm: "r_term r1 = ae_term req" using f(5) False by (auto simp: max_def)
    let ?resp = "\<lparr>aer_term = r_term r1, aer_success = False, aer_matchIndex = 0\<rparr>"
    obtain r2 w2 where r2: "retimed (ae_follow r1 req) r2"
      and body: "HandleAppendEntriesRequest_body r req w =
        (if rc < 0 then Some (\<lparr>aer_term = r_term r, aer_success = False, aer_matchIndex = 0\<rparr>, mutex_unlock r1, w1)
         else ae_tail r2 req ?resp w2)"
      using HandleAppendEntriesRequest_body_unfold [OF free False a] by blast
    note g = retimed_fields [OF r2]
    have wf2: "raft_wf r2" using ae_follow_wf [OF f(1)] retimed_wf [OF r2] by simp
    have st2: "state r2 \<noteq> LEADER" "state r2 \<noteq> CANDIDATE" using g(1) by (auto split: if_splits)
    have ev2: "evolves r r2"
      using f(2) evolves_follow(1) evolves_trans retimed_evolves [OF r2] by blast
    show ?thesis
    proof (cases "rc < 0")
      case True
      then have "HandleAppendEntriesRequest_body r req w =
        Some (\<lparr>aer_term = r_term r, aer_success = False, aer_matchIndex = 0\<rparr>, mutex_unlock r1, w1)"
        using body by simp
      moreover have "entries (mutex_unlock r1) = entries r" using en by (simp add: entries_def)
      moreover have lead: "state r1 \<noteq> LEADER"
        using True a adopt_term_failed [OF a] by simp
      ultimately show ?thesis
        using f tm False lead by (simp add: raft_idle_def ae_rejected_def vote_kept_def)
    next
      case ok: False
      obtain resp' r' w' where t: "ae_tail r2 req ?resp w2 = Some (resp', r', w')" "raft_idle r'" "evolves r2 r'"
        "state r' = state r2 \<or> state r' = FAILED" "r_term r' = r_term r2 \<and> cstate r' = cstate r2 \<and> r_voted r' = r_voted r2" "aer_term resp' = r_term r1"
        "if aer_success resp' then ae_accepted req r2 resp' r' else ae_rejected req r2 r'"
        using ae_tail_spec [OF wf2 st2(1) assms(2), of ?resp w2] by auto
      have en2: "entries r2 = entries r" using g(2) en by (simp add: entries_def)
      have vs2: "vstate r2 = vstate r" using g(3) f(8) by simp
      have "evolves r r'" using ev2 t(3) by (rule evolves_trans)
      moreover have "cstate r' = cstate r \<or> cstate r' = zero_cstate"
        using t(5) g(4) f(3) by (auto simp: no_promotion_def ae_follow_def)
      then have "no_promotion r r' \<and> state r' \<noteq> LEADER" using t(4) st2 by (auto simp: no_promotion_def)
      moreover have "r_term r' = ae_term req" using t(5) g(2) tm by simp
      moreover have "vote_kept r r'" using t(5) g(2) f(11) by (simp add: vote_kept_def)
      ultimately show ?thesis
        using body ok t(1,2,6,7) tm False en2 vs2
        by (auto simp: ae_accepted_def ae_rejected_def max_def)
    qed
  qed
qed

end
