(* ===== verification/Raft_Leader.thy ===== *)
theory Raft_Leader
  imports Raft_Contract
begin

text \<open>
  The leader's side of the contract: advancing the commit index, handling the followers'
  answers, building \<open>AppendEntries\<close> requests, accepting client commands, and the handing out
  of committed entries, which every role does.
\<close>

section \<open>Advancing the commit index\<close>

definition replicated_on :: "raft_node \<Rightarrow> nat \<Rightarrow> nat set" where
  "replicated_on r n = {i. i < unat (peer_count r) \<and> of_nat n \<le> match_index (lstate r) ! i}"

text \<open>The rule of the algorithm: an entry of the current term that a majority holds.\<close>

definition committable :: "raft_node \<Rightarrow> nat \<Rightarrow> bool" where
  "committable r n =
     (unat (r_commit r) < n \<and> n \<le> length (entries r) \<and>
      le_term (entries r ! (n - 1)) = r_term r \<and>
      Suc (unat (peer_count r)) div 2 \<le> card (replicated_on r n))"

definition best_commit :: "raft_node \<Rightarrow> nat \<Rightarrow> nat \<Rightarrow> bool" where
  "best_commit r m c =
     ((c = unat (r_commit r) \<and> (\<forall>n \<le> m. \<not> committable r n)) \<or>
      (c \<le> m \<and> committable r c \<and> (\<forall>n \<le> m. committable r n \<longrightarrow> n \<le> c)))"

lemma replicated_on_le: "card (replicated_on r n) \<le> unat (peer_count r)"
  by (simp add: replicated_on_def card_below)

lemma count_matches_replicated: "raft_wf r \<Longrightarrow> count_matches r (of_nat n) = Some (Suc (card (replicated_on r n)))"
  by (simp add: count_matches_spec card_filter_upt replicated_on_def)

lemma advance_from_step:
  assumes wf: "raft_wf r" and m: "Suc m \<le> unat (r_len r)"
  shows "advance_from r (Suc m) =
    (if unat (r_commit r) < Suc m
     then if committable r (Suc m) then Some (set_commit (of_nat (Suc m)) r) else advance_from r m
     else Some r)"
proof -
  have len: "length (r_log r) = 1024" "length (entries r) = unat (r_len r)" "unat (peer_count r) \<le> 8"
    using wf_lengths(2) [OF wf] entries_length [OF wf] wf_bounds(1) [OF wf] by simp_all
  have m1024: "m < 1024" using m wf_bounds(2) [OF wf] by simp
  have mr: "majority (peer_count r + 1) \<le> of_nat (Suc (card (replicated_on r (Suc m)))) \<longleftrightarrow>
      Suc (unat (peer_count r)) div 2 \<le> card (replicated_on r (Suc m))"
    by (rule majority_reached) (use len(3) replicated_on_le [of r "Suc m"] in linarith)+
  show ?thesis
    using m len m1024 mr
    by (simp add: committable_def count_matches_replicated [OF wf] entries_nth
        del: of_nat_Suc cong: if_cong)
qed

lemma advance_from_spec:
  assumes wf: "raft_wf r" and "m \<le> unat (r_len r)"
  shows "\<exists>c. advance_from r m = Some (set_commit c r) \<and> best_commit r m (unat c)"
  using assms(2)
proof (induction m)
  case 0
  have "advance_from r 0 = Some (set_commit (r_commit r) r)" by simp
  moreover have "best_commit r 0 (unat (r_commit r))" by (simp add: best_commit_def committable_def)
  ultimately show ?case by blast
next
  case (Suc m)
  have below: "\<not> committable r n" if "n \<le> Suc m" "\<not> unat (r_commit r) < Suc m" for n
    using that by (auto simp: committable_def)
  have idx: "unat (of_nat (Suc m) :: u64) = Suc m"
    using Suc.prems wf_bounds(2) [OF wf] by (intro unat_of_nat_64) simp
  consider "\<not> unat (r_commit r) < Suc m" | "unat (r_commit r) < Suc m" "committable r (Suc m)"
    | "unat (r_commit r) < Suc m" "\<not> committable r (Suc m)" by blast
  then show ?case
  proof cases
    case 1
    then have "advance_from r (Suc m) = Some (set_commit (r_commit r) r)"
      using advance_from_step [OF wf Suc.prems] by (simp del: advance_from.simps of_nat_Suc)
    then show ?thesis using below 1 unfolding best_commit_def by blast
  next
    case 2
    then have "advance_from r (Suc m) = Some (set_commit (of_nat (Suc m)) r)"
      using advance_from_step [OF wf Suc.prems] by (simp del: advance_from.simps of_nat_Suc)
    moreover have "best_commit r (Suc m) (unat (of_nat (Suc m) :: u64))"
      using 2 by (simp only: idx best_commit_def) auto
    ultimately show ?thesis by blast
  next
    case 3
    with Suc obtain c where "advance_from r m = Some (set_commit c r)" "best_commit r m (unat c)"
      by auto
    moreover have "best_commit r (Suc m) (unat c)" if "best_commit r m (unat c)"
      using that 3(2) by (auto simp: best_commit_def le_Suc_eq)
    ultimately show ?thesis using 3 advance_from_step [OF wf Suc.prems] by (auto simp del: advance_from.simps)
  qed
qed

lemma AdvanceCommitIndex_locked_spec:
  assumes wf: "raft_wf r" and "state r = LEADER"
  shows "\<exists>c. AdvanceCommitIndex_locked r = Some (set_commit c r) \<and>
    best_commit r (unat (r_len r)) (unat c) \<and> r_commit r \<le> c \<and> unat c \<le> 1024"
proof -
  obtain c where c: "advance_from r (unat (r_len r)) = Some (set_commit c r)"
    "best_commit r (unat (r_len r)) (unat c)"
    using advance_from_spec [OF wf order_refl] by blast
  moreover have "r_commit r \<le> c" "unat c \<le> 1024"
    using c(2) wf_bounds [OF wf] by (auto simp: best_commit_def committable_def word_le_nat_alt)
  ultimately show ?thesis
    using assms(2) by (auto simp: AdvanceCommitIndex_locked_def raft_last_log_index_def)
qed

section \<open>Answers from followers\<close>

definition acknowledge :: "raft_node \<Rightarrow> nat \<Rightarrow> raft_index_t \<Rightarrow> raft_node" where
  "acknowledge r i m =
     (if next_index (lstate r) ! i < m
      then r\<lparr>lstate := \<lparr>next_index = (next_index (lstate r))[i := m + 1],
                        match_index = (match_index (lstate r))[i := m]\<rparr>\<rparr>
      else r)"

definition back_off :: "raft_node \<Rightarrow> nat \<Rightarrow> raft_node" where
  "back_off r i =
     (if next_index (lstate r) ! i > 1
      then r\<lparr>lstate := (lstate r)\<lparr>next_index := (next_index (lstate r))[i := next_index (lstate r) ! i - 1]\<rparr>\<rparr>
      else r)"

lemma acknowledge_fields [simp]:
  "state (acknowledge r i m) = state r" "pstate (acknowledge r i m) = pstate r"
  "vstate (acknowledge r i m) = vstate r" "cstate (acknowledge r i m) = cstate r"
  "node_id (acknowledge r i m) = node_id r" "peers (acknowledge r i m) = peers r"
  "peer_count (acknowledge r i m) = peer_count r" "log_file (acknowledge r i m) = log_file r"
  "mu (acknowledge r i m) = mu r"
  by (simp_all add: acknowledge_def)

lemma back_off_fields [simp]:
  "state (back_off r i) = state r" "pstate (back_off r i) = pstate r"
  "vstate (back_off r i) = vstate r" "cstate (back_off r i) = cstate r"
  "node_id (back_off r i) = node_id r" "peers (back_off r i) = peers r"
  "peer_count (back_off r i) = peer_count r" "log_file (back_off r i) = log_file r"
  "mu (back_off r i) = mu r"
  by (simp_all add: back_off_def)

lemma wf_next_update:
  assumes "raft_wf r" and "0 < v" and "unat v \<le> Suc (unat (r_len r))" and "length mt = 8"
  shows "raft_wf (r\<lparr>lstate := \<lparr>next_index = (next_index (lstate r))[i := v], match_index = mt\<rparr>\<rparr>)"
  using assms by (auto simp: raft_wf_defs raft_caps nth_update_at)

lemma acknowledge_wf:
  assumes "raft_wf r" and "unat m \<le> unat (r_len r)"
  shows "raft_wf (acknowledge r i m)"
proof -
  have "unat (m + 1) = Suc (unat m)" using assms wf_bounds(2) [OF assms(1)] by (simp add: unat_Suc_64)
  then have "0 < m + 1" "unat (m + 1) \<le> Suc (unat (r_len r))"
    using assms(2) by (simp_all add: word_less_nat_alt)
  then show ?thesis
    using assms wf_lengths(6) [OF assms(1)] by (auto simp: acknowledge_def intro: wf_next_update)
qed

lemma back_off_wf:
  assumes "raft_wf r" and "i < unat (peer_count r)" and "state r = LEADER"
  shows "raft_wf (back_off r i)"
proof (cases "next_index (lstate r) ! i > 1")
  case True
  let ?n = "next_index (lstate r) ! i"
  have "unat (?n - 1) = unat ?n - 1" "1 < unat ?n"
    using True by (auto simp: unat_pred_64 word_less_nat_alt)
  then have "0 < ?n - 1" "unat (?n - 1) \<le> unat ?n" by (simp_all add: word_less_nat_alt)
  moreover have "back_off r i =
      r\<lparr>lstate := \<lparr>next_index = (next_index (lstate r))[i := ?n - 1], match_index = match_index (lstate r)\<rparr>\<rparr>"
    using True by (simp add: back_off_def)
  ultimately show ?thesis
    using assms wf_lengths(6) [OF assms(1)] wf_next_index(2) [OF assms(1,3,2)]
    by (simp add: wf_next_update)
qed (simp add: back_off_def assms)

lemma wf_set_commit: "raft_wf r \<Longrightarrow> unat c \<le> 1024 \<Longrightarrow> raft_wf (set_commit c r)"
  by (simp add: raft_wf_defs raft_caps)

text \<open>An acknowledgement the leader counts names entries the leader has.\<close>

definition ack_ok :: "AppendEntriesResponse \<Rightarrow> raft_node \<Rightarrow> bool" where
  "ack_ok resp r =
     (aer_success resp \<and> state r = LEADER \<and> aer_term resp = r_term r \<longrightarrow>
      unat (aer_matchIndex resp) \<le> unat (r_len r))"

lemma HandleAppendEntriesResponse_cases:
  assumes "raft_idle r" and ok: "ack_ok resp r"
  shows "\<exists>r' w'. HandleAppendEntriesResponse r resp peer w = Some (r', w') \<and>
    raft_idle r' \<and> evolves r r' \<and> no_promotion r r' \<and> vote_kept r r' \<and> r_log r' = r_log r \<and> r_len r' = r_len r \<and>
    (r' = r \<and> (state r \<noteq> LEADER \<or> aer_term resp < r_term r \<or> peer \<notin> set (peer_ids r)) \<or>
     state r = LEADER \<and> r_term r < aer_term resp \<and> r_term r' = aer_term resp \<and> vstate r' = vstate r \<or>
     state r = LEADER \<and> r_term r = aer_term resp \<and>
       (\<exists>i < unat (peer_count r). peer_ids r ! i = peer \<and>
         (if aer_success resp
          then (let q = acknowledge r i (aer_matchIndex resp) in
                 \<exists>c. r' = set_commit c q \<and> best_commit q (unat (r_len q)) (unat c) \<and> r_commit r \<le> c)
          else r' = back_off r i)))"
proof -
  have wf: "raft_wf r" and free: "\<not> mu r" using assms(1) by (simp_all add: raft_idle_def)
  let ?l = "r\<lparr>mu := True\<rparr>"
  have wfl: "raft_wf ?l" using wf by simp
  consider "state r \<noteq> LEADER \<or> r_term r > aer_term resp"
    | "state r = LEADER" "r_term r < aer_term resp"
    | "state r = LEADER" "r_term r = aer_term resp" by (metis less_linear)
  then show ?thesis
  proof cases
    case 1
    then have "HandleAppendEntriesResponse r resp peer w = Some (r, w)"
      by (auto simp: HandleAppendEntriesResponse_def)
    then show ?thesis using assms(1) 1 by auto
  next
    case 2
    obtain rc r1 w1 where u: "update_term_locked ?l (aer_term resp) w = (rc, r1, w1)"
      by (metis prod_cases3)
    have "HandleAppendEntriesResponse r resp peer w = Some (mutex_unlock r1, w1)"
      using 2 free u by (simp add: HandleAppendEntriesResponse_def)
    then show ?thesis
      using 2 update_term_locked_evolves(1) [OF u] update_term_locked_new(1,3,4,5) [OF u]
        update_term_locked_wf [OF u wfl] update_term_locked_no_promotion [OF u] update_term_locked_kept [OF u]
      by (simp add: raft_idle_def vote_kept_def)
  next
    case 3
    obtain i where i: "find_peer_idx ?l peer = Some i"
      "if i = SIZE_MAX then peer \<notin> set (peer_ids ?l)
       else unat i < unat (peer_count ?l) \<and> peer_ids ?l ! unat i = peer"
      using find_peer_idx_spec [OF wfl] by blast
    have ids: "peer_ids ?l = peer_ids r" by (simp add: peer_ids_def)
    have len: "unat (peer_count r) \<le> 8" "length (next_index (lstate r)) = 8"
      "length (match_index (lstate r)) = 8" using wf_bounds [OF wf] wf_lengths [OF wf] by auto
    consider "i = SIZE_MAX" | "i \<noteq> SIZE_MAX" "\<not> aer_success resp" | "i \<noteq> SIZE_MAX" "aer_success resp" by blast
    then show ?thesis
    proof cases
      case 4: 1
      then have "HandleAppendEntriesResponse r resp peer w = Some (r, w)"
        using 3 free i(1) by (simp add: HandleAppendEntriesResponse_def unlock_lock)
      moreover have "peer \<notin> set (peer_ids r)" using 4 i(2) ids by simp
      ultimately show ?thesis using assms(1) by simp
    next
      case 5: 2
      then have ii: "unat i < unat (peer_count r)" "peer_ids r ! unat i = peer"
        using i(2) ids by simp_all
      have "HandleAppendEntriesResponse r resp peer w = Some (mutex_unlock (back_off ?l (unat i)), w)"
        using 3 5 free i(1) ii len by (simp add: HandleAppendEntriesResponse_def back_off_def)
      also have "mutex_unlock (back_off ?l (unat i)) = back_off r (unat i)"
        using free by (cases r) (simp add: back_off_def mutex_unlock_def)
      finally show ?thesis
        using 3 5 ii back_off_wf [OF wf ii(1) 3(1)] free
        by (auto simp: raft_idle_def no_promotion_def intro!: evolves_same simp: same_config_def)
    next
      case 6: 3
      then have ii: "unat i < unat (peer_count r)" "peer_ids r ! unat i = peer"
        using i(2) ids by simp_all
      let ?m = "aer_matchIndex resp"
      let ?q = "acknowledge r (unat i) ?m" and ?ql = "acknowledge ?l (unat i) ?m"
      have wfq: "raft_wf ?ql" "raft_wf ?q" using wf wfl ok 3 6 by (simp_all add: acknowledge_wf ack_ok_def)
      obtain c where c: "AdvanceCommitIndex_locked ?ql = Some (set_commit c ?ql)"
        "best_commit ?ql (unat (r_len ?ql)) (unat c)" "r_commit ?ql \<le> c" "unat c \<le> 1024"
        using AdvanceCommitIndex_locked_spec [OF wfq(1)] 3 by auto
      have "?ql = ?q\<lparr>mu := True\<rparr>" by (simp add: acknowledge_def)
      then have bc: "best_commit ?q (unat (r_len ?q)) (unat c)"
        using c(2) by (simp add: best_commit_def committable_def entries_def replicated_on_def)
      have "HandleAppendEntriesResponse r resp peer w = do {
          r \<leftarrow> AdvanceCommitIndex_locked ?ql; Some (mutex_unlock r, w) }"
        using 3 6 free i(1) ii len by (simp add: HandleAppendEntriesResponse_def acknowledge_def)
      moreover have "mutex_unlock (set_commit c ?ql) = set_commit c ?q"
        using free by (cases r) (simp add: acknowledge_def mutex_unlock_def)
      ultimately have body: "HandleAppendEntriesResponse r resp peer w = Some (set_commit c ?q, w)"
        using c(1) by simp
      have "raft_idle (set_commit c ?q)" using wf_set_commit [OF wfq(2) c(4)] free by (simp add: raft_idle_def)
      moreover have "evolves r (set_commit c ?q)" "no_promotion r (set_commit c ?q)"
        by (auto simp: no_promotion_def same_config_def intro!: evolves_same)
      ultimately show ?thesis
        using body 3 6 ii bc c(3) by (auto simp: Let_def)
    qed
  qed
qed

section \<open>Requests to followers\<close>

text \<open>What the leader sends to peer \<open>i\<close>: the entry before \<open>next_index\<close> and a batch from there.\<close>

definition batch_for :: "raft_node \<Rightarrow> nat \<Rightarrow> LogEntry list" where
  "batch_for r i = take RAFT_APPEND_BATCH (drop (unat (next_index (lstate r) ! i) - 1) (entries r))"

definition slice_request :: "raft_node \<Rightarrow> nat \<Rightarrow> AppendEntriesRequest" where
  "slice_request r i =
     (let nx = next_index (lstate r) ! i; es = batch_for r i in
      \<lparr>ae_term = r_term r, ae_leaderId = node_id r, ae_prevLogIndex = nx - 1,
       ae_prevLogTerm = (if nx = 1 then 0 else le_term (entries r ! (unat nx - 2))),
       ae_leaderCommit = r_commit r, ae_log_len = of_nat (length es),
       ae_log = es @ replicate (RAFT_APPEND_BATCH - length es) zero_entry\<rparr>)"

lemma copy_entries_spec:
  assumes wf: "raft_wf r" and nx: "0 < nx" and k: "k \<le> 64" "unat nx - 1 + k \<le> unat (r_len r)"
  shows "copy_entries r nx k (replicate RAFT_APPEND_BATCH zero_entry) =
    Some (take k (drop (unat nx - 1) (entries r)) @ replicate (64 - k) zero_entry)"
proof -
  let ?d = "drop (unat nx - 1) (entries r)"
  let ?P = "\<lambda>j dst. dst = take j ?d @ replicate (64 - j) zero_entry"
  have len: "length (entries r) = unat (r_len r)" "unat (r_len r) \<le> 1024" "length (r_log r) = 1024"
    using entries_length wf_bounds wf_lengths wf by auto
  have "\<exists>t. copy_entries r nx k (replicate RAFT_APPEND_BATCH zero_entry) = Some t \<and> ?P k t"
    unfolding copy_entries_def
  proof (rule for_from_rule)
    show "?P 0 (replicate RAFT_APPEND_BATCH zero_entry)" by (simp add: RAFT_APPEND_BATCH_def)
    fix j t
    assume j: "j < k" and t: "?P j t"
    have pos: "unat (nx - 1 + of_nat j) = unat nx - 1 + j"
      using nx j k len by (simp add: unat_add_64 unat_pred_64)
    have in_log: "unat nx - 1 + j < unat (r_len r)" using j k by simp
    have jd: "j < length ?d" using in_log len by simp
    have "t[j := ?d ! j] = take (Suc j) ?d @ replicate (64 - Suc j) zero_entry"
    proof -
      have "replicate (64 - j) zero_entry = zero_entry # replicate (64 - Suc j) zero_entry"
        using j k by (metis Suc_diff_Suc less_le_trans replicate_Suc)
      then show ?thesis using t jd by (simp add: list_update_append take_Suc_conv_app_nth)
    qed
    moreover have "r_log r ! (unat nx - 1 + j) = ?d ! j" using in_log len by (simp add: entries_nth)
    ultimately show "\<exists>t'. (do { e \<leftarrow> arr_get (r_log r) (unat (nx - 1 + of_nat j)); arr_set t j e }) = Some t' \<and>
        ?P (Suc j) t'"
      using pos in_log len t jd j k by simp
  qed simp
  then show ?thesis by simp
qed

lemma raft_append_entries_body_cases:
  assumes "raft_idle r"
  shows "raft_append_entries_body r idx req =
    (if state r = LEADER \<and> idx < peer_count r then Some (True, slice_request r (unat idx), r)
     else Some (False, req, r))"
proof (cases "state r = LEADER \<and> idx < peer_count r")
  case False
  then show ?thesis
    using assms by (auto simp: raft_append_entries_body_def raft_idle_def unlock_lock)
next
  case True
  have wf: "raft_wf r" and free: "\<not> mu r" using assms by (simp_all add: raft_idle_def)
  have i: "unat idx < unat (peer_count r)" using True by (simp add: word_less_nat_alt)
  let ?nx = "next_index (lstate r) ! unat idx"
  let ?p = "unat ?nx - 1"
  have nx: "0 < ?nx" "unat ?nx \<le> Suc (unat (r_len r))" using wf_next_index [OF wf _ i] True by simp_all
  have len: "length (entries r) = unat (r_len r)" "unat (r_len r) \<le> 1024" "length (r_log r) = 1024"
    "length (next_index (lstate r)) = 8" "unat (peer_count r) \<le> 8"
    using entries_length wf_bounds wf_lengths wf by auto
  have pos: "0 < unat ?nx" using nx(1) by (simp add: word_less_nat_alt)
  have prev: "unat (?nx - 1) = ?p" using nx(1) by (rule unat_pred_64)
  define k where "k = min 64 (unat (r_len r) - ?p)"
  have k: "k \<le> 64" "?p + k \<le> unat (r_len r)" using nx(2) pos by (auto simp: k_def)
  have blen: "length (batch_for r (unat idx)) = k"
    using len by (simp add: batch_for_def k_def RAFT_APPEND_BATCH_def)
  let ?pt = "if 0 < ?nx - 1 then do { e \<leftarrow> arr_get (r_log r) (unat (?nx - 1 - 1)); Some (le_term e) } else Some 0"
  have prevTerm: "?pt = Some (if ?nx = 1 then 0 else le_term (entries r ! (unat ?nx - 2)))"
  proof (cases "?nx = 1")
    case False
    then have "0 < ?nx - 1" using word_neq_0_conv by force
    moreover have "unat (?nx - 1 - 1) = unat ?nx - 2"
      using unat_pred_64 [OF \<open>0 < ?nx - 1\<close>] prev by simp
    moreover have "1 < unat ?nx" using \<open>0 < ?nx - 1\<close> prev by (simp add: word_less_nat_alt)
    ultimately show ?thesis using False nx(2) len by (simp add: entries_nth)
  qed simp
  let ?ec = "if ?nx \<le> r_len r then (if r_len r - ?nx + 1 < of_nat RAFT_APPEND_BATCH
        then r_len r - ?nx + 1 else of_nat RAFT_APPEND_BATCH) else 0 :: u64"
  have count: "?ec = of_nat k"
  proof (cases "?nx \<le> r_len r")
    case True
    then have "unat (r_len r - ?nx) = unat (r_len r) - unat ?nx" by (simp add: unat_sub)
    then have "unat (r_len r - ?nx + 1) = unat (r_len r) - ?p"
      using len(2) pos True by (simp add: unat_Suc_64 word_le_nat_alt)
    then have "r_len r - ?nx + 1 = of_nat (unat (r_len r) - ?p)"
      using len(2) by (simp add: word_unat_eq_iff)
    then show ?thesis
      using True len(2) by (auto simp: k_def RAFT_APPEND_BATCH_def word_less_nat_alt min_def)
  next
    case False
    then have "unat (r_len r) - ?p = 0" by (simp add: word_le_nat_alt)
    then show ?thesis using False by (simp add: k_def)
  qed
  have "take (min 64 (length xs)) xs = take 64 xs" for xs :: "LogEntry list" by (simp add: min_def)
  from this [of "drop ?p (entries r)"] have batch: "take k (drop ?p (entries r)) = batch_for r (unat idx)"
    using len(1) by (simp add: batch_for_def k_def RAFT_APPEND_BATCH_def)
  have same: "entries (r\<lparr>mu := True\<rparr>) = entries r" by (simp add: entries_def)
  have copy: "copy_entries (r\<lparr>mu := True\<rparr>) ?nx k (replicate RAFT_APPEND_BATCH zero_entry) =
      Some (batch_for r (unat idx) @ replicate (64 - k) zero_entry)"
    using copy_entries_spec [of "r\<lparr>mu := True\<rparr>" ?nx k] wf nx(1) k by (simp add: same batch del: One_nat_def)
  have nle: "\<not> peer_count r \<le> idx" using True by (simp add: not_le)
  have body: "raft_append_entries_body r idx req = do {
      prevLogTerm \<leftarrow> ?pt;
      es \<leftarrow> copy_entries (r\<lparr>mu := True\<rparr>) ?nx (unat ?ec) (replicate RAFT_APPEND_BATCH zero_entry);
      Some (True,
        \<lparr>ae_term = r_term r, ae_leaderId = node_id r, ae_prevLogIndex = ?nx - 1,
         ae_prevLogTerm = prevLogTerm, ae_leaderCommit = r_commit r, ae_log_len = ?ec, ae_log = es\<rparr>, r)
    }"
    unfolding raft_append_entries_body_def Let_def
    using True free i len(4,5) nle by (simp add: unlock_lock cong: if_cong)
  show ?thesis
    using True body [unfolded prevTerm count] k(1) copy blen
    by (simp add: slice_request_def Let_def RAFT_APPEND_BATCH_def)
qed

lemma heartbeat_tick_cases:
  assumes "raft_idle r"
  shows "heartbeat_tick r req =
    (if state r = LEADER
     then Some (True,
       \<lparr>ae_term = r_term r, ae_leaderId = node_id r, ae_prevLogIndex = 0, ae_prevLogTerm = 0,
        ae_leaderCommit = r_commit r, ae_log_len = 0,
        ae_log = replicate RAFT_APPEND_BATCH zero_entry\<rparr>, r)
     else Some (False, req, r))"
  using assms by (auto simp: heartbeat_tick_def raft_idle_def unlock_lock)

section \<open>Handing out committed entries\<close>

definition ready :: "raft_node \<Rightarrow> nat" where
  "ready r = unat (r_commit r) - unat (r_applied r)"

lemma apply_loop_spec:
  assumes wf: "raft_wf r" and "unat cap \<le> length out" and "cnt \<le> unat cap"
    and "n = min (ready r) (unat cap - cnt)"
  shows "apply_loop r cnt cap out =
    Some (cnt + n, take cnt out @ take n (drop (unat (r_applied r)) (r_log r)) @ drop (cnt + n) out,
      set_applied (r_applied r + of_nat n) r)"
  using assms
proof (induction n arbitrary: r cnt out)
  case 0
  then have "\<not> (r_applied r < r_commit r \<and> cnt < unat cap)"
    by (auto simp: ready_def min_def word_less_nat_alt split: if_splits)
  then show ?case by (subst apply_loop.simps) (simp only: if_False, simp)
next
  case (Suc n)
  let ?a = "unat (r_applied r)"
  have c: "?a < unat (r_commit r)" "cnt < unat cap" using Suc.prems by (auto simp: ready_def)
  then have a: "?a < 1024" "length (r_log r) = 1024" "cnt < length out"
    using Suc.prems wf_bounds(3) [OF Suc.prems(1)] wf_lengths(2) [OF Suc.prems(1)] by simp_all
  let ?r = "set_applied (r_applied r + 1) r" and ?out = "out[cnt := r_log r ! ?a]"
  have a1: "unat (r_applied r + 1) = Suc ?a" using a(1) by (simp add: unat_Suc_64)
  have "apply_loop r cnt cap out = apply_loop ?r (Suc cnt) cap ?out"
    using c a by (subst apply_loop.simps) (simp add: word_less_nat_alt)
  also have "\<dots> = Some (Suc cnt + n,
      take (Suc cnt) ?out @ take n (drop (unat (r_applied ?r)) (r_log ?r)) @ drop (Suc cnt + n) ?out,
      set_applied (r_applied ?r + of_nat n) ?r)"
  proof (rule Suc.IH)
    show "raft_wf ?r" using Suc.prems(1) by (simp add: raft_wf_defs)
    show "n = min (ready ?r) (unat cap - Suc cnt)" using Suc.prems(4) a1 by (simp add: ready_def)
  qed (use Suc.prems c in simp_all)
  also have "take (Suc cnt) ?out @ take n (drop (unat (r_applied ?r)) (r_log ?r)) @ drop (Suc cnt + n) ?out =
      take cnt out @ take (Suc n) (drop ?a (r_log r)) @ drop (cnt + Suc n) out"
  proof -
    have "drop ?a (r_log r) = r_log r ! ?a # drop (Suc ?a) (r_log r)"
      using a by (simp add: Cons_nth_drop_Suc)
    then show ?thesis using a(3) by (simp add: take_Suc_update a1)
  qed
  also have "set_applied (r_applied ?r + of_nat n) ?r = set_applied (r_applied r + of_nat (Suc n)) r"
    by (cases r) (simp add: add.assoc)
  finally show ?case by simp
qed

lemma raft_commit_entry_body_cases:
  assumes "raft_idle r" and "unat cap \<le> length out" and "n = min (ready r) (unat cap)"
  shows "raft_commit_entry_body r out cap =
    Some (of_nat n, take n (drop (unat (r_applied r)) (r_log r)) @ drop n out,
      set_applied (r_applied r + of_nat n) r)"
proof -
  have wf: "raft_wf (r\<lparr>mu := True\<rparr>)" and free: "\<not> mu r" using assms(1) by (simp_all add: raft_idle_def)
  have "mutex_unlock (set_applied x (r\<lparr>mu := True\<rparr>)) = set_applied x r" for x
    using free by (cases r) (simp add: mutex_unlock_def)
  then show ?thesis
    using apply_loop_spec [OF wf assms(2), of 0 n] assms(3) free
    by (simp add: raft_commit_entry_body_def ready_def)
qed

lemma set_applied_idle [simp]: "raft_idle (set_applied n r) = raft_idle r"
  by (simp add: raft_idle_def raft_wf_defs)

section \<open>Client commands\<close>

definition append_command :: "raft_node \<Rightarrow> client_command \<Rightarrow> raft_node" where
  "append_command r c =
     (let e = \<lparr>le_index = r_len r + 1, le_term = r_term r, le_command = c\<rparr>;
          q = set_len (r_len r + 1) (set_log ((r_log r)[unat (r_len r) := e]) r)
      in if peer_count r = 0 then set_commit (r_len r + 1) q else q)"

lemma append_command_fields:
  "state (append_command r c) = state r" "r_term (append_command r c) = r_term r"
  "r_voted (append_command r c) = r_voted r" "cstate (append_command r c) = cstate r"
  "lstate (append_command r c) = lstate r" "node_id (append_command r c) = node_id r"
  "peers (append_command r c) = peers r" "peer_count (append_command r c) = peer_count r"
  "log_file (append_command r c) = log_file r" "mu (append_command r c) = mu r"
  "r_applied (append_command r c) = r_applied r"
  "r_commit (append_command r c) = (if peer_count r = 0 then r_len r + 1 else r_commit r)"
  by (simp_all add: append_command_def Let_def)

lemma append_command_wf:
  assumes "raft_wf r" and "unat (r_len r) < 1024"
  shows "raft_wf (append_command r c)"
    "entries (append_command r c) = entries r @ [\<lparr>le_index = r_len r + 1, le_term = r_term r, le_command = c\<rparr>]"
proof -
  let ?e = "\<lparr>le_index = r_len r + 1, le_term = r_term r, le_command = c\<rparr>"
  let ?q = "set_len (r_len r + 1) (set_log ((r_log r)[unat (r_len r) := ?e]) r)"
  have "unat (r_len r + 1) = Suc (unat (r_len r))" using assms by (simp add: unat_Suc_64)
  then have "raft_wf (set_commit (r_len r + 1) ?q)" "raft_wf ?q"
    using wf_append [OF assms, of ?e] assms(2) wf_set_commit [of ?q "r_len r + 1"] by simp_all
  then show "raft_wf (append_command r c)" by (simp add: append_command_def Let_def)
  have "entries (append_command r c) = entries ?q"
    by (rule entries_cong) (simp_all add: append_command_def Let_def)
  then show "entries (append_command r c) = entries r @ [?e]"
    using entries_append [of r ?e] assms wf_lengths(2) [OF assms(1)] by simp
qed

lemma raft_leader_send_command_body_cases:
  assumes "raft_idle r"
  shows "\<exists>rc r' w'. raft_leader_send_command_body r c w = Some (rc, r', w') \<and> raft_idle r' \<and>
    evolves r r' \<and> no_promotion r r' \<and> (rc = 0 \<or> rc = - 1) \<and>
    (if rc = 0 then state r = LEADER \<and> unat (r_len r) < RAFT_LOG_CAP \<and> r' = append_command r c
     else r' = r \<or> state r = LEADER \<and> r' = r\<lparr>state := FAILED\<rparr>)"
proof -
  have wf: "raft_wf r" and free: "\<not> mu r" using assms by (simp_all add: raft_idle_def)
  let ?l = "r\<lparr>mu := True\<rparr>"
  let ?e = "\<lparr>le_index = r_len r + 1, le_term = r_term r, le_command = c\<rparr>"
  obtain rc w1 where p: "persist_log_entry_locked ?l ?e w = (rc, w1)" by fastforce
  have single: "majority (peer_count r + 1) = 1 \<longleftrightarrow> peer_count r = 0"
    using majority_single wf_bounds(1) [OF wf] by blast
  have len: "unat (r_len r) \<le> 1024" "length (r_log r) = 1024"
    using wf_bounds(2) [OF wf] wf_lengths(2) [OF wf] by simp_all
  have fl: "raft_idle (r\<lparr>state := FAILED\<rparr>)" "evolves r (r\<lparr>state := FAILED\<rparr>)"
    using wf free by (auto simp: raft_idle_def same_config_def intro: wf_demote evolves_same)
  consider "state r \<noteq> LEADER \<or> unat (r_len r) = 1024" | "state r = LEADER" "unat (r_len r) < 1024" "rc < 0"
    | "state r = LEADER" "unat (r_len r) < 1024" "\<not> rc < 0" using len(1) by linarith
  then show ?thesis
  proof cases
    case 1
    then have "raft_leader_send_command_body r c w = Some (- 1, r, w)"
      using free by (auto simp: raft_leader_send_command_body_def unlock_lock RAFT_LOG_CAP_def)
    then show ?thesis using assms by simp
  next
    case 2
    have "mutex_unlock (?l\<lparr>state := FAILED\<rparr>) = r\<lparr>state := FAILED\<rparr>"
      using free by (cases r) (simp add: mutex_unlock_def)
    then have "raft_leader_send_command_body r c w = Some (- 1, r\<lparr>state := FAILED\<rparr>, w1)"
      using 2 free p by (simp add: raft_leader_send_command_body_def RAFT_LOG_CAP_def raft_last_log_index_def)
    then show ?thesis using 2 fl by (simp add: no_promotion_failed)
  next
    case 3
    have "raft_leader_send_command_body r c w = Some (0, mutex_unlock (append_command ?l c), w1)"
      unfolding raft_leader_send_command_body_def append_command_def Let_def
      using 3 free p len single by (simp add: RAFT_LOG_CAP_def raft_last_log_index_def)
    also have "mutex_unlock (append_command ?l c) = append_command r c"
      using free by (cases r) (simp add: mutex_unlock_def append_command_def Let_def)
    finally have "raft_leader_send_command_body r c w = Some (0, append_command r c, w1)" .
    moreover have "raft_idle (append_command r c)" "evolves r (append_command r c)"
      "no_promotion r (append_command r c)"
      using append_command_wf [OF wf 3(2)] free
      by (auto simp: raft_idle_def append_command_fields same_config_def no_promotion_def intro: evolves_same)
    ultimately show ?thesis using 3 by (simp add: RAFT_LOG_CAP_def)
  qed
qed

end
