(* ===== verification/Raft_Recovery.thy ===== *)
theory Raft_Recovery
  imports Raft_Leader
begin

text \<open>
  Durability.  The log file is a sequence of records; the interface \<open>record_log\<close> states what
  a text format of records has to promise so that reading a file back replays the records
  that were written to it.  It is interpreted on the \<open>STATE\<close>, \<open>ENTRY\<close> and \<open>TRUNCATE\<close> lines
  and \<open>restore_line\<close>.
\<close>

section \<open>Logs of records\<close>

primrec run_recs :: "('x \<Rightarrow> 'a \<Rightarrow> 'a option) \<Rightarrow> 'x list \<Rightarrow> 'a \<Rightarrow> 'a option" where
  "run_recs f [] a = Some a"
| "run_recs f (x # xs) a = Option.bind (f x a) (run_recs f xs)"

lemma run_recs_snoc:
  "run_recs f xs a = Some b \<Longrightarrow> f x b = Some c \<Longrightarrow> run_recs f (xs @ [x]) a = Some c"
  by (induction xs arbitrary: a) (auto simp: bind_eq_Some_conv)

locale record_log =
  fixes render :: "'x \<Rightarrow> string"
    and apply_rec :: "'x \<Rightarrow> 'a \<Rightarrow> 'a option"
    and read_line :: "string \<Rightarrow> 's \<Rightarrow> (bool \<times> 's) option"
    and read_lines :: "string list \<Rightarrow> 's \<Rightarrow> (int \<times> 's) option"
    and inv :: "'s \<Rightarrow> bool"
    and abs_st :: "'s \<Rightarrow> 'a"
    and room :: nat
  assumes line: "full_line room (render x)"
    and simulates: "\<lbrakk>inv s; apply_rec x (abs_st s) = Some a\<rbrakk> \<Longrightarrow>
          \<exists>s'. read_line (render x) s = Some (True, s') \<and> inv s' \<and> abs_st s' = a"
    and lines_Nil: "read_lines [] s = Some (0, s)"
    and lines_Cons: "read_line l s = Some (True, s') \<Longrightarrow> read_lines (l # ls) s = read_lines ls s'"
begin

text \<open>Reading the written text back replays the records.\<close>

lemma replay:
  assumes "inv s" and "run_recs apply_rec xs (abs_st s) = Some a"
  shows "\<exists>s'. read_lines (fgets_all room (concat (map render xs))) s = Some (0, s') \<and> inv s' \<and> abs_st s' = a"
proof -
  have "fgets_all room (concat (map render xs)) = map render xs"
    by (rule fgets_all_concat) (auto simp: line)
  moreover have "\<exists>s'. read_lines (map render xs) s = Some (0, s') \<and> inv s' \<and> abs_st s' = a"
    using assms
  proof (induction xs arbitrary: s)
    case Nil
    then show ?case by (simp add: lines_Nil)
  next
    case (Cons x xs)
    then obtain b where b: "apply_rec x (abs_st s) = Some b" "run_recs apply_rec xs b = Some a"
      by (auto simp: bind_eq_Some_conv)
    with Cons.prems(1) simulates obtain s1 where
      "read_line (render x) s = Some (True, s1)" "inv s1" "abs_st s1 = b" by blast
    with b Cons.IH [of s1] show ?case by (simp add: lines_Cons)
  qed
  ultimately show ?thesis by simp
qed

end

section \<open>The records of the node's log file\<close>

datatype log_record =
    StateRec raft_term_t raft_node_id_t
  | EntryRec LogEntry
  | TruncateRec raft_index_t

fun render_record :: "log_record \<Rightarrow> string" where
  "render_record (StateRec t v) = state_line t v"
| "render_record (EntryRec e) = entry_line e"
| "render_record (TruncateRec i) = truncate_line i"

text \<open>The persistent part of a node: term, vote and entries.\<close>

type_synonym durable_state = "raft_term_t \<times> raft_node_id_t \<times> LogEntry list"

definition durable_part :: "raft_node \<Rightarrow> durable_state" where
  "durable_part r = (r_term r, r_voted r, entries r)"

fun apply_record :: "log_record \<Rightarrow> durable_state \<Rightarrow> durable_state option" where
  "apply_record (StateRec t v) (_, _, es) = Some (t, v, es)"
| "apply_record (EntryRec e) (t, v, es) =
     (if unat (le_index e) = Suc (length es) \<and> length es < RAFT_LOG_CAP then Some (t, v, es @ [e]) else None)"
| "apply_record (TruncateRec i) (t, v, es) =
     (if i = 0 then None else Some (t, v, take (unat i - 1) es))"

lemma dec_u64_length: "length (dec (unat (x :: u64))) \<le> 20"
  using dec_length [of "unat x" 20] unsigned_less [of x, where 'a = nat] by simp

lemma dec_u32_length: "length (dec (unat (x :: u32))) \<le> 10"
  using dec_length [of "unat x" 10] unsigned_less [of x, where 'a = nat] by simp

lemma dec_int_length:
  assumes "- (2 ^ 31) \<le> k" and "k < 2 ^ 31"
  shows "length (dec_int k) \<le> 11"
proof -
  have "nat (- k) < 10 ^ 10" "nat k < 10 ^ 10" using assms by simp_all
  then show ?thesis using dec_length [of "nat (- k)" 10] dec_length [of "nat k" 10]
    by (simp add: dec_int_def)
qed

lemma sint_i32: "- (2 ^ 31) \<le> sint (x :: u32)" "sint (x :: u32) < 2 ^ 31"
  using sint_ge [of x] sint_lt [of x] by simp_all

lemma full_lineI: "NL \<notin> set b \<Longrightarrow> NUL \<notin> set b \<Longrightarrow> length b < k \<Longrightarrow> full_line k (b @ [NL])"
  by (simp add: full_line_def)

lemma record_full_line: "full_line 255 (render_record x)"
proof (cases x)
  case (StateRec t v)
  have "full_line 255 ((''STATE '' @ dec (unat t) @ '' '' @ dec (unat v)) @ [NL])"
    using dec_u64_length [of t] dec_u64_length [of v] by (intro full_lineI) simp_all
  then show ?thesis using StateRec by (simp add: state_line_def)
next
  case (EntryRec e)
  let ?c = "le_command e"
  have "full_line 255 ((''ENTRY '' @ dec (unat (le_index e)) @ '' '' @ dec (unat (le_term e)) @ '' '' @
     dec_int (sint (cc_type ?c)) @ '' '' @ dec (unat (room_key ?c)) @ '' '' @
     dec (unat (player_id ?c)) @ '' '' @ dec (unat (cc_input ?c))) @ [NL])"
    using dec_u64_length [of "le_index e"] dec_u64_length [of "le_term e"]
      dec_u64_length [of "room_key ?c"] dec_u64_length [of "player_id ?c"]
      dec_u32_length [of "cc_input ?c"] dec_int_length [OF sint_i32, of "cc_type ?c"]
    by (intro full_lineI) simp_all
  then show ?thesis using EntryRec by (simp add: entry_line_def)
next
  case (TruncateRec i)
  have "full_line 255 ((''TRUNCATE '' @ dec (unat i)) @ [NL])"
    using dec_u64_length [of i] by (intro full_lineI) simp_all
  then show ?thesis using TruncateRec by (simp add: truncate_line_def)
qed

lemma record_no_NUL: "NUL \<notin> set (render_record x)"
  using record_full_line [of x] by (simp add: full_line_def)

section \<open>Reading a record back\<close>

lemma sscanf_lits: "sscanf (map Lit p @ ds) (p @ rest) = sscanf ds rest"
  by (induction p) simp_all

lemma space_isspace [simp]: "c_isspace (CHR '' '')" "c_isspace NL" "\<not> c_isdigit (CHR '' '')" "\<not> c_isdigit NL"
  "\<not> c_isspace (CHR ''-'')"
  by (simp_all add: c_isspace_def c_isdigit_def)

lemma drop_space_dec: "dropWhile c_isspace (CHR '' '' # dec n @ rest) = dec n @ rest"
  using dec_Cons [of n] by auto

lemma drop_space_dec_int: "dropWhile c_isspace (CHR '' '' # dec_int k @ rest) = dec_int k @ rest"
  using dec_Cons [of "nat k"] by (auto simp: dec_int_def)

lemma scan_int32_dec_int:
  assumes "- (2 ^ 31) \<le> k" and "k < 2 ^ 31" and "no_digit_head rest"
  shows "\<exists>neg v. scan_num (dec_int k @ rest) = Some (neg, v, rest) \<and> to_int32 (strtol_val neg v) = k"
  using scan_num_dec_int [OF assms(3)] to_int32_scanned [OF assms(1,2)] by blast

lemma sscanf_u64:
  "no_digit_head rest \<Longrightarrow>
     sscanf (Space # ConvU64 # ds) (CHR '' '' # dec (unat (x :: u64)) @ rest) = SInt (uint x) # sscanf ds rest"
  by (simp only: sscanf.simps drop_space_dec) simp

lemma sscanf_u32:
  assumes "no_digit_head rest"
  shows "sscanf (Space # ConvU32 # ds) (CHR '' '' # dec (unat (x :: u32)) @ rest) = SInt (uint x) # sscanf ds rest"
proof -
  have "uint x mod 2 ^ 32 = uint x" using uint_lt2p [of x] by (intro mod_pos_pos_trivial) simp_all
  then show ?thesis using assms by (simp only: sscanf.simps drop_space_dec) simp
qed

lemma sscanf_i32:
  assumes "no_digit_head rest"
  shows "sscanf (Space # ConvD # ds) (CHR '' '' # dec_int (sint (x :: u32)) @ rest) =
    SInt (sint x) # sscanf ds rest"
proof -
  obtain neg v where "scan_num (dec_int (sint x) @ rest) = Some (neg, v, rest)"
    "to_int32 (strtol_val neg v) = sint x"
    using scan_int32_dec_int [OF sint_i32 assms] by blast
  then show ?thesis by (simp only: sscanf.simps drop_space_dec_int) simp
qed

lemmas scan_back = sscanf_u64 sscanf_u32 sscanf_i32

lemma restore_state_line:
  "restore_line (state_line t v) r = Some (True, set_voted v (set_term t r))"
proof -
  have "sscanf fmt_STATE (state_line t v) = [SInt (uint t), SInt (uint v)]"
    using sscanf_lits [of "''STATE''" "[Space, ConvU64, Space, ConvU64]"
        "CHR '' '' # dec (unat t) @ CHR '' '' # dec (unat v) @ [NL]"]
    by (simp add: fmt_STATE_def state_line_def scan_back del: sscanf.simps) simp
  moreover have "cstr (state_line t v) = state_line t v"
    using record_no_NUL [of "StateRec t v"] by simp
  ultimately show ?thesis by (simp add: restore_line_def)
qed

lemma restore_truncate_line:
  "restore_line (truncate_line i) r = Some (restore_truncate i r)"
proof -
  have "sscanf fmt_TRUNCATE (truncate_line i) = [SInt (uint i)]"
    using sscanf_lits [of "''TRUNCATE''" "[Space, ConvU64]" "CHR '' '' # dec (unat i) @ [NL]"]
    by (simp add: fmt_TRUNCATE_def truncate_line_def scan_back del: sscanf.simps) simp
  moreover have "sscanf fmt_STATE (truncate_line i) = []"
    by (simp add: fmt_STATE_def truncate_line_def)
  moreover have "cstr (truncate_line i) = truncate_line i"
    using record_no_NUL [of "TruncateRec i"] by simp
  ultimately show ?thesis by (simp add: restore_line_def)
qed

lemma restore_entry_line: "restore_line (entry_line e) r = restore_entry e r"
proof -
  let ?c = "le_command e"
  let ?e = "\<lparr>le_index = le_index e, le_term = le_term e,
      le_command = \<lparr>cc_type = cc_type ?c, room_key = room_key ?c, player_id = player_id ?c,
        cc_input = cc_input ?c\<rparr>\<rparr>"
  have "sscanf fmt_ENTRY (entry_line e) =
      [SInt (uint (le_index e)), SInt (uint (le_term e)), SInt (sint (cc_type ?c)),
       SInt (uint (room_key ?c)), SInt (uint (player_id ?c)), SInt (uint (cc_input ?c))]"
    using sscanf_lits [of "''ENTRY''"
        "[Space, ConvU64, Space, ConvU64, Space, ConvD, Space, ConvU64, Space, ConvU64, Space, ConvU32]"
        "CHR '' '' # dec (unat (le_index e)) @ CHR '' '' # dec (unat (le_term e)) @
         CHR '' '' # dec_int (sint (cc_type ?c)) @ CHR '' '' # dec (unat (room_key ?c)) @
         CHR '' '' # dec (unat (player_id ?c)) @ CHR '' '' # dec (unat (cc_input ?c)) @ [NL]"]
    by (simp add: fmt_ENTRY_def entry_line_def scan_back del: sscanf.simps) simp
  moreover have "sscanf fmt_STATE (entry_line e) = []" "sscanf fmt_TRUNCATE (entry_line e) = []"
    by (simp_all add: fmt_STATE_def fmt_TRUNCATE_def entry_line_def)
  moreover have "cstr (entry_line e) = entry_line e"
    using record_no_NUL [of "EntryRec e"] by simp
  ultimately have "restore_line (entry_line e) r = restore_entry ?e r" by (simp add: restore_line_def)
  moreover have "?e = e" by (cases e; cases "le_command e") simp
  ultimately show ?thesis by argo
qed

text \<open>A node that is being restored.\<close>

definition restoring :: "raft_node \<Rightarrow> bool" where
  "restoring r = (raft_wf r \<and> state r \<noteq> LEADER)"

lemma restore_simulates:
  assumes "restoring r" and "apply_record x (durable_part r) = Some a"
  shows "\<exists>r'. restore_line (render_record x) r = Some (True, r') \<and> restoring r' \<and> durable_part r' = a"
proof (cases x)
  case (StateRec t v)
  with assms show ?thesis
    by (auto simp: restore_state_line durable_part_def restoring_def entries_def raft_wf_defs)
next
  case (EntryRec e)
  have wf: "raft_wf r" "state r \<noteq> LEADER" using assms(1) by (auto simp: restoring_def)
  note len = entries_length [OF wf(1)] wf_lengths(2) [OF wf(1)]
  from assms(2) EntryRec have e: "unat (le_index e) = Suc (unat (r_len r))" "unat (r_len r) < 1024"
    "a = (r_term r, r_voted r, entries r @ [e])"
    using len by (auto simp: durable_part_def RAFT_LOG_CAP_def split: if_splits)
  then have "le_index e = r_len r + 1" by (simp add: word_unat_eq_iff unat_Suc_64)
  then have "restore_line (render_record x) r =
      Some (True, set_len (r_len r + 1) (set_log ((r_log r)[unat (r_len r) := e]) r))"
    using EntryRec e len by (simp add: restore_entry_line restore_entry_def RAFT_LOG_CAP_def)
  then show ?thesis
    using wf_append [OF wf(1) e(2), of e] entries_append [OF e(2) len(2), of e] wf e(3)
    by (simp add: restoring_def durable_part_def)
next
  case (TruncateRec i)
  have wf: "raft_wf r" "state r \<noteq> LEADER" using assms(1) by (auto simp: restoring_def)
  note len = entries_length [OF wf(1)] wf_bounds(2) [OF wf(1)]
  from assms(2) TruncateRec have i: "0 < i" "a = (r_term r, r_voted r, take (unat i - 1) (entries r))"
    by (auto simp: durable_part_def word_neq_0_conv [symmetric] split: if_splits)
  have p: "unat (i - 1) = unat i - 1" using i(1) by (rule unat_pred_64)
  have l: "unat (r_len r + 1) = Suc (unat (r_len r))" using len(2) by (simp add: unat_Suc_64)
  show ?thesis
  proof (cases "i \<le> r_len r + 1")
    case True
    then have "unat (i - 1) \<le> unat (r_len r)" using p l by (simp add: word_le_nat_alt)
    then show ?thesis
      using True i p TruncateRec wf entries_truncate [of "i - 1" r] wf_truncate [OF wf(1) _ wf(2), of "i - 1"]
      by (simp add: restore_truncate_line restore_truncate_def restoring_def durable_part_def)
  next
    case False
    then have "length (entries r) \<le> unat i - 1" using l len(1) by (simp add: word_le_nat_alt)
    then show ?thesis
      using False i TruncateRec wf assms(1)
      by (simp add: restore_truncate_line restore_truncate_def restoring_def durable_part_def)
  qed
qed

interpretation raft_file: record_log render_record apply_record restore_line restore_lines restoring durable_part 255
  by unfold_locales (auto simp: record_full_line restore_simulates)

end
