(* ===== verification/Raft_Durability.thy ===== *)
theory Raft_Durability
  imports Raft_Recovery
begin

text \<open>
  In a world where the calls on the log file succeed, the file is at every moment a complete
  record of the node's term, vote and entries: every operation keeps this, and initialising
  a node from the file gives the state the node had when it stopped.
\<close>

section \<open>The file as a journal\<close>

definition reliable :: "world \<Rightarrow> bool" where
  "reliable w = (call_s w = sconst None)"

definition fresh_state :: durable_state where
  "fresh_state = (0, RAFT_NONE, [])"

definition journal_text :: "string option \<Rightarrow> durable_state \<Rightarrow> bool" where
  "journal_text f s =
     (\<exists>xs. f = Some (concat (map render_record xs)) \<and> run_recs apply_record xs fresh_state = Some s)"

definition journal :: "raft_node \<Rightarrow> world \<Rightarrow> durable_state \<Rightarrow> bool" where
  "journal r w s = (reliable w \<and> log_file r \<noteq> - 1 \<and> journal_text (files w (log_path r w)) s)"

definition durable :: "raft_node \<Rightarrow> world \<Rightarrow> bool" where
  "durable r w = journal r w (durable_part r)"

lemma sys_call_reliable: "reliable w \<Longrightarrow> sys_call w = (None, w)"
  by (simp add: reliable_def sys_call_def)

lemma journal_cong:
  assumes "log_file r' = log_file r" and "node_id r' = node_id r"
    and "call_s w' = call_s w" and "files w' = files w" and "project_root w' = project_root w"
  shows "journal r' w' s = journal r w s"
  using assms by (simp add: journal_def reliable_def)

lemma journal_text_snoc:
  assumes "journal_text (Some txt) s" and "apply_record x s = Some s'"
  shows "journal_text (Some (txt @ render_record x)) s'"
proof -
  obtain xs where "txt = concat (map render_record xs)" "run_recs apply_record xs fresh_state = Some s"
    using assms(1) by (auto simp: journal_text_def)
  then have "txt @ render_record x = concat (map render_record (xs @ [x]))"
    "run_recs apply_record (xs @ [x]) fresh_state = Some s'"
    using run_recs_snoc [of apply_record xs _ s x s'] assms(2) by simp_all
  then show ?thesis unfolding journal_text_def by blast
qed

text \<open>Writing a record adds it to the journal.\<close>

lemma write_record:
  assumes "journal r w s" and "apply_record x s = Some s'"
  shows "\<exists>w'. write_synced r (render_record x) w = (0, w') \<and> journal r w' s'"
proof -
  have w: "reliable w" "log_file r \<noteq> - 1" using assms(1) by (simp_all add: journal_def)
  obtain old where old: "files w (log_path r w) = Some old" "journal_text (Some old) s"
    using assms(1) by (auto simp: journal_def journal_text_def)
  let ?w = "append_file (log_path r w) (render_record x) w"
  have "reliable ?w" using w(1) by (simp add: append_file_def reliable_def)
  then have "write_synced r (render_record x) w = (0, ?w)"
    using w by (simp add: write_synced_def dprintf_def fdatasync_def sys_call_reliable)
  moreover have "journal r ?w s'"
    using w old(1) journal_text_snoc [OF old(2) assms(2)] \<open>reliable ?w\<close>
    by (simp add: journal_def append_file_def)
  ultimately show ?thesis by blast
qed

lemma persist_state_durable:
  assumes "journal r w (t, v, entries r)"
  shows "\<exists>w'. persist_state_locked r w = (0, w') \<and> durable r w'"
  using write_record [OF assms, of "StateRec (r_term r) (r_voted r)"]
  by (simp add: persist_state_locked_def durable_def durable_part_def)

lemma persist_entry_durable:
  assumes "journal r w (t, v, es)" and "unat (le_index e) = Suc (length es)" and "length es < RAFT_LOG_CAP"
  shows "\<exists>w'. persist_log_entry_locked r e w = (0, w') \<and> journal r w' (t, v, es @ [e])"
  using write_record [OF assms(1), of "EntryRec e"] assms(2,3)
  by (simp add: persist_log_entry_locked_def)

lemma persist_truncate_durable:
  assumes "journal r w (t, v, es)" and "i \<noteq> 0"
  shows "\<exists>w'. persist_truncate_locked r i w = (0, w') \<and> journal r w' (t, v, take (unat i - 1) es)"
  using write_record [OF assms(1), of "TruncateRec i"] assms(2)
  by (simp add: persist_truncate_locked_def)

lemma durable_cong:
  assumes "log_file r' = log_file r" and "node_id r' = node_id r" and "pstate r' = pstate r"
    and "call_s w' = call_s w" and "files w' = files w" and "project_root w' = project_root w"
  shows "durable r' w' = durable r w"
  using assms by (simp add: durable_def durable_part_def entries_def journal_def reliable_def)

lemma durable_mu [simp]: "durable (mutex_unlock r) w = durable r w" "durable (r\<lparr>mu := b\<rparr>) w = durable r w"
  "durable (r\<lparr>state := s\<rparr>) w = durable r w" "durable (r\<lparr>leader_id := l\<rparr>) w = durable r w"
  by (simp_all add: durable_def durable_part_def entries_def journal_def)

lemma durable_retimed: "retimed r r' \<Longrightarrow> durable r' w = durable r w"
  by (auto simp: retimed_def durable_def durable_part_def entries_def journal_def)

lemma durable_timers [simp]:
  "durable r (w\<lparr>clock_s := c\<rparr>) = durable r w" "durable r (w\<lparr>rand_s := n\<rparr>) = durable r w"
  by (simp_all add: durable_def journal_def reliable_def)

lemma reset_timer_durable:
  assumes "raft_reset_election_timer r w = (r', w')"
  shows "durable r' w' = durable r w"
  using reset_timer_shape [OF assms] by (auto simp: durable_def durable_part_def entries_def journal_def reliable_def)

section \<open>Starting from the file\<close>

text \<open>Restoring changes nothing but the persistent state and keeps the node well formed.\<close>

definition restored_from :: "raft_node \<Rightarrow> raft_node \<Rightarrow> bool" where
  "restored_from r r' = (r\<lparr>pstate := pstate r'\<rparr> = r' \<and> restoring r')"

lemma restored_from_refl: "restoring r \<Longrightarrow> restored_from r r"
  by (simp add: restored_from_def)

lemma restored_from_trans: "restored_from r r' \<Longrightarrow> restored_from r' r'' \<Longrightarrow> restored_from r r''"
  by (cases r; cases r'; cases r'') (simp add: restored_from_def)

lemma restore_entry_total:
  assumes "restoring r"
  shows "\<exists>go r'. restore_entry e r = Some (go, r') \<and> restored_from r r'"
proof (cases "le_index e \<noteq> r_len r + 1 \<or> RAFT_LOG_CAP \<le> unat (r_len r)")
  case True
  then have "restore_entry e r = Some (False, r)" by (auto simp: restore_entry_def)
  then show ?thesis using restored_from_refl [OF assms] by blast
next
  case False
  have wf: "raft_wf r" "state r \<noteq> LEADER" using assms by (auto simp: restoring_def)
  show ?thesis
    using False wf wf_append [OF wf(1), of e] wf_lengths(2) [OF wf(1)]
    by (auto simp: restore_entry_def restoring_def restored_from_def RAFT_LOG_CAP_def)
qed

lemma restore_truncate_total:
  assumes "restoring r"
  shows "\<exists>go r'. restore_truncate i r = (go, r') \<and> restored_from r r'"
proof (cases "i = 0 \<or> \<not> i \<le> r_len r + 1")
  case True
  then have "\<exists>go. restore_truncate i r = (go, r)" by (auto simp: restore_truncate_def)
  then show ?thesis using restored_from_refl [OF assms] by blast
next
  case False
  have wf: "raft_wf r" "state r \<noteq> LEADER" using assms by (auto simp: restoring_def)
  have "unat (i - 1) \<le> unat (r_len r)"
    using False wf_bounds(2) [OF wf(1)] unat_pred_64 [of i]
    by (auto simp: word_le_nat_alt unat_Suc_64 word_neq_0_conv)
  then show ?thesis
    using False wf wf_truncate [of r "i - 1"] by (auto simp: restore_truncate_def restoring_def restored_from_def)
qed

lemma restore_state_total: "restoring r \<Longrightarrow> restored_from r (set_voted v (set_term t r))"
  by (simp add: restored_from_def restoring_def raft_wf_defs)

lemma one_scanned: "(\<And>a. P (f a)) \<Longrightarrow> P z \<Longrightarrow> P (case xs of [SInt a] \<Rightarrow> f a | _ \<Rightarrow> z)"
  by (simp split: list.split scanned.split)

lemma two_scanned: "(\<And>a b. P (f a b)) \<Longrightarrow> P z \<Longrightarrow> P (case xs of [SInt a, SInt b] \<Rightarrow> f a b | _ \<Rightarrow> z)"
  by (simp split: list.split scanned.split)

lemma six_scanned:
  "(\<And>a b c d e g. P (f a b c d e g)) \<Longrightarrow> P z \<Longrightarrow>
     P (case xs of [SInt a, SInt b, SInt c, SInt d, SInt e, SInt g] \<Rightarrow> f a b c d e g | _ \<Rightarrow> z)"
  by (simp split: list.split scanned.split)

lemma restore_line_total:
  assumes "restoring r"
  shows "\<exists>go r'. restore_line l r = Some (go, r') \<and> restored_from r r'"
proof -
  let ?P = "\<lambda>y. \<exists>go r'. y = Some (go, r') \<and> restored_from r r'"
  have t: "?P (Some (restore_truncate i r))" for i
    using restore_truncate_total [OF assms, of i] by auto
  have e: "?P (restore_entry e r)" for e by (rule restore_entry_total [OF assms])
  have s: "?P (Some (True, set_voted v (set_term t r)))" for v t
    using restore_state_total [OF assms] by blast
  have n: "?P (Some (True, r))" using restored_from_refl [OF assms] by blast
  show ?thesis
    unfolding restore_line_def
    by (intro two_scanned [where P = ?P] one_scanned [where P = ?P] six_scanned [where P = ?P])
      (rule s t e n)+
qed

lemma restore_lines_total:
  "restoring r \<Longrightarrow> \<exists>rc r'. restore_lines ls r = Some (rc, r') \<and> restored_from r r'"
proof (induction ls arbitrary: r)
  case Nil
  then show ?case by (simp add: restored_from_refl)
next
  case (Cons l ls)
  obtain go r1 where 1: "restore_line l r = Some (go, r1)" "restored_from r r1"
    using restore_line_total [OF Cons.prems] by blast
  then have "restoring r1" by (simp add: restored_from_def)
  then obtain rc r2 where "restore_lines ls r1 = Some (rc, r2)" "restored_from r1 r2"
    using Cons.IH by blast
  with 1 show ?case using restored_from_trans by (cases go) auto
qed

text \<open>The node before anything is restored.\<close>

definition blank_node :: "raft_node_id_t \<Rightarrow> raft_node" where
  "blank_node nid =
     zero_node\<lparr>log_file := - 1, node_id := nid, leader_id := RAFT_NONE, heartbeat_interval_ms := 50,
       pstate := zero_pstate\<lparr>votedFor := RAFT_NONE\<rparr>\<rparr>"

lemma blank_restoring: "restoring (blank_node nid)"
  by (simp add: restoring_def blank_node_def zero_node_def zero_pstate_def zero_cstate_def zero_lstate_def
      raft_wf_defs)

lemma blank_part: "durable_part (blank_node nid) = fresh_state"
  by (simp add: blank_node_def zero_node_def zero_pstate_def durable_part_def fresh_state_def entries_def)

lemma blank_fields [simp]:
  "state (blank_node nid) = FOLLOWER" "node_id (blank_node nid) = nid" "peer_count (blank_node nid) = 0"
  "mu (blank_node nid) = False" "cstate (blank_node nid) = zero_cstate" "lstate (blank_node nid) = zero_lstate"
  "r_commit (blank_node nid) = 0" "r_applied (blank_node nid) = 0"
  by (simp_all add: blank_node_def zero_node_def)

lemma initialise_body_eq:
  assumes "raft_reset_election_timer (blank_node nid) w = (r0, w0)"
  shows "initialise_raft_sm_body nid w = do {
    (rc, r, w) \<leftarrow> restore_pstate r0 w0;
    if rc = - 1 then Some (r, w) else let (ret, r, w) = create_log_file r w in Some (r, w) }"
proof -
  have "set_applied 0 (set_commit 0 (set_len 0 (set_voted RAFT_NONE (set_term 0
      (zero_node\<lparr>log_file := - 1, mu := False, state := FOLLOWER, node_id := nid, leader_id := RAFT_NONE,
        peer_count := 0\<rparr>)))))\<lparr>heartbeat_interval_ms := 50\<rparr> = blank_node nid"
    by (simp add: blank_node_def zero_node_def zero_pstate_def)
  with assms show ?thesis by (simp add: initialise_raft_sm_body_def Let_def)
qed

lemma initialise_unfold:
  "\<exists>r0 w0. retimed (blank_node nid) r0 \<and> (\<exists>c n. w0 = w\<lparr>rand_s := n, clock_s := c\<rparr>) \<and>
    initialise_raft_sm_body nid w = do {
      (rc, r, w) \<leftarrow> restore_pstate r0 w0;
      if rc = - 1 then Some (r, w) else let (ret, r, w) = create_log_file r w in Some (r, w) }"
proof -
  obtain r0 w0 where t: "raft_reset_election_timer (blank_node nid) w = (r0, w0)" by fastforce
  then show ?thesis
    using initialise_body_eq [OF t] reset_timer_retimed [OF t] reset_timer_shape [OF t] by blast
qed

lemma retimed_restoring: "retimed r r' \<Longrightarrow> restoring r' = restoring r"
  by (simp add: restoring_def retimed_wf retimed_fields)

text \<open>What a start-up promises for any file and any failures.\<close>

definition started :: "raft_node_id_t \<Rightarrow> raft_node \<Rightarrow> bool" where
  "started nid r =
     (raft_idle r \<and> state r = FOLLOWER \<and> node_id r = nid \<and> peer_count r = 0 \<and>
      cstate r = zero_cstate \<and> lstate r = zero_lstate \<and> r_commit r = 0 \<and> r_applied r = 0)"

lemma restored_started:
  assumes "retimed (blank_node nid) r0" and "restored_from r0 r"
  shows "started nid r" "started nid (r\<lparr>log_file := fd\<rparr>)"
proof -
  have eq: "r = r0\<lparr>pstate := pstate r\<rparr>" and wf: "raft_wf r"
    using assms(2) by (simp_all add: restored_from_def restoring_def)
  note f = retimed_fields [OF assms(1)]
  have "state r = FOLLOWER" "node_id r = nid" "peer_count r = 0" "mu r = False" "cstate r = zero_cstate"
    "lstate r = zero_lstate" "vstate r = vstate (blank_node nid)"
    by (subst eq, simp add: f)+
  then show "started nid r" "started nid (r\<lparr>log_file := fd\<rparr>)"
    using wf by (simp_all add: started_def raft_idle_def raft_wf_defs)
qed

lemma restore_pstate_total:
  assumes "restoring r"
  shows "\<exists>rc r' w'. restore_pstate r w = Some (rc, r', w') \<and> restored_from r r'"
proof -
  obtain rc r' where "restore_lines (fgets_all 255 (the (files w (log_path r w)))) r = Some (rc, r')"
    "restored_from r r'" using restore_lines_total [OF assms] by blast
  then show ?thesis
    using restored_from_refl [OF assms]
    by (cases "shd (call_s w)"; cases "files w (log_path r w)"; cases "shd (stl (call_s w))")
      (simp_all add: restore_pstate_def sys_call_def)
qed

lemma initialise_raft_sm_total: "\<exists>r w'. initialise_raft_sm_body nid w = Some (r, w') \<and> started nid r"
proof -
  obtain r0 w0 where t: "retimed (blank_node nid) r0"
    and body: "initialise_raft_sm_body nid w = do {
      (rc, r, w) \<leftarrow> restore_pstate r0 w0;
      if rc = - 1 then Some (r, w) else let (ret, r, w) = create_log_file r w in Some (r, w) }"
    using initialise_unfold by blast
  have "restoring r0" using blank_restoring retimed_restoring [OF t] by simp
  then obtain rc r1 w1 where 1: "restore_pstate r0 w0 = Some (rc, r1, w1)" "restored_from r0 r1"
    using restore_pstate_total by blast
  show ?thesis
    using restored_started [OF t 1(2)] body 1(1)
    by (auto simp: create_log_file_def Let_def split: prod.splits)
qed

text \<open>
  Start-up on a reliable file: the state the journal describes, or a fresh one when there is
  no file yet.
\<close>

lemma initialise_raft_sm_restores:
  assumes "reliable w"
    and "files w (raft_log_path (project_root w) nid) = None \<and> s = fresh_state \<or>
         journal_text (files w (raft_log_path (project_root w) nid)) s"
  shows "\<exists>r w'. initialise_raft_sm_body nid w = Some (r, w') \<and> started nid r \<and> durable_part r = s \<and>
    durable r w' \<and> project_root w' = project_root w"
proof -
  obtain r0 w0 where t: "retimed (blank_node nid) r0" and w0: "\<exists>c n. w0 = w\<lparr>rand_s := n, clock_s := c\<rparr>"
    and body: "initialise_raft_sm_body nid w = do {
      (rc, r, w) \<leftarrow> restore_pstate r0 w0;
      if rc = - 1 then Some (r, w) else let (ret, r, w) = create_log_file r w in Some (r, w) }"
    using initialise_unfold by blast
  note f = retimed_fields [OF t]
  have r0: "restoring r0" "durable_part r0 = fresh_state"
    using blank_restoring retimed_restoring [OF t] blank_part f by (simp_all add: durable_part_def entries_def)
  have w: "reliable w0" "files w0 = files w" "project_root w0 = project_root w"
    using w0 assms(1) by (auto simp: reliable_def)
  let ?path = "raft_log_path (project_root w) nid"
  have path: "log_path r0 w0 = ?path" using f w by simp
  have "\<exists>r1. restore_pstate r0 w0 = Some (0, r1, w0) \<and> restored_from r0 r1 \<and> durable_part r1 = s"
  proof (cases "files w ?path")
    case None
    then have "s = fresh_state" using assms(2) by (auto simp: journal_text_def)
    then show ?thesis
      using None r0 w path restored_from_refl [OF r0(1)] by (simp add: restore_pstate_def sys_call_reliable)
  next
    case (Some contents)
    then obtain xs where xs: "contents = concat (map render_record xs)"
      "run_recs apply_record xs fresh_state = Some s"
      using assms(2) by (auto simp: journal_text_def)
    obtain r1 where r1: "restore_lines (fgets_all 255 contents) r0 = Some (0, r1)" "durable_part r1 = s"
      using raft_file.replay [OF r0(1), of xs s] xs r0(2) by auto
    moreover have "restored_from r0 r1"
      using restore_lines_total [OF r0(1)] r1(1) by (metis option.inject prod.inject)
    ultimately show ?thesis
      using Some w path by (simp add: restore_pstate_def sys_call_reliable)
  qed
  then obtain r1 where r1: "restore_pstate r0 w0 = Some (0, r1, w0)" "restored_from r0 r1" "durable_part r1 = s"
    by blast
  note st = restored_started [OF t r1(2)]
  let ?r = "r1\<lparr>log_file := int (next_fd w0)\<rparr>" and ?w = "append_file ?path [] w0"
  have p1: "log_path r1 w0 = ?path" using st(1) w by (simp add: started_def)
  have "initialise_raft_sm_body nid w = Some (?r, ?w)"
    using body r1(1) w p1 by (simp add: create_log_file_def sys_call_reliable)
  moreover have "durable_part ?r = s" using r1(3) by (simp add: durable_part_def entries_def)
  moreover have "durable ?r ?w"
  proof -
    let ?old = "case files w ?path of None \<Rightarrow> [] | Some old \<Rightarrow> old"
    have "journal_text (Some ?old) s"
    proof (cases "files w ?path")
      case None
      then have "s = fresh_state" using assms(2) by (auto simp: journal_text_def)
      then show ?thesis unfolding journal_text_def using None
        by (intro exI [of _ "[]"]) simp
    qed (use assms(2) in simp)
    moreover have "files ?w ?path = Some ?old"
      using w by (simp add: append_file_def split: option.split)
    moreover have "reliable ?w" "log_path ?r ?w = ?path"
      using w p1 by (simp_all add: append_file_def reliable_def)
    ultimately show ?thesis
      using \<open>durable_part ?r = s\<close> by (simp add: durable_def journal_def)
  qed
  moreover have "project_root ?w = project_root w" using w by (simp add: append_file_def)
  ultimately show ?thesis using st(2) by blast
qed

section \<open>Operations keep the file up to date\<close>

lemma journal_of_durable:
  assumes "durable r w" and "log_file r' = log_file r" and "node_id r' = node_id r" and "entries r' = entries r"
  shows "journal r' w (r_term r, r_voted r, entries r')"
  using assms by (simp add: durable_def durable_part_def journal_def)

text \<open>Saving a node that differs from the durable one in its term and vote only.\<close>

lemma save_durable:
  assumes "durable r w" and "log_file r' = log_file r" and "node_id r' = node_id r" and "entries r' = entries r"
    and "persist_state_locked r' w = (rc, w')"
  shows "rc = 0" "durable r' w'"
  using persist_state_durable [OF journal_of_durable [OF assms(1-4)]] assms(5) by auto

lemma entries_set_term_voted [simp]:
  "entries (set_voted v r) = entries r" "entries (set_term t r) = entries r"
  "entries (r\<lparr>state := s\<rparr>) = entries r" "entries (r\<lparr>leader_id := l\<rparr>) = entries r"
  "entries (r\<lparr>mu := b\<rparr>) = entries r" "entries (mutex_unlock r) = entries r"
  by (simp_all add: entries_def)

lemma update_term_locked_durable:
  assumes "durable r w" and "update_term_locked r t w = (rc, r', w')"
  shows "rc = 0" "durable r' w'"
proof -
  have "rc = 0 \<and> durable r' w'"
  proof (cases "t \<le> r_term r")
    case True
    with assms show ?thesis by simp
  next
    case False
    let ?s = "if state r \<noteq> FAILED then r\<lparr>state := FOLLOWER\<rparr> else r"
    let ?r1 = "(set_voted RAFT_NONE (set_term t ?s))\<lparr>leader_id := RAFT_NONE\<rparr>"
    let ?r2 = "raft_clear_leader_state (raft_clear_candidate_state ?r1)"
    obtain rc1 w1 where p: "persist_state_locked ?r1 w = (rc1, w1)" by fastforce
    have r1: "rc1 = 0" "durable ?r1 w1"
      using save_durable [OF assms(1) _ _ _ p] by (simp_all add: entries_def)
    obtain r3 w3 where r3: "raft_reset_election_timer ?r2 w1 = (r3, w3)" by fastforce
    have "update_term_locked r t w = (0, r3, w3)"
      using False p r1(1) r3 by (simp add: update_term_locked_def Let_def)
    moreover have "durable ?r2 w1 = durable ?r1 w1"
      by (rule durable_cong) (simp_all add: raft_clear_leader_state_def raft_clear_candidate_state_def)
    ultimately show ?thesis
      using assms(2) r1(2) reset_timer_durable [OF r3] by simp
  qed
  then show "rc = 0" "durable r' w'" by simp_all
qed

lemma adopt_term_durable:
  assumes "durable r w" and "adopt_term r t w = (rc, r', w')"
  shows "rc = 0" "durable r' w'"
  using assms update_term_locked_durable [OF assms(1)] by (auto simp: adopt_term_def split: if_splits)

lemma expired_durable:
  "raft_election_timeout_expired r w = (b, w') \<Longrightarrow> durable q w' = durable q w"
  using expired_shape by fastforce

lemma raft_timeout_body_durable:
  assumes "durable r w" and "raft_timeout_body r out cap w = Some (n, out', r', w')" and "raft_idle r"
  shows "durable r' w'"
proof -
  let ?l = "r\<lparr>mu := True\<rparr>"
  have wf: "raft_wf r" and free: "\<not> mu r" using assms(3) by (simp_all add: raft_idle_def)
  obtain b w1 where b: "raft_election_timeout_expired ?l w = (b, w1)" by fastforce
  have d1: "durable ?l w1" using assms(1) expired_durable [OF b] by simp
  obtain rc w2 where rc: "persist_state_locked (candidate_of ?l) w1 = (rc, w2)" by fastforce
  have d2: "rc = 0" "durable (candidate_of ?l) w2"
    using save_durable [OF d1 _ _ _ rc] by (simp_all add: entries_def)
  obtain r3 w3 where r3: "raft_reset_election_timer (campaigner ?l) w2 = (r3, w3)" by fastforce
  have "durable (campaigner ?l) w2 = durable (candidate_of ?l) w2" by (rule durable_cong) simp_all
  then have d3: "durable r3 w3" using d2 reset_timer_durable [OF r3] by simp
  note body = raft_timeout_body_unfold [OF free b rc r3, of out cap]
  have "raft_wf r3"
    using wf campaigner_wf [of ?l] retimed_wf [OF reset_timer_retimed [OF r3]] by simp
  then have "raft_init_leader_state r3 = Some (new_leader r3)" by (rule init_leader_shape)
  moreover have "durable (new_leader r3) w3 = durable r3 w3" by (rule durable_cong) simp_all
  ultimately show ?thesis
    using assms(2) [unfolded body] assms(1) d1 d2(1) d3 by (auto simp: bind_eq_Some_conv split: if_splits)
qed

lemma HandleRequestVoteRequest_body_durable:
  assumes "durable r w" and "HandleRequestVoteRequest_body r req w = Some (resp, r', w')" and "raft_idle r"
  shows "durable r' w'"
proof -
  have wf: "raft_wf r" and free: "\<not> mu r" using assms(3) by (simp_all add: raft_idle_def)
  obtain rc r1 w1 where a: "adopt_term (r\<lparr>mu := True\<rparr>) (rv_term req) w = (rc, r1, w1)"
    by (metis prod_cases3)
  have d1: "durable r1 w1" using adopt_term_durable [OF _ a] assms(1) by simp
  let ?r2 = "set_voted (rv_candidateId req) r1"
  obtain rc2 w2 where p: "persist_state_locked ?r2 w1 = (rc2, w2)" by fastforce
  have d2: "rc2 = 0" "durable ?r2 w2" using save_durable [OF d1 _ _ _ p] by simp_all
  obtain r3 w3 where t: "raft_reset_election_timer ?r2 w2 = (r3, w3)" by fastforce
  have d3: "durable r3 w3" using d2 reset_timer_durable [OF t] by simp
  have "HandleRequestVoteRequest_body r req w \<in>
      {Some (resp, mutex_unlock r1, w1), Some (resp, mutex_unlock r3, w3)}"
    using assms(2) free a p d2(1) t
    by (auto simp: HandleRequestVoteRequest_body_def adopt_term_def Let_def bind_eq_Some_conv
        split: if_splits)
  then show ?thesis using assms(2) d1 d3 by auto
qed

lemma HandleRequestVoteResponse_body_durable:
  assumes "durable r w" and "HandleRequestVoteResponse_body r resp peer w = Some (r', w')" and "raft_idle r"
  shows "durable r' w'"
proof (cases "rvr_term resp > r_term r")
  case True
  have free: "\<not> mu r" using assms(3) by (simp add: raft_idle_def)
  obtain rc r1 w1 where u: "update_term_locked (r\<lparr>mu := True\<rparr>) (rvr_term resp) w = (rc, r1, w1)"
    by (metis prod_cases3)
  have "durable r1 w1" using update_term_locked_durable [OF _ u] assms(1) by simp
  then show ?thesis
    using True free u assms(2) by (auto simp: HandleRequestVoteResponse_body_def)
next
  case False
  have free: "\<not> mu r" using assms(3) by (simp add: raft_idle_def)
  have w: "w' = w"
    using False free assms(2)
    by (auto simp: HandleRequestVoteResponse_body_def Let_def bind_eq_Some_conv split: if_splits)
  have ps: "pstate r' = pstate r \<and> same_config r r'"
    using HandleRequestVoteResponse_body_cases [OF assms(3), of resp peer w] assms(2) False
    by (auto simp: evolves_def)
  show ?thesis using assms(1) ps w durable_cong [of r' r w w] by (simp add: same_config_def)
qed

lemma ae_entry_durable:
  assumes "durable r w" and "raft_wf r" and "i < length (ae_log req)"
    and prev: "unat (ae_prevLogIndex req) + i \<le> unat (r_len r)"
    and "ae_entry req i (r, w) = Some (go, r', w')"
  shows "durable r' w'"
proof -
  let ?e = "ae_log req ! i" and ?p = "ae_prevLogIndex req + of_nat i"
  have len: "unat (r_len r) \<le> 1024" "length (r_log r) = 1024" "length (entries r) = unat (r_len r)"
    using wf_bounds wf_lengths entries_length assms(2) by auto
  have p: "unat ?p = unat (ae_prevLogIndex req) + i" "unat (?p + 1) = Suc (unat ?p)"
    using prev len(1) by (simp_all add: unat_add_64 unat_Suc_64)
  have j: "journal r w (r_term r, r_voted r, entries r)"
    using assms(1) by (simp add: durable_def durable_part_def)
  consider "le_index ?e \<noteq> ?p + 1 \<or>
      unat ?p < unat (r_len r) \<and> le_term (r_log r ! unat ?p) = le_term ?e \<or> unat ?p = 1024"
    | (differs) "le_index ?e = ?p + 1" "unat ?p < unat (r_len r)" "le_term (r_log r ! unat ?p) \<noteq> le_term ?e"
    | (new) "le_index ?e = ?p + 1" "unat ?p = unat (r_len r)" "unat ?p < 1024"
    using prev p len(1) by linarith
  then show ?thesis
  proof cases
    case 1
    then have "ae_entry req i (r, w) = Some (go, r, w)" 
      using assms(3,5) len prev p by (auto simp: ae_entry_def word_less_nat_alt RAFT_LOG_CAP_def Let_def split: if_splits)
    then show ?thesis using assms(1,5) by simp
  next
    case differs
    let ?t = "set_len ?p r"
    let ?a = "set_len (?p + 1) (set_log ((r_log r)[unat ?p := ?e]) ?t)"
    have nz: "?p + 1 \<noteq> 0" using p(2) by (metis nat.distinct(1) unat_0)
    obtain w1 where w1: "persist_truncate_locked r (?p + 1) w = (0, w1)"
      "journal r w1 (r_term r, r_voted r, take (unat ?p) (entries r))"
      using persist_truncate_durable [OF j nz] p(2) by auto
    have "journal ?t w1 (r_term r, r_voted r, take (unat ?p) (entries r))"
      using w1(2) by (simp add: journal_def)
    then obtain w2 where w2: "persist_log_entry_locked ?t ?e w1 = (0, w2)"
      "journal ?t w2 (r_term r, r_voted r, take (unat ?p) (entries r) @ [?e])"
      using persist_entry_durable [of ?t w1 _ _ "take (unat ?p) (entries r)" ?e] differs p(2) len
      by (auto simp: RAFT_LOG_CAP_def)
    have "ae_entry req i (r, w) = Some (True, ?a, w2)"
      using assms(3) differs len w1(1) w2(1)
      by (simp add: ae_entry_def word_less_nat_alt RAFT_LOG_CAP_def Let_def o_def cong: if_cong)
    moreover have "entries ?a = take (unat ?p) (entries r) @ [?e]"
      using entries_append [of ?t ?e] entries_truncate [of ?p r] differs len by simp
    ultimately show ?thesis
      using assms(5) w2(2) by (auto simp: durable_def durable_part_def journal_def)
  next
    case new
    let ?a = "set_len (r_len r + 1) (set_log ((r_log r)[unat (r_len r) := ?e]) r)"
    have eq: "?p = r_len r" using new by (simp add: word_unat_eq_iff)
    obtain w2 where w2: "persist_log_entry_locked r ?e w = (0, w2)"
      "journal r w2 (r_term r, r_voted r, entries r @ [?e])"
      using persist_entry_durable [OF j, of ?e] new p(2) len eq by (auto simp: RAFT_LOG_CAP_def)
    have "ae_entry req i (r, w) = Some (True, ?a, w2)"
      using assms(3) new len w2(1) eq
      by (simp add: ae_entry_def word_less_nat_alt RAFT_LOG_CAP_def Let_def o_def cong: if_cong)
    moreover have "entries ?a = entries r @ [?e]" using entries_append [of r ?e] new len eq by simp
    ultimately show ?thesis
      using assms(5) w2(2) by (auto simp: durable_def durable_part_def journal_def)
  qed
qed

lemma ae_entries_durable:
  assumes "durable r w" and "raft_wf r" and "state r \<noteq> LEADER" and "ae_len_ok req"
    and "unat (ae_prevLogIndex req) \<le> unat (r_len r)"
    and "ae_entries req r w = Some (go, r', w')"
  shows "durable r' w'"
proof -
  let ?N = "unat (ae_log_len req)"
  let ?D = "\<lambda>t :: raft_node \<times> world. durable (fst t) (snd t)"
  have "\<exists>go t. ae_entries req r w = Some (go, t) \<and>
    (if go then ae_prefix req r ?N (fst t) \<and> ?D t else (\<exists>j \<ge> 0. j < ?N \<and> ?D t))"
    unfolding ae_entries_def
  proof (rule for_ret_rule)
    show "ae_prefix req r 0 (fst (r, w)) \<and> ?D (r, w)"
      using assms by (simp add: ae_prefix_def ae_indexed_def)
    fix j and t :: "raft_node \<times> world"
    assume j: "j < ?N" and t: "ae_prefix req r j (fst t) \<and> ?D t"
    have q: "raft_wf (fst t)" "state (fst t) \<noteq> LEADER" "relogged r (fst t)"
      "unat (ae_prevLogIndex req) + j \<le> unat (r_len (fst t))"
      using t assms(3) by (auto simp: ae_prefix_def relogged_fields)
    have jl: "j < length (ae_log req)" using j assms(4) by (simp add: ae_len_ok_def)
    obtain go' r2 w2 where e: "ae_entry req j t = Some (go', r2, w2)"
      "if go' then le_index (ae_log req ! j) = ae_prevLogIndex req + of_nat j + 1 \<and> relogged (fst t) r2 \<and>
         raft_wf r2 \<and> unat (ae_prevLogIndex req) + Suc j \<le> unat (r_len r2) \<and>
         entries r2 = merge_step (unat (ae_prevLogIndex req)) (ae_log req) j (entries (fst t))
       else ae_refused req j (fst t) r2"
      using ae_entry_spec [OF q(1,2) jl q(4), of "snd t"] by auto
    have "durable r2 w2"
      using ae_entry_durable [OF _ q(1) jl q(4), of "snd t" go' r2 w2] t e(1) by simp
    moreover have "ae_prefix req r (Suc j) r2" if go'
      using that e(2) t q(3)
      by (auto simp: ae_prefix_def merged_Suc ae_indexed_def less_Suc_eq intro: relogged_trans)
    ultimately show "\<exists>go t'. ae_entry req j t = Some (go, t') \<and>
      (if go then ae_prefix req r (Suc j) (fst t') \<and> ?D t' else ?D t')"
      using e(1) by auto
  qed simp
  then show ?thesis using assms(6) by (auto split: if_splits)
qed

lemma ae_tail_durable:
  assumes "durable r w" and "raft_wf r" and "state r \<noteq> LEADER" and "ae_len_ok req"
    and "ae_tail r req resp w = Some (resp', r', w')"
  shows "durable r' w'"
proof (cases "prev_ok req (entries r)")
  case False
  then have "ae_tail r req resp w = Some (resp, mutex_unlock r, w)"
    by (simp add: ae_tail_def ae_prev_matches_spec [OF assms(2)])
  then show ?thesis using assms(1,5) by simp
next
  case True
  then have prev: "unat (ae_prevLogIndex req) \<le> unat (r_len r)"
    using entries_length [OF assms(2)] by (simp add: prev_ok_def Let_def)
  obtain go r1 w1 where e: "ae_entries req r w = Some (go, r1, w1)"
    using ae_entries_spec [OF assms(2-4) prev, of w] by blast
  have d: "durable r1 w1" by (rule ae_entries_durable [OF assms(1-4) prev e])
  have "durable (ae_learn_commit r1 req) w1 = durable r1 w1" by (rule durable_cong) simp_all
  then show ?thesis
    using assms(5) True e d by (auto simp: ae_tail_def ae_prev_matches_spec [OF assms(2)] split: if_splits)
qed

lemma HandleAppendEntriesRequest_body_durable:
  assumes "durable r w" and "HandleAppendEntriesRequest_body r req w = Some (resp, r', w')"
    and "raft_idle r" and "ae_len_ok req"
  shows "durable r' w'"
proof (cases "ae_term req < r_term r")
  case True
  then show ?thesis
    using assms(1-3) by (auto simp: HandleAppendEntriesRequest_body_def raft_idle_def)
next
  case False
  have wf: "raft_wf r" and free: "\<not> mu r" using assms(3) by (simp_all add: raft_idle_def)
  obtain rc r1 w1 where a: "adopt_term (r\<lparr>mu := True\<rparr>) (ae_term req) w = (rc, r1, w1)"
    by (metis prod_cases3)
  have d1: "rc = 0" "durable r1 w1" using adopt_term_durable [OF _ a] assms(1) by simp_all
  obtain r2 w2 where r2: "retimed (ae_follow r1 req) r2" "\<exists>c n. w2 = w1\<lparr>clock_s := c, rand_s := n\<rparr>"
    and body: "HandleAppendEntriesRequest_body r req w =
      (if rc < 0 then Some (\<lparr>aer_term = r_term r, aer_success = False, aer_matchIndex = 0\<rparr>, mutex_unlock r1, w1)
       else ae_tail r2 req \<lparr>aer_term = r_term r1, aer_success = False, aer_matchIndex = 0\<rparr> w2)"
    using HandleAppendEntriesRequest_body_unfold [OF free False a] by blast
  have "raft_wf r1" using adopt_term_facts(1) [OF a] wf by simp
  then have wf2: "raft_wf r2" using ae_follow_wf retimed_wf [OF r2(1)] by simp
  have st2: "state r2 \<noteq> LEADER" using retimed_fields(1) [OF r2(1)] by (simp split: if_splits)
  have "durable (ae_follow r1 req) w1 = durable r1 w1" by (rule durable_cong) simp_all
  then have "durable r2 w1" using d1(2) durable_retimed [OF r2(1), of w1] by blast
  then have "durable r2 w2" using r2(2) by auto
  then show ?thesis
    using ae_tail_durable [OF _ wf2 st2 assms(4)] assms(2) body d1(1) by simp
qed

lemma HandleAppendEntriesResponse_durable:
  assumes "durable r w" and "HandleAppendEntriesResponse r resp peer w = Some (r', w')" and "raft_idle r"
    and ok: "ack_ok resp r"
  shows "durable r' w'"
proof (cases "state r = LEADER \<and> r_term r < aer_term resp")
  case True
  have free: "\<not> mu r" using assms(3) by (simp add: raft_idle_def)
  obtain rc r1 w1 where u: "update_term_locked (r\<lparr>mu := True\<rparr>) (aer_term resp) w = (rc, r1, w1)"
    by (metis prod_cases3)
  have "durable r1 w1" using update_term_locked_durable [OF _ u] assms(1) by simp
  moreover have "HandleAppendEntriesResponse r resp peer w = Some (mutex_unlock r1, w1)"
    using True free u by (auto simp: HandleAppendEntriesResponse_def)
  ultimately show ?thesis using assms(2) by simp
next
  case False
  have free: "\<not> mu r" using assms(3) by (simp add: raft_idle_def)
  have w: "w' = w"
    using False free assms(2)
    by (auto simp: HandleAppendEntriesResponse_def Let_def bind_eq_Some_conv split: if_splits)
  have ps: "pstate r' = pstate r \<and> same_config r r'"
    using HandleAppendEntriesResponse_cases [OF assms(3) ok, of peer w] assms(2) False
    by (auto simp: evolves_def Let_def split: if_splits)
  show ?thesis using assms(1) ps w durable_cong [of r' r w w] by (simp add: same_config_def)
qed

text \<open>A leader whose log file works and has room accepts a command.\<close>

lemma leader_accepts:
  assumes "durable r w" and "raft_idle r" and "state r = LEADER" and "unat (r_len r) < RAFT_LOG_CAP"
  shows "\<exists>w'. raft_leader_send_command_body r c w = Some (0, append_command r c, w') \<and>
    durable (append_command r c) w'"
proof -
  have wf: "raft_wf r" and free: "\<not> mu r" using assms(2) by (simp_all add: raft_idle_def)
  have len: "length (entries r) = unat (r_len r)" "length (r_log r) = 1024" "unat (r_len r) < 1024"
    using entries_length [OF wf] wf_lengths(2) [OF wf] assms(4) by (simp_all add: RAFT_LOG_CAP_def)
  let ?e = "\<lparr>le_index = r_len r + 1, le_term = r_term r, le_command = c\<rparr>"
  have "journal (r\<lparr>mu := True\<rparr>) w (r_term r, r_voted r, entries r)"
    using assms(1) by (simp add: durable_def durable_part_def journal_def)
  then obtain w1 where w1: "persist_log_entry_locked (r\<lparr>mu := True\<rparr>) ?e w = (0, w1)"
    "journal (r\<lparr>mu := True\<rparr>) w1 (r_term r, r_voted r, entries r @ [?e])"
    using persist_entry_durable [of "r\<lparr>mu := True\<rparr>" w _ _ "entries r" ?e] len
    by (auto simp: unat_Suc_64 RAFT_LOG_CAP_def)
  obtain rc r' w' where b: "raft_leader_send_command_body r c w = Some (rc, r', w')"
    "rc = 0 \<Longrightarrow> r' = append_command r c"
    using raft_leader_send_command_body_cases [OF assms(2), of c w] by auto
  have "rc = 0 \<and> w' = w1"
    using b(1) assms(3) free w1(1) len
    by (auto simp: raft_leader_send_command_body_def raft_last_log_index_def RAFT_LOG_CAP_def Let_def
        split: if_splits)
  moreover have "durable (append_command r c) w1"
    using w1(2) append_command_wf(2) [OF wf len(3)]
    by (simp add: durable_def durable_part_def journal_def append_command_fields)
  ultimately show ?thesis using b by simp
qed

lemma raft_leader_send_command_body_durable:
  assumes "durable r w" and "raft_leader_send_command_body r c w = Some (rc, r', w')" and "raft_idle r"
  shows "durable r' w'"
proof (cases "state r = LEADER \<and> unat (r_len r) < RAFT_LOG_CAP")
  case True
  then show ?thesis using leader_accepts [OF assms(1,3), of c] assms(2) by simp
next
  case False
  then have "raft_leader_send_command_body r c w = Some (- 1, r, w)"
    using assms(3) by (auto simp: raft_leader_send_command_body_def raft_idle_def unlock_lock RAFT_LOG_CAP_def)
  then show ?thesis using assms(1,2) by simp
qed

end
