(* ===== verification/Raft_Machine.thy ===== *)
theory Raft_Machine
  imports Raft_Durability
begin

text \<open>
  The node as a machine: the calls its owner can make, one constructor per exported function
  of \<open>raft.c\<close>, and what every sequence of calls keeps.  The contract that all operations
  share is the interface \<open>node_machine\<close>; the lemmas about sequences are proved from it once.
\<close>

section \<open>Calls\<close>

datatype node_op =
    TimeoutOp "raft_message list" size_t
  | VoteRequestOp RequestVoteRequest
  | VoteResponseOp RequestVoteResponse raft_node_id_t
  | AppendRequestOp AppendEntriesRequest
  | AppendResponseOp AppendEntriesResponse raft_node_id_t
  | HeartbeatOp AppendEntriesRequest
  | SendEntriesOp size_t AppendEntriesRequest
  | CommitOp "LogEntry list" size_t
  | CommandOp client_command
  | UpdateTermOp raft_term_t

datatype node_reply =
    NoReply
  | VoteRequests "raft_message list"
  | VoteReply RequestVoteResponse
  | AppendReply AppendEntriesResponse
  | AppendRequest "AppendEntriesRequest option"
  | Committed "LogEntry list"
  | Status int

text \<open>
  What the caller owes: buffers as long as the capacity it passes, requests that say no more
  entries than they hold, acknowledgements of entries the leader has, and no election in the
  last 64-bit term, after which the counter would wrap to zero.
\<close>

fun op_ok :: "node_op \<Rightarrow> raft_node \<Rightarrow> bool" where
  "op_ok (TimeoutOp out cap) r = (unat cap \<le> length out \<and> r_term r < - 1)"
| "op_ok (AppendRequestOp req) r = ae_len_ok req"
| "op_ok (AppendResponseOp resp peer) r = ack_ok resp r"
| "op_ok (CommitOp out cap) r = (unat cap \<le> length out)"
| "op_ok _ r = True"

fun node_step :: "node_op \<Rightarrow> raft_node \<Rightarrow> world \<Rightarrow> (node_reply \<times> raft_node \<times> world) option" where
  "node_step (TimeoutOp out cap) r w = do {
     (n, out, r, w) \<leftarrow> raft_timeout_body r out cap w;
     Some (VoteRequests (take (unat n) out), r, w)
   }"
| "node_step (VoteRequestOp req) r w = do {
     (resp, r, w) \<leftarrow> HandleRequestVoteRequest_body r req w;
     Some (VoteReply resp, r, w)
   }"
| "node_step (VoteResponseOp resp peer) r w = do {
     (r, w) \<leftarrow> HandleRequestVoteResponse_body r resp peer w;
     Some (NoReply, r, w)
   }"
| "node_step (AppendRequestOp req) r w = do {
     (resp, r, w) \<leftarrow> HandleAppendEntriesRequest_body r req w;
     Some (AppendReply resp, r, w)
   }"
| "node_step (AppendResponseOp resp peer) r w = do {
     (r, w) \<leftarrow> HandleAppendEntriesResponse r resp peer w;
     Some (NoReply, r, w)
   }"
| "node_step (HeartbeatOp req) r w = do {
     (b, req, r) \<leftarrow> heartbeat_tick r req;
     Some (AppendRequest (if b then Some req else None), r, w)
   }"
| "node_step (SendEntriesOp i req) r w = do {
     (b, req, r) \<leftarrow> raft_append_entries_body r i req;
     Some (AppendRequest (if b then Some req else None), r, w)
   }"
| "node_step (CommitOp out cap) r w = do {
     (n, out, r) \<leftarrow> raft_commit_entry_body r out cap;
     Some (Committed (take (unat n) out), r, w)
   }"
| "node_step (CommandOp c) r w = do {
     (rc, r, w) \<leftarrow> raft_leader_send_command_body r c w;
     Some (Status rc, r, w)
   }"
| "node_step (UpdateTermOp t) r w = do {
     (q, w) \<leftarrow> update_term (Some r) t w;
     r \<leftarrow> q;
     Some (NoReply, r, w)
   }"

text \<open>A sequence of calls, and that each is made as the caller owes.\<close>

primrec run_calls ::
  "('op \<Rightarrow> raft_node \<Rightarrow> world \<Rightarrow> ('out \<times> raft_node \<times> world) option) \<Rightarrow> 'op list \<Rightarrow> raft_node \<Rightarrow> world
    \<Rightarrow> (raft_node \<times> world) option" where
  "run_calls step [] r w = Some (r, w)"
| "run_calls step (op # ops) r w = do { (out, r, w) \<leftarrow> step op r w; run_calls step ops r w }"

primrec calls_ok ::
  "('op \<Rightarrow> raft_node \<Rightarrow> bool) \<Rightarrow> ('op \<Rightarrow> raft_node \<Rightarrow> world \<Rightarrow> ('out \<times> raft_node \<times> world) option)
    \<Rightarrow> 'op list \<Rightarrow> raft_node \<Rightarrow> world \<Rightarrow> bool" where
  "calls_ok ok step [] r w = True"
| "calls_ok ok step (op # ops) r w =
     (ok op r \<and> (case step op r w of None \<Rightarrow> True | Some (out, r, w) \<Rightarrow> calls_ok ok step ops r w))"

section \<open>The contract\<close>

locale node_machine =
  fixes ok :: "'op \<Rightarrow> raft_node \<Rightarrow> bool"
    and step :: "'op \<Rightarrow> raft_node \<Rightarrow> world \<Rightarrow> ('out \<times> raft_node \<times> world) option"
  assumes step_total: "\<lbrakk>raft_idle r; ok op r\<rbrakk> \<Longrightarrow>
      \<exists>out r' w'. step op r w = Some (out, r', w') \<and> raft_idle r' \<and> evolves r r'"
    and step_durable: "\<lbrakk>raft_idle r; ok op r; durable r w; step op r w = Some (out, r', w')\<rbrakk> \<Longrightarrow> durable r' w'"
begin

lemma run_total:
  "raft_idle r \<Longrightarrow> calls_ok ok step ops r w \<Longrightarrow>
     \<exists>r' w'. run_calls step ops r w = Some (r', w') \<and> raft_idle r' \<and> evolves r r'"
proof (induction ops arbitrary: r w)
  case (Cons op ops)
  then obtain out r1 w1 where 1: "step op r w = Some (out, r1, w1)" "raft_idle r1" "evolves r r1"
    using step_total [of r op w] by auto
  with Cons.prems have "calls_ok ok step ops r1 w1" by simp
  then obtain r2 w2 where "run_calls step ops r1 w1 = Some (r2, w2)" "raft_idle r2" "evolves r1 r2"
    using Cons.IH [OF 1(2)] by blast
  with 1 show ?case using evolves_trans by auto
qed simp

lemma run_durable:
  "raft_idle r \<Longrightarrow> calls_ok ok step ops r w \<Longrightarrow> durable r w \<Longrightarrow>
     run_calls step ops r w = Some (r', w') \<Longrightarrow> durable r' w'"
proof (induction ops arbitrary: r w)
  case (Cons op ops)
  then obtain out r1 w1 where 1: "step op r w = Some (out, r1, w1)" "raft_idle r1"
    using step_total [of r op w] by auto
  with Cons.prems have "calls_ok ok step ops r1 w1" "durable r1 w1" "run_calls step ops r1 w1 = Some (r', w')"
    using step_durable [of r op w out r1 w1] by simp_all
  with Cons.IH 1(2) show ?case by blast
qed simp

end

section \<open>The operations meet it\<close>

lemma update_term_cases:
  assumes "raft_idle r"
  shows "\<exists>r' w'. update_term (Some r) t w = Some (Some r', w') \<and> raft_idle r' \<and> evolves r r' \<and>
    no_promotion r r' \<and> vote_kept r r' \<and> (state r' = LEADER \<longrightarrow> r' = r) \<and> r_term r' = max (r_term r) t \<and> r_log r' = r_log r \<and> r_len r' = r_len r \<and>
    (durable r w \<longrightarrow> durable r' w')"
proof -
  have wf: "raft_wf (r\<lparr>mu := True\<rparr>)" and free: "\<not> mu r" using assms by (simp_all add: raft_idle_def)
  obtain rc r1 w1 where u: "update_term_locked (r\<lparr>mu := True\<rparr>) t w = (rc, r1, w1)" by (metis prod_cases3)
  have "update_term (Some r) t w = Some (Some (mutex_unlock r1), w1)"
    using free u by (simp add: update_term_def)
  moreover have "r_log r1 = r_log r \<and> r_len r1 = r_len r"
    using update_term_locked_new(3,4) [OF u] u by (cases "t \<le> r_term r") auto
  moreover have "durable r w \<longrightarrow> durable r1 w1" using update_term_locked_durable(2) [OF _ u] by simp
  ultimately show ?thesis
    using update_term_locked_wf [OF u wf] update_term_locked_evolves(1,3,4) [OF u] update_term_locked_no_promotion [OF u]
      update_term_locked_kept [OF u] unlock_lock [OF free]
    by (auto simp: raft_idle_def vote_kept_def)
qed

lemma timeout_idle_evolves:
  assumes "raft_idle r" and "r_term r < - 1"
    and "retimed r r' \<or> r' = candidate_of r \<or> retimed (new_leader (campaigner r)) r' \<or> retimed (campaigner r) r'"
  shows "raft_wf r'" "evolves r r'"
proof -
  have wf: "raft_wf r" using assms(1) by (simp add: raft_idle_def)
  have lt: "r_term r < r_term r + 1" using unat_Suc_64 [of "r_term r"] assms(2)
    by (simp add: word_less_nat_alt unsigned_minus_1_eq_mask mask_eq_exp_minus_1)
  have e: "evolves r (candidate_of r)" "evolves r (campaigner r)" "evolves r (new_leader (campaigner r))"
    using lt by (simp_all add: evolves_def same_config_def vote_stable_def)
  show "raft_wf r'" "evolves r r'"
    using assms(3) e wf candidate_wf campaigner_wf new_leader_wf retimed_wf retimed_evolves by auto
qed

lemma node_step_total:
  assumes "raft_idle r" and "op_ok op r"
  shows "\<exists>out r' w'. node_step op r w = Some (out, r', w') \<and> raft_idle r' \<and> evolves r r'"
proof (cases op)
  case (TimeoutOp out cap)
  then have cap: "unat cap \<le> length out" and t: "r_term r < - 1" using assms(2) by simp_all
  obtain n out' r' w' where 1: "raft_timeout_body r out cap w = Some (n, out', r', w')" "\<not> mu r'"
    and "retimed r r' \<or> r' = candidate_of r \<or> retimed (new_leader (campaigner r)) r' \<or> retimed (campaigner r) r'"
    using raft_timeout_body_cases [OF assms(1) cap, of w] by blast
  from timeout_idle_evolves [OF assms(1) t this(3)] 1 TimeoutOp show ?thesis by (simp add: raft_idle_def)
next
  case (VoteRequestOp req)
  then show ?thesis using HandleRequestVoteRequest_body_cases [OF assms(1), of req w] by auto
next
  case (VoteResponseOp resp peer)
  then show ?thesis using HandleRequestVoteResponse_body_cases [OF assms(1), of resp peer w] by auto
next
  case (AppendRequestOp req)
  then show ?thesis using HandleAppendEntriesRequest_body_cases [OF assms(1), of req w] assms(2) by auto
next
  case (AppendResponseOp resp peer)
  then show ?thesis using HandleAppendEntriesResponse_cases [OF assms(1), of resp peer w] assms(2) by auto
next
  case (HeartbeatOp req)
  then show ?thesis using heartbeat_tick_cases [OF assms(1), of req] assms(1) by simp
next
  case (SendEntriesOp i req)
  then show ?thesis using raft_append_entries_body_cases [OF assms(1), of i req] assms(1) by simp
next
  case (CommitOp out cap)
  have "evolves r (set_applied x r)" for x by (rule evolves_same) (simp_all add: same_config_def)
  with CommitOp show ?thesis using raft_commit_entry_body_cases [OF assms(1), of cap out] assms by simp
next
  case (CommandOp c)
  then show ?thesis using raft_leader_send_command_body_cases [OF assms(1), of c w] by auto
next
  case (UpdateTermOp t)
  then show ?thesis using update_term_cases [OF assms(1), of t w] by auto
qed

lemma node_step_durable:
  assumes "raft_idle r" and "op_ok op r" and "durable r w" and "node_step op r w = Some (out, r', w')"
  shows "durable r' w'"
proof (cases op)
  case (CommitOp out cap)
  have "durable (set_applied x r) w = durable r w" for x by (rule durable_cong) simp_all
  with CommitOp show ?thesis using raft_commit_entry_body_cases [OF assms(1), of cap out] assms by auto
next
  case (UpdateTermOp t)
  then show ?thesis using update_term_cases [OF assms(1), of t w] assms(3,4) by auto
next
  case (HeartbeatOp req)
  then show ?thesis using heartbeat_tick_cases [OF assms(1), of req] assms by (auto split: if_splits)
next
  case (SendEntriesOp i req)
  then show ?thesis using raft_append_entries_body_cases [OF assms(1), of i req] assms by (auto split: if_splits)
qed (use assms in \<open>auto simp: bind_eq_Some_conv
    dest: raft_timeout_body_durable HandleRequestVoteRequest_body_durable
      HandleRequestVoteResponse_body_durable HandleAppendEntriesRequest_body_durable
      HandleAppendEntriesResponse_durable raft_leader_send_command_body_durable\<close>)

interpretation raft: node_machine op_ok node_step
  by unfold_locales (use node_step_total node_step_durable in blast)+

end
