(* ===== verification/Raft_Restart.thy ===== *)
theory Raft_Restart
  imports Raft_Machine
begin

text \<open>
  Whole-node properties: any sequence of calls on an idle node, and stopping and restarting
  a node between calls.
\<close>

text \<open>The owner fills in the peers of a freshly initialised node.\<close>

definition set_peers :: "raft_peer list \<Rightarrow> raft_node \<Rightarrow> raft_node" where
  "set_peers ps r = r\<lparr>peers := ps @ drop (length ps) (peers r), peer_count := of_nat (length ps)\<rparr>"

lemma set_peers_fields [simp]:
  "state (set_peers ps r) = state r" "pstate (set_peers ps r) = pstate r" "vstate (set_peers ps r) = vstate r"
  "cstate (set_peers ps r) = cstate r" "lstate (set_peers ps r) = lstate r" "node_id (set_peers ps r) = node_id r"
  "mu (set_peers ps r) = mu r" "log_file (set_peers ps r) = log_file r"
  "peer_count (set_peers ps r) = of_nat (length ps)"
  by (simp_all add: set_peers_def)

lemma set_peers_idle:
  assumes "started nid r" and "length ps \<le> RAFT_MAX_PEERS"
  shows "raft_idle (set_peers ps r)"
  using assms
  by (auto simp: started_def raft_idle_def raft_wf_defs set_peers_def RAFT_MAX_PEERS_def)

lemma set_peers_ids:
  assumes "length ps \<le> RAFT_MAX_PEERS"
  shows "peer_ids (set_peers ps r) = map peer_id ps"
  using assms by (simp add: peer_ids_def set_peers_def RAFT_MAX_PEERS_def)

lemma set_peers_durable: "durable (set_peers ps r) w = durable r w"
  by (rule durable_cong) simp_all

lemma evolves_node_id: "evolves r r' \<Longrightarrow> node_id r' = node_id r"
  by (simp add: evolves_def same_config_def)

text \<open>A durable node can be stopped at any moment.\<close>

lemma durable_restart:
  assumes "durable r w"
  shows "\<exists>r' w'. initialise_raft_sm_body (node_id r) w = Some (r', w') \<and> started (node_id r) r' \<and>
    durable_part r' = durable_part r \<and> durable r' w'"
  using initialise_raft_sm_restores [of w "node_id r" "durable_part r"] assms
  by (auto simp: durable_def journal_def)

section \<open>Properties\<close>

text \<open>
  C4.  A sequence of calls on an idle node reaches no undefined behaviour (an array access out of
  bounds, a mutex taken twice), whatever the clock, the random numbers and the failures of the
  file are, as long as each call meets its precondition \<open>op_ok\<close>: a request does not claim more
  entries than its array holds (the code does not check this), an acknowledgement does not go
  beyond the leader's log, an output array has the size it is said to have, and no election is
  started in the last term.  Afterwards the node is idle and well formed again, its identity and peers
  are as before, its term did not go back, and a vote it had cast in its term stands.
\<close>

theorem node_calls_safe:
  assumes "raft_idle r" and "calls_ok op_ok node_step ops r w"
  shows "\<exists>r' w'. run_calls node_step ops r w = Some (r', w') \<and> raft_idle r' \<and> same_config r r' \<and>
    r_term r \<le> r_term r' \<and>
    (r_term r' = r_term r \<and> r_voted r \<noteq> RAFT_NONE \<longrightarrow> r_voted r' = r_voted r)"
  using raft.run_total [OF assms] by (auto simp: evolves_def vote_stable_def)

definition sample_world :: world where
  "sample_world =
     \<lparr>clock_s = sconst (Some (5, 0)), rand_s = sconst 7, call_s = sconst None, files = (\<lambda>_. None),
      next_fd = 3, project_root = ''/srv''\<rparr>"

definition sample_node :: raft_node where
  "sample_node = set_peers [zero_peer\<lparr>peer_id := 2\<rparr>, zero_peer\<lparr>peer_id := 3\<rparr>] (blank_node 1)"

definition sample_calls :: "node_op list" where
  "sample_calls =
     [VoteRequestOp \<lparr>rv_term = 4, rv_lastLogIndex = 0, rv_lastLogTerm = 0, rv_candidateId = 2\<rparr>,
      HeartbeatOp \<lparr>ae_term = 4, ae_leaderId = 2, ae_prevLogIndex = 0, ae_prevLogTerm = 0,
        ae_leaderCommit = 0, ae_log_len = 0, ae_log = []\<rparr>,
      AppendRequestOp \<lparr>ae_term = 4, ae_leaderId = 2, ae_prevLogIndex = 0, ae_prevLogTerm = 0,
        ae_leaderCommit = 1, ae_log_len = 1, ae_log = [zero_entry\<lparr>le_index := 1, le_term := 4\<rparr>]\<rparr>,
      UpdateTermOp 6]"

lemma blank_started: "started nid (blank_node nid)"
  using restored_started(1) [of nid "blank_node nid"] restored_from_refl [OF blank_restoring] by simp

lemma sample_node_idle: "raft_idle sample_node"
  unfolding sample_node_def by (rule set_peers_idle [OF blank_started]) (simp add: RAFT_MAX_PEERS_def)

lemma sample_calls_ok: "calls_ok op_ok node_step sample_calls r w"
  unfolding sample_calls_def calls_ok.simps op_ok.simps
  by (auto simp: ae_len_ok_def simp del: node_step.simps split: option.split)

theorem node_calls_safe_witness:
  "\<exists>r' w'. run_calls node_step sample_calls sample_node sample_world = Some (r', w') \<and> raft_idle r' \<and>
    same_config sample_node r' \<and> r_term sample_node \<le> r_term r' \<and>
    (r_term r' = r_term sample_node \<and> r_voted sample_node \<noteq> RAFT_NONE \<longrightarrow> r_voted r' = r_voted sample_node)"
  by (rule node_calls_safe [OF sample_node_idle sample_calls_ok])

text \<open>
  C5.  Crash recovery.  Start a node where there is no log file yet, give it its peers, make
  any sequence of calls that meet their preconditions (those of \<open>node_calls_safe\<close>), and start it again from the
  file those calls left: the new process has the same term, the same vote and the same entries,
  and the calls themselves returned.  This holds as long as no operation on a file fails; after a
  failed write the memory is ahead of the file.
\<close>

theorem restart_recovers:
  assumes "reliable w" and "files w (raft_log_path (project_root w) nid) = None"
    and "length ps \<le> RAFT_MAX_PEERS"
    and "\<And>r w'. initialise_raft_sm_body nid w = Some (r, w') \<Longrightarrow> calls_ok op_ok node_step ops (set_peers ps r) w'"
  shows "\<exists>r w1 r1 w2 r2 w3. initialise_raft_sm_body nid w = Some (r, w1) \<and>
    run_calls node_step ops (set_peers ps r) w1 = Some (r1, w2) \<and>
    initialise_raft_sm_body nid w2 = Some (r2, w3) \<and>
    r_term r2 = r_term r1 \<and> r_voted r2 = r_voted r1 \<and> entries r2 = entries r1"
proof -
  obtain r w1 where 1: "initialise_raft_sm_body nid w = Some (r, w1)" "started nid r" "durable r w1"
    using initialise_raft_sm_restores [OF assms(1), of nid fresh_state] assms(2) by blast
  have idle: "raft_idle (set_peers ps r)" using 1(2) assms(3) by (rule set_peers_idle)
  note calls = assms(4) [OF 1(1)]
  obtain r1 w2 where 2: "run_calls node_step ops (set_peers ps r) w1 = Some (r1, w2)"
    "evolves (set_peers ps r) r1"
    using raft.run_total [OF idle calls] by blast
  have "durable r1 w2"
    using raft.run_durable [OF idle calls _ 2(1)] 1(3) by (simp add: set_peers_durable)
  moreover have "node_id r1 = nid"
    using evolves_node_id [OF 2(2)] 1(2) by (simp add: started_def)
  ultimately show ?thesis
    using 1(1) 2(1) durable_restart [of r1 w2] by (auto simp: durable_part_def)
qed

theorem restart_recovers_witness:
  "\<exists>r w1 r1 w2 r2 w3. initialise_raft_sm_body 1 sample_world = Some (r, w1) \<and>
    run_calls node_step sample_calls (set_peers [zero_peer] r) w1 = Some (r1, w2) \<and>
    initialise_raft_sm_body 1 w2 = Some (r2, w3) \<and>
    r_term r2 = r_term r1 \<and> r_voted r2 = r_voted r1 \<and> entries r2 = entries r1"
  by (rule restart_recovers)
    (simp_all add: sample_world_def reliable_def RAFT_MAX_PEERS_def sample_calls_ok)

end
