(* ===== verification/Raft_Cluster.thy ===== *)
theory Raft_Cluster
  imports Raft_Restart
begin

text \<open>
  Several nodes and the messages between them.  Every node runs the operations of \<open>raft.c\<close> in
  its own world; the network may lose, repeat, delay and reorder messages, and nodes may stop
  and start again from their log files.  The main result is election safety: two leaders of
  the same term are the same node.
\<close>

section \<open>Quorums\<close>

locale quorum =
  fixes is_quorum :: "'a set \<Rightarrow> 'a set \<Rightarrow> bool"
  assumes meet: "\<lbrakk>is_quorum M Q; is_quorum M Q'\<rbrakk> \<Longrightarrow> \<exists>x \<in> M. x \<in> Q \<and> x \<in> Q'"
begin

text \<open>Two quorums that each agree on a choice agree on the same choice.\<close>

lemma one_choice:
  assumes "is_quorum M Q" and "is_quorum M Q'"
    and "\<forall>x \<in> Q. f x = Some a" and "\<forall>x \<in> Q'. f x = Some b"
  shows "a = b"
proof -
  obtain x where "x \<in> Q" "x \<in> Q'" using meet [OF assms(1,2)] by blast
  with assms(3,4) show ?thesis by fastforce
qed

end

text \<open>The quorums of the code: the \<open>majority\<close> of the cluster.\<close>

definition vote_quorum :: "raft_node_id_t set \<Rightarrow> raft_node_id_t set \<Rightarrow> bool" where
  "vote_quorum M Q =
     (finite M \<and> card M < 2 ^ 64 \<and> Q \<subseteq> M \<and> unat (majority (of_nat (card M))) \<le> card Q)"

lemma vote_quorum_meet:
  assumes "vote_quorum M Q" and "vote_quorum M Q'"
  shows "\<exists>x \<in> M. x \<in> Q \<and> x \<in> Q'"
proof (rule ccontr)
  assume "\<not> ?thesis"
  then have dis: "Q \<inter> Q' = {}" using assms by (auto simp: vote_quorum_def)
  have fin: "finite M" "Q \<subseteq> M" "Q' \<subseteq> M" using assms by (auto simp: vote_quorum_def)
  have "card M < card Q + card Q'"
    using assms by (auto simp: vote_quorum_def unat_majority)
  also have "card Q + card Q' = card (Q \<union> Q')"
    using dis fin by (metis card_Un_disjoint finite_subset)
  also have "\<dots> \<le> card M" using fin by (intro card_mono) auto
  finally show False by simp
qed

interpretation votes: quorum vote_quorum
  by unfold_locales (rule vote_quorum_meet)

section \<open>The cluster\<close>

record packet =
  pk_src :: raft_node_id_t
  pk_dst :: raft_node_id_t
  pk_body :: raft_body

text \<open>
  The last component is a history: whom each node voted for in each term.  The nodes do not
  read it.  The members of \<open>journaled\<close> are those whose log file never fails; only they restart.
\<close>

record cluster =
  members :: "raft_node_id_t set"
  conf :: "raft_node_id_t \<Rightarrow> raft_peer list"
  journaled :: "raft_node_id_t set"
  nodes :: "raft_node_id_t \<Rightarrow> raft_node"
  worlds :: "raft_node_id_t \<Rightarrow> world"
  net :: "packet set"
  ballots :: "raft_node_id_t \<Rightarrow> raft_term_t \<Rightarrow> raft_node_id_t option"

definition note_vote :: "raft_node \<Rightarrow> (raft_term_t \<Rightarrow> raft_node_id_t option) \<Rightarrow> raft_term_t \<Rightarrow> raft_node_id_t option" where
  "note_vote r B = (if r_voted r = RAFT_NONE then B else B(r_term r \<mapsto> r_voted r))"

text \<open>The message a call handles, if it handles one, and the messages it sends.\<close>

fun received :: "node_op \<Rightarrow> raft_body option" where
  "received (VoteRequestOp req) = Some (request_vote req)"
| "received (VoteResponseOp resp _) = Some (request_vote_response resp)"
| "received (AppendRequestOp req) = Some (append_entry req)"
| "received (AppendResponseOp resp _) = Some (append_entry_response resp)"
| "received _ = None"

text \<open>The sender the owner passes along with a response is the one it came from.\<close>

fun names_sender :: "node_op \<Rightarrow> raft_node_id_t \<Rightarrow> bool" where
  "names_sender (VoteResponseOp _ peer) from = (peer = from)"
| "names_sender (AppendResponseOp _ peer) from = (peer = from)"
| "names_sender _ _ = True"

fun sends :: "node_op \<Rightarrow> raft_node_id_t \<Rightarrow> raft_node \<Rightarrow> node_reply \<Rightarrow> (raft_node_id_t \<times> raft_body) set" where
  "sends _ _ r (VoteRequests ms) = {(peer_ids r ! unat (msg_peer_idx m), msg_body m) |m. m \<in> set ms}"
| "sends _ from _ (VoteReply resp) = {(from, request_vote_response resp)}"
| "sends _ from _ (AppendReply resp) = {(from, append_entry_response resp)}"
| "sends (SendEntriesOp i _) _ r (AppendRequest (Some req)) = {(peer_ids r ! unat i, append_entry req)}"
| "sends _ _ r (AppendRequest (Some req)) = {(d, append_entry req) |d. d \<in> set (peer_ids r)}"
| "sends _ _ _ _ = {}"

definition enabled :: "cluster \<Rightarrow> raft_node_id_t \<Rightarrow> raft_node_id_t \<Rightarrow> node_op \<Rightarrow> bool" where
  "enabled C i from op =
     (names_sender op from \<and>
      (case received op of
         Some b \<Rightarrow> \<lparr>pk_src = from, pk_dst = i, pk_body = b\<rparr> \<in> net C
       | None \<Rightarrow> op_ok op (nodes C i)))"

definition after_call ::
  "cluster \<Rightarrow> raft_node_id_t \<Rightarrow> (raft_node_id_t \<times> raft_body) set \<Rightarrow> raft_node \<Rightarrow> world \<Rightarrow> cluster" where
  "after_call C i out r w =
     C\<lparr>nodes := (nodes C)(i := r), worlds := (worlds C)(i := w),
       net := net C \<union> (\<lambda>(d, b). \<lparr>pk_src = i, pk_dst = d, pk_body = b\<rparr>) ` out,
       ballots := (ballots C)(i := note_vote r (ballots C i))\<rparr>"

inductive cluster_step :: "cluster \<Rightarrow> cluster \<Rightarrow> bool" where
  call: "\<lbrakk>i \<in> members C; enabled C i from op;
          node_step op (nodes C i) (worlds C i) = Some (reply, r, w)\<rbrakk>
    \<Longrightarrow> cluster_step C (after_call C i (sends op from (nodes C i) reply) r w)"
| restart: "\<lbrakk>i \<in> members C; i \<in> journaled C;
          initialise_raft_sm_body i (worlds C i) = Some (r, w)\<rbrakk>
    \<Longrightarrow> cluster_step C (after_call C i {} (set_peers (conf C i) r) w)"

inductive_cases cluster_stepE: "cluster_step C C'"

definition conf_ok :: "cluster \<Rightarrow> bool" where
  "conf_ok C =
     (finite (members C) \<and> RAFT_NONE \<notin> members C \<and>
      (\<forall>i \<in> members C. length (conf C i) \<le> RAFT_MAX_PEERS \<and> distinct (map peer_id (conf C i)) \<and>
         set (map peer_id (conf C i)) = members C - {i}))"

text \<open>All nodes start without a log file, with their peers configured and no message sent.\<close>

definition cluster_init :: "cluster \<Rightarrow> bool" where
  "cluster_init C =
     (conf_ok C \<and> net C = {} \<and> ballots C = (\<lambda>_ _. None) \<and>
      (\<forall>i \<in> members C. \<exists>w r. files w (raft_log_path (project_root w) i) = None \<and>
         (i \<in> journaled C \<longrightarrow> reliable w) \<and>
         initialise_raft_sm_body i w = Some (r, worlds C i) \<and> nodes C i = set_peers (conf C i) r))"

inductive reachable :: "cluster \<Rightarrow> bool" where
  start: "cluster_init C \<Longrightarrow> reachable C"
| step: "\<lbrakk>reachable C; cluster_step C C'\<rbrakk> \<Longrightarrow> reachable C'"

section \<open>What one call does to the roles\<close>

definition role_kept :: "raft_node \<Rightarrow> raft_node \<Rightarrow> bool" where
  "role_kept r r' = (no_promotion r r' \<and> (state r' = LEADER \<longrightarrow> unat (r_len r) \<le> unat (r_len r')))"

definition vote_counted :: "raft_node \<Rightarrow> RequestVoteResponse \<Rightarrow> raft_node_id_t \<Rightarrow> raft_node \<Rightarrow> bool" where
  "vote_counted r resp peer r' =
     (state r = CANDIDATE \<and> rvr_term resp = r_term r \<and> electionterm (cstate r) = r_term r \<and>
      (\<exists>k < unat (peer_count r). peer_ids r ! k = peer \<and> vote_outcome r k (rvr_voteGranted resp) r'))"

definition elected_self :: "raft_node \<Rightarrow> raft_node \<Rightarrow> bool" where
  "elected_self r r' =
     (r_term r < r_term r' \<and>
      (r' = candidate_of r \<or> retimed (campaigner r) r' \<or>
       peer_count r = 0 \<and> retimed (new_leader (campaigner r)) r'))"

lemma role_kept_retimed: "retimed r r' \<Longrightarrow> role_kept r r'"
  by (simp add: role_kept_def retimed_no_promotion retimed_fields)

lemma term_next: "r_term r < - 1 \<Longrightarrow> r_term r < r_term r + 1"
  using unat_Suc_64 [of "r_term r"]
  by (simp add: word_less_nat_alt unsigned_minus_1_eq_mask mask_eq_exp_minus_1)

lemma node_step_roles:
  assumes "raft_idle r" and "op_ok op r" and "node_step op r w = Some (reply, r', w')"
  shows "role_kept r r' \<or> elected_self r r' \<or>
    (\<exists>resp peer. op = VoteResponseOp resp peer \<and> vote_counted r resp peer r')"
proof (cases op)
  case (TimeoutOp out cap)
  then have cap: "unat cap \<le> length out" and t: "r_term r < r_term r + 1"
    using assms(2) term_next [of r] by simp_all
  obtain n out' q v where 1: "raft_timeout_body r out cap w = Some (n, out', q, v)"
    and q: "retimed r q \<or> q = candidate_of r \<or> peer_count r = 0 \<and> retimed (new_leader (campaigner r)) q \<or>
      retimed (campaigner r) q"
    using raft_timeout_body_cases [OF assms(1) cap, of w] by blast
  have "r' = q" using 1 TimeoutOp assms(3) by simp
  moreover have "role_kept r q \<or> elected_self r q"
    using q t role_kept_retimed by (auto simp: elected_self_def retimed_fields)
  ultimately show ?thesis by blast
next
  case (VoteRequestOp req)
  then show ?thesis
    using HandleRequestVoteRequest_body_cases [OF assms(1), of req w] assms(3) by (auto simp: role_kept_def)
next
  case (VoteResponseOp resp peer)
  then show ?thesis
    using HandleRequestVoteResponse_body_cases [OF assms(1), of resp peer w] assms(3)
    by (auto simp: role_kept_def vote_counted_def)
next
  case (AppendRequestOp req)
  then show ?thesis
    using HandleAppendEntriesRequest_body_cases [OF assms(1), of req w] assms(2,3) by (auto simp: role_kept_def)
next
  case (AppendResponseOp resp peer)
  then show ?thesis
    using HandleAppendEntriesResponse_cases [OF assms(1), of resp peer w] assms(2,3) by (auto simp: role_kept_def)
next
  case (HeartbeatOp req)
  then show ?thesis
    using heartbeat_tick_cases [OF assms(1), of req] assms(3) by (auto simp: role_kept_def split: if_splits)
next
  case (SendEntriesOp i req)
  then show ?thesis
    using raft_append_entries_body_cases [OF assms(1), of i req] assms(3) by (auto simp: role_kept_def split: if_splits)
next
  case (CommitOp out cap)
  then show ?thesis
    using raft_commit_entry_body_cases [OF assms(1), of cap out] assms(2,3)
    by (auto simp: role_kept_def no_promotion_def)
next
  case (CommandOp c)
  obtain rc q v where 1: "raft_leader_send_command_body r c w = Some (rc, q, v)" "no_promotion r q"
    "if rc = 0 then state r = LEADER \<and> unat (r_len r) < RAFT_LOG_CAP \<and> q = append_command r c
     else q = r \<or> state r = LEADER \<and> q = r\<lparr>state := FAILED\<rparr>"
    using raft_leader_send_command_body_cases [OF assms(1), of c w] by blast
  have "unat (r_len r) \<le> unat (r_len q)"
    using 1(3) by (auto simp: append_command_def Let_def unat_Suc_64 RAFT_LOG_CAP_def split: if_splits)
  then show ?thesis using 1 CommandOp assms(3) by (auto simp: role_kept_def)
next
  case (UpdateTermOp t)
  then show ?thesis using update_term_cases [OF assms(1), of t w] assms(3) by (auto simp: role_kept_def)
qed

section \<open>What one call sends\<close>

text \<open>The end of the entries a request carries.\<close>

abbreviation ae_end :: "AppendEntriesRequest \<Rightarrow> nat" where
  "ae_end req \<equiv> unat (ae_prevLogIndex req) + unat (ae_log_len req)"

fun body_ok :: "node_op \<Rightarrow> raft_node \<Rightarrow> raft_node \<Rightarrow> raft_body \<Rightarrow> bool" where
  "body_ok op r r' (request_vote rq) = (rv_candidateId rq = node_id r \<and> rv_term rq = r_term r')"
| "body_ok op r r' (request_vote_response resp) =
     (\<exists>rq. op = VoteRequestOp rq \<and> rvr_term resp = r_term r \<and>
        (rvr_voteGranted resp \<longrightarrow> r_term r' = rv_term rq \<and> r_voted r' = rv_candidateId rq))"
| "body_ok op r r' (append_entry rq) =
     (ae_len_ok rq \<and> ae_term rq = r_term r' \<and> state r' = LEADER \<and> ae_end rq \<le> unat (r_len r'))"
| "body_ok op r r' (append_entry_response resp) =
     (\<exists>rq. op = AppendRequestOp rq \<and>
        (aer_success resp \<longrightarrow> aer_term resp = ae_term rq \<and> unat (aer_matchIndex resp) = ae_end rq))"

lemma slice_request_ok:
  assumes "raft_idle r" and "state r = LEADER" and "i < unat (peer_count r)"
  shows "ae_len_ok (slice_request r i)" "ae_end (slice_request r i) \<le> unat (r_len r)"
    "ae_term (slice_request r i) = r_term r"
proof -
  have wf: "raft_wf r" using assms(1) by (simp add: raft_idle_def)
  let ?nx = "next_index (lstate r) ! i"
  note nx = wf_next_index [OF wf assms(2,3)]
  have len: "length (entries r) = unat (r_len r)" "unat (r_len r) \<le> 1024"
    using entries_length [OF wf] wf_bounds(2) [OF wf] by simp_all
  have p: "unat (?nx - 1) = unat ?nx - 1" using nx(1) by (rule unat_pred_64)
  have b: "length (batch_for r i) = min 64 (unat (r_len r) - (unat ?nx - 1))"
    using len by (simp add: batch_for_def RAFT_APPEND_BATCH_def)
  then show "ae_len_ok (slice_request r i)" "ae_term (slice_request r i) = r_term r"
    by (simp_all add: slice_request_def ae_len_ok_def Let_def)
  have "unat ?nx - 1 \<le> unat (r_len r)" using nx(2) by simp
  then show "ae_end (slice_request r i) \<le> unat (r_len r)"
    using b p by (simp add: slice_request_def Let_def)
qed

lemma node_step_sends:
  assumes "raft_idle r" and "op_ok op r" and "node_step op r w = Some (reply, r', w')"
    and "(d, b) \<in> sends op from r reply"
  shows "body_ok op r r' b \<and> (if received op = None then d \<in> set (peer_ids r) else d = from)"
proof (cases op)
  case (TimeoutOp out cap)
  then have cap: "unat cap \<le> length out" using assms(2) by simp
  obtain n out' where 1: "raft_timeout_body r out cap w = Some (n, out', r', w')"
    and reply: "reply = VoteRequests (take (unat n) out')"
    using TimeoutOp assms(3) by (auto simp: bind_eq_Some_conv)
  have wf: "raft_wf r" using assms(1) by (simp add: raft_idle_def)
  have pc: "unat (peer_count r) \<le> 8" "length (peers r) = 8" using wf_bounds(1) [OF wf] wf_lengths(1) [OF wf] by simp_all
  from raft_timeout_body_cases [OF assms(1) cap, of w] 1
  have "n = 0 \<or> retimed (campaigner r) r' \<and>
     (\<exists>lt. n = of_nat (min (unat (peer_count r)) (unat cap)) \<and>
         out' = map (vote_message (vote_request r' lt)) [0..<min (unat (peer_count r)) (unat cap)] @
           drop (min (unat (peer_count r)) (unat cap)) out)"
    by auto
  then show ?thesis
  proof
    assume "n = 0"
    then show ?thesis using reply assms(4) by simp
  next
    define k where "k = min (unat (peer_count r)) (unat cap)"
    assume "retimed (campaigner r) r' \<and>
     (\<exists>lt. n = of_nat (min (unat (peer_count r)) (unat cap)) \<and>
         out' = map (vote_message (vote_request r' lt)) [0..<min (unat (peer_count r)) (unat cap)] @
           drop (min (unat (peer_count r)) (unat cap)) out)"
    then obtain lt where rt: "retimed (campaigner r) r'" and k: "k \<le> unat (peer_count r)" "n = of_nat k"
      "out' = map (vote_message (vote_request r' lt)) [0..<k] @ drop k out"
      unfolding k_def [symmetric] by (auto simp: k_def)
    have "take (unat n) out' = map (vote_message (vote_request r' lt)) [0..<k]" using k pc by simp
    then obtain j where j: "j < k" "d = peer_ids r ! j" "b = request_vote (vote_request r' lt)"
      using assms(4) reply k(1) pc by (auto simp: vote_message_def)
    moreover have "length (peer_ids r) = unat (peer_count r)" using pc by (simp add: peer_ids_def)
    ultimately show ?thesis
      using k(1) retimed_fields(6) [OF rt] TimeoutOp by (auto simp: vote_request_def)
  qed
next
  case (VoteRequestOp req)
  then show ?thesis
    using HandleRequestVoteRequest_body_cases [OF assms(1), of req w] assms(3,4) by auto
next
  case (AppendRequestOp req)
  obtain resp q v where 1: "HandleAppendEntriesRequest_body r req w = Some (resp, q, v)" "raft_idle q"
    "if aer_success resp
     then r_term r \<le> ae_term req \<and> aer_term resp = ae_term req \<and> ae_accepted req r resp q
     else ae_rejected req r q"
    using HandleAppendEntriesRequest_body_cases [OF assms(1), of req w] assms(2) AppendRequestOp by auto
  have "unat (aer_matchIndex resp) = ae_end req" if "aer_success resp"
  proof -
    have "ae_end req \<le> unat (r_len q)" "aer_matchIndex resp = ae_prevLogIndex req + ae_log_len req"
      using that 1(3) by (simp_all add: ae_accepted_def)
    moreover have "unat (r_len q) \<le> 1024" using 1(2) wf_bounds(2) by (simp add: raft_idle_def)
    ultimately show ?thesis by (simp add: unat_add_64)
  qed
  then show ?thesis using 1 AppendRequestOp assms(3,4) by auto
next
  case (HeartbeatOp req)
  then show ?thesis
    using heartbeat_tick_cases [OF assms(1), of req] assms(3,4)
    by (auto simp: ae_len_ok_def split: if_splits)
next
  case (SendEntriesOp i req)
  have wf: "raft_wf r" using assms(1) by (simp add: raft_idle_def)
  have pc: "length (peer_ids r) = unat (peer_count r)"
    using wf_bounds(1) [OF wf] wf_lengths(1) [OF wf] by (simp add: peer_ids_def)
  show ?thesis
    using SendEntriesOp raft_append_entries_body_cases [OF assms(1), of i req] assms(3,4) pc
      slice_request_ok [OF assms(1), of "unat i"]
    by (auto simp: word_less_nat_alt split: if_splits)
qed (use assms in \<open>auto simp: bind_eq_Some_conv\<close>)

section \<open>The invariant\<close>

text \<open>The history agrees with the vote the node holds and has nothing beyond its term.\<close>

definition history_ok :: "raft_node \<Rightarrow> (raft_term_t \<Rightarrow> raft_node_id_t option) \<Rightarrow> bool" where
  "history_ok r B =
     ((\<forall>t v. B t = Some v \<longrightarrow> t \<le> r_term r) \<and>
      B (r_term r) = (if r_voted r = RAFT_NONE then None else Some (r_voted r)))"

definition tally_ok :: "cluster \<Rightarrow> raft_node \<Rightarrow> bool" where
  "tally_ok C r =
     (electionterm (cstate r) \<le> r_term r \<and>
      (state r = CANDIDATE \<longrightarrow> r_voted r = node_id r \<and>
        (electionterm (cstate r) = r_term r \<longrightarrow>
          (\<forall>k < unat (peer_count r). votes_granted (cstate r) ! k \<longrightarrow>
             ballots C (peer_ids r ! k) (r_term r) = Some (node_id r)))))"

definition leader_ok :: "cluster \<Rightarrow> raft_node \<Rightarrow> bool" where
  "leader_ok C r =
     (state r = LEADER \<longrightarrow>
      (\<exists>Q. vote_quorum (members C) Q \<and> (\<forall>v \<in> Q. ballots C v (r_term r) = Some (node_id r))))"

definition node_inv :: "cluster \<Rightarrow> raft_node_id_t \<Rightarrow> bool" where
  "node_inv C i =
     (let r = nodes C i in
      raft_idle r \<and> node_id r = i \<and> peer_ids r = map peer_id (conf C i) \<and>
      (i \<in> journaled C \<longrightarrow> durable r (worlds C i)) \<and>
      history_ok r (ballots C i) \<and> tally_ok C r \<and> leader_ok C r)"

text \<open>A leader that is still in the term of a request has all the entries up to its end.\<close>

definition holds_up_to :: "raft_node \<Rightarrow> raft_term_t \<Rightarrow> nat \<Rightarrow> bool" where
  "holds_up_to r t n =
     (t \<le> r_term r \<and>
      (t = r_term r \<longrightarrow> state r \<noteq> CANDIDATE \<and> (state r = LEADER \<longrightarrow> n \<le> unat (r_len r))))"

fun body_inv :: "cluster \<Rightarrow> raft_node_id_t \<Rightarrow> raft_node_id_t \<Rightarrow> raft_body \<Rightarrow> bool" where
  "body_inv C from d (request_vote rq) = (rv_candidateId rq = from \<and> rv_term rq \<le> r_term (nodes C from))"
| "body_inv C from d (request_vote_response resp) =
     (rvr_voteGranted resp \<longrightarrow>
      ballots C from (rvr_term resp) = Some d \<or> rvr_term resp < r_term (nodes C d))"
| "body_inv C from d (append_entry rq) = (ae_len_ok rq \<and> holds_up_to (nodes C from) (ae_term rq) (ae_end rq))"
| "body_inv C from d (append_entry_response resp) =
     (aer_success resp \<longrightarrow> holds_up_to (nodes C d) (aer_term resp) (unat (aer_matchIndex resp)))"

definition packet_inv :: "cluster \<Rightarrow> packet \<Rightarrow> bool" where
  "packet_inv C p = (pk_src p \<in> members C \<and> pk_dst p \<in> members C \<and> body_inv C (pk_src p) (pk_dst p) (pk_body p))"

definition cluster_inv :: "cluster \<Rightarrow> bool" where
  "cluster_inv C =
     (conf_ok C \<and> (\<forall>i \<in> members C. node_inv C i) \<and> (\<forall>p \<in> net C. packet_inv C p))"

section \<open>Its parts move forward\<close>

lemma history_step:
  assumes "history_ok r B" and "vote_stable r r'"
  shows "history_ok r' (note_vote r' B)" "B \<subseteq>\<^sub>m note_vote r' B"
proof -
  consider (later) "r_term r < r_term r'" | (same) "r_term r = r_term r'" "r_voted r = RAFT_NONE \<or> r_voted r' = r_voted r"
    using assms(2) by (auto simp: vote_stable_def)
  then have "history_ok r' (note_vote r' B) \<and> B \<subseteq>\<^sub>m note_vote r' B"
  proof cases
    case later
    then have "B (r_term r') = None" using assms(1) by (fastforce simp: history_ok_def)
    then show ?thesis
      using assms(1) later by (auto simp: history_ok_def note_vote_def map_le_def)
  next
    case same
    then show ?thesis
      using assms(1) by (auto simp: history_ok_def note_vote_def map_le_def split: if_splits)
  qed
  then show "history_ok r' (note_vote r' B)" "B \<subseteq>\<^sub>m note_vote r' B" by simp_all
qed

definition forward :: "raft_node \<Rightarrow> raft_node \<Rightarrow> bool" where
  "forward r r' =
     (r_term r < r_term r' \<or>
      r_term r = r_term r' \<and> (state r' = CANDIDATE \<longrightarrow> state r = CANDIDATE) \<and>
      (state r' = LEADER \<longrightarrow> state r = CANDIDATE \<or> state r = LEADER \<and> unat (r_len r) \<le> unat (r_len r')))"

lemma forward_refl: "forward r r"
  by (simp add: forward_def)

lemma forward_term: "forward r r' \<Longrightarrow> r_term r \<le> r_term r'"
  by (auto simp: forward_def)

lemma holds_forward: "holds_up_to r t n \<Longrightarrow> forward r r' \<Longrightarrow> holds_up_to r' t n"
  by (auto simp: holds_up_to_def forward_def)

definition ballots_grow :: "cluster \<Rightarrow> cluster \<Rightarrow> bool" where
  "ballots_grow C C' = (\<forall>i. ballots C i \<subseteq>\<^sub>m ballots C' i)"

lemma ballots_growD: "ballots_grow C C' \<Longrightarrow> ballots C i t = Some v \<Longrightarrow> ballots C' i t = Some v"
  by (auto simp: ballots_grow_def map_le_def dom_def)

lemma body_inv_forward:
  assumes "body_inv C from d b" and "ballots_grow C C'" and "\<And>i. forward (nodes C i) (nodes C' i)"
  shows "body_inv C' from d b"
proof (cases b)
  case (append_entry rq)
  with assms show ?thesis by (auto intro: holds_forward)
next
  case (append_entry_response resp)
  with assms show ?thesis by (auto intro: holds_forward)
next
  case (request_vote rq)
  with assms forward_term show ?thesis by (fastforce intro: order_trans)
next
  case (request_vote_response resp)
  with assms forward_term ballots_growD show ?thesis by (fastforce intro: less_le_trans)
qed

lemma leader_ok_grow: "leader_ok C r \<Longrightarrow> ballots_grow C C' \<Longrightarrow> members C' = members C \<Longrightarrow> leader_ok C' r"
  unfolding leader_ok_def using ballots_growD by metis

lemma tally_ok_grow: "tally_ok C r \<Longrightarrow> ballots_grow C C' \<Longrightarrow> tally_ok C' r"
  unfolding tally_ok_def using ballots_growD by metis

section \<open>Winning an election\<close>

text \<open>A node and enough of its peers are a quorum.\<close>

lemma peer_quorum:
  assumes conf: "conf_ok C" and i: "node_id r \<in> members C" and ids: "peer_ids r = map peer_id (conf C (node_id r))"
    and wf: "raft_wf r" and K: "K \<subseteq> {..<unat (peer_count r)}" and many: "Suc (unat (peer_count r)) div 2 \<le> card K"
  shows "vote_quorum (members C) (insert (node_id r) ((!) (peer_ids r) ` K))"
proof -
  let ?i = "node_id r" and ?p = "(!) (peer_ids r)"
  let ?Q = "insert ?i (?p ` K)"
  have len: "length (peer_ids r) = unat (peer_count r)"
    using wf_bounds(1) [OF wf] wf_lengths(1) [OF wf] by (simp add: peer_ids_def)
  have dist: "distinct (peer_ids r)" "set (peer_ids r) = members C - {?i}" and fin: "finite (members C)"
    using conf i ids by (auto simp: conf_ok_def)
  have sub: "?p ` K \<subseteq> members C - {?i}" using K len dist(2) by (metis (no_types, lifting)
        image_subset_iff lessThan_iff nth_mem subset_iff)
  have "inj_on ?p K" using K len dist(1) by (auto simp: inj_on_def nth_eq_iff_index_eq subset_iff)
  then have "card (?p ` K) = card K" by (rule card_image)
  moreover have "?i \<notin> ?p ` K" using sub by blast
  moreover have "finite K" using K finite_subset by blast
  ultimately have "card ?Q = Suc (card K)" by simp
  moreover have "card (members C) = Suc (unat (peer_count r))"
  proof -
    have "card (members C - {?i}) = unat (peer_count r)"
      using distinct_card [OF dist(1)] dist(2) len by simp
    then show ?thesis using card_Suc_Diff1 [OF fin i] by simp
  qed
  moreover have "unat (peer_count r) \<le> 8" by (rule wf_bounds(1) [OF wf])
  ultimately show ?thesis
    using fin sub i many by (auto simp: vote_quorum_def unat_majority simp del: of_nat_Suc)
qed

text \<open>A candidate whose tally reaches the majority has a quorum of votes.\<close>

lemma tally_quorum:
  assumes conf: "conf_ok C" and i: "node_id r \<in> members C" and ids: "peer_ids r = map peer_id (conf C (node_id r))"
    and wf: "raft_wf r"
    and self: "ballots C (node_id r) t = Some (node_id r)"
    and peers: "\<forall>k \<in> granted_by r. ballots C (peer_ids r ! k) t = Some (node_id r)"
    and many: "Suc (unat (peer_count r)) div 2 \<le> card (granted_by r)"
  shows "\<exists>Q. vote_quorum (members C) Q \<and> (\<forall>v \<in> Q. ballots C v t = Some (node_id r))"
proof -
  have "granted_by r \<subseteq> {..<unat (peer_count r)}" by (auto simp: granted_by_def)
  from peer_quorum [OF conf i ids wf this many] self peers show ?thesis by blast
qed

section \<open>Every step keeps the invariant\<close>

lemma inv_node:
  assumes "cluster_inv C" and "i \<in> members C"
  shows "raft_idle (nodes C i)" "node_id (nodes C i) = i" "peer_ids (nodes C i) = map peer_id (conf C i)"
    "i \<in> journaled C \<Longrightarrow> durable (nodes C i) (worlds C i)"
    "history_ok (nodes C i) (ballots C i)" "tally_ok C (nodes C i)" "leader_ok C (nodes C i)"
  using assms by (auto simp: cluster_inv_def node_inv_def Let_def)

lemma inv_packet:
  assumes "cluster_inv C" and "\<lparr>pk_src = from, pk_dst = i, pk_body = b\<rparr> \<in> net C"
  shows "from \<in> members C" "i \<in> members C" "body_inv C from i b"
  using assms by (auto simp: cluster_inv_def packet_inv_def)

text \<open>What the network delivers is what the operations expect.\<close>

lemma enabled_op_ok:
  assumes "cluster_inv C" and "enabled C i from op"
  shows "op_ok op (nodes C i)"
proof (cases op)
  case (AppendRequestOp req)
  with assms inv_packet(3) [OF assms(1)] show ?thesis by (fastforce simp: enabled_def)
next
  case (AppendResponseOp resp peer)
  with assms have "body_inv C from i (append_entry_response resp)"
    using inv_packet(3) [OF assms(1)] by (fastforce simp: enabled_def)
  with AppendResponseOp show ?thesis by (auto simp: ack_ok_def holds_up_to_def)
qed (use assms in \<open>auto simp: enabled_def\<close>)

lemma roles_forward:
  assumes "evolves r r'"
    and "role_kept r r' \<or> elected_self r r' \<or>
      (\<exists>resp peer. op = VoteResponseOp resp peer \<and> vote_counted r resp peer r')"
  shows "forward r r'"
  using assms(2)
proof (elim disjE exE conjE)
  assume "role_kept r r'"
  then show ?thesis
    using assms(1) by (auto simp: role_kept_def no_promotion_def forward_def evolves_def vote_stable_def)
next
  assume "elected_self r r'"
  then show ?thesis by (simp add: elected_self_def forward_def)
next
  fix resp peer
  assume "vote_counted r resp peer r'"
  then show ?thesis by (auto simp: vote_counted_def vote_outcome_def forward_def Let_def split: if_splits)
qed

lemma after_call_fields [simp]:
  "members (after_call C i out r w) = members C" "conf (after_call C i out r w) = conf C"
  "journaled (after_call C i out r w) = journaled C"
  "nodes (after_call C i out r w) = (nodes C)(i := r)" "worlds (after_call C i out r w) = (worlds C)(i := w)"
  "ballots (after_call C i out r w) = (ballots C)(i := note_vote r (ballots C i))"
  "net (after_call C i out r w) = net C \<union> (\<lambda>(d, b). \<lparr>pk_src = i, pk_dst = d, pk_body = b\<rparr>) ` out"
  by (simp_all add: after_call_def)

lemma after_call_grow:
  assumes "history_ok (nodes C i) (ballots C i)" and "vote_stable (nodes C i) r"
  shows "ballots_grow C (after_call C i out r w)"
  using history_step(2) [OF assms] by (auto simp: ballots_grow_def)

text \<open>
  A step of node \<open>i\<close> keeps the invariant when the new node is as it should be and the new
  messages are.
\<close>

lemma after_call_inv:
  assumes inv: "cluster_inv C" and i: "i \<in> members C"
    and fwd: "forward (nodes C i) r" and vote: "vote_stable (nodes C i) r"
    and new: "raft_idle r" "node_id r = i" "peer_ids r = map peer_id (conf C i)"
      "i \<in> journaled C \<Longrightarrow> durable r w"
    and tally: "tally_ok (after_call C i out r w) r" and lead: "leader_ok (after_call C i out r w) r"
    and out: "\<And>d b. (d, b) \<in> out \<Longrightarrow> d \<in> members C \<and> body_inv (after_call C i out r w) i d b"
  shows "cluster_inv (after_call C i out r w)"
proof -
  let ?C = "after_call C i out r w"
  note h = inv_node(5) [OF inv i]
  have grow: "ballots_grow C ?C" using h vote by (rule after_call_grow)
  have fwds: "forward (nodes C j) (nodes ?C j)" for j using fwd by (simp add: forward_refl)
  have "node_inv ?C j" if "j \<in> members C" for j
  proof (cases "j = i")
    case True
    then show ?thesis
      using new tally lead history_step(1) [OF h vote] by (simp add: node_inv_def)
  next
    case False
    then show ?thesis
      using inv_node [OF inv that] tally_ok_grow [OF _ grow] leader_ok_grow [OF _ grow]
      by (simp add: node_inv_def)
  qed
  moreover have "packet_inv ?C p" if "p \<in> net ?C" for p
  proof -
    from that consider "p \<in> net C" | d b where "(d, b) \<in> out" "p = \<lparr>pk_src = i, pk_dst = d, pk_body = b\<rparr>"
      by auto
    then show ?thesis
    proof cases
      case 1
      then have "packet_inv C p" using inv by (simp add: cluster_inv_def)
      then show ?thesis using body_inv_forward [OF _ grow fwds] by (simp add: packet_inv_def)
    next
      case 2
      then show ?thesis using out i by (simp add: packet_inv_def)
    qed
  qed
  moreover have "conf_ok ?C" using inv by (simp add: cluster_inv_def conf_ok_def)
  ultimately show ?thesis by (simp add: cluster_inv_def)
qed

lemma evolves_peer_ids: "evolves r r' \<Longrightarrow> peer_ids r' = peer_ids r"
  by (simp add: evolves_def same_config_def peer_ids_def)

lemma own_ballot: "r_voted r \<noteq> RAFT_NONE \<Longrightarrow> ballots (after_call C i out r w) i (r_term r) = Some (r_voted r)"
  by (simp add: note_vote_def)

lemma zero_tally [simp]: "electionterm zero_cstate = 0" "k < 8 \<Longrightarrow> \<not> votes_granted zero_cstate ! k"
  by (simp_all add: zero_cstate_def RAFT_MAX_PEERS_def)

lemma kept_tally:
  assumes "tally_ok C r" and "role_kept r r'" and ev: "evolves r r'" and "ballots_grow C C'"
    and "node_id r \<noteq> RAFT_NONE"
  shows "tally_ok C' r'"
proof -
  have ids: "node_id r' = node_id r" "peer_ids r' = peer_ids r" "peer_count r' = peer_count r"
    using ev by (auto simp: evolves_peer_ids evolves_def same_config_def)
  have np: "no_promotion r r'" using assms(2) by (simp add: role_kept_def)
  have le: "electionterm (cstate r) \<le> r_term r" "r_term r \<le> r_term r'"
    using assms(1) ev by (auto simp: tally_ok_def evolves_def vote_stable_def)
  have "cstate r' = cstate r \<or> cstate r' = zero_cstate" using np by (simp add: no_promotion_def)
  then have el: "electionterm (cstate r') \<le> r_term r'" using le by auto
  have t: "tally_ok C' r" using assms(1,4) by (rule tally_ok_grow)
  show ?thesis
  proof (cases "state r' = CANDIDATE")
    case True
    then have c: "state r = CANDIDATE" "r_term r' = r_term r" "cstate r' = cstate r"
      using np by (simp_all add: no_promotion_def)
    then have "r_voted r = node_id r" using t by (simp add: tally_ok_def)
    then have "r_voted r' = node_id r" using ev c(2) assms(5) by (auto simp: evolves_def vote_stable_def)
    then show ?thesis using t c True ids el by (simp add: tally_ok_def)
  qed (simp add: tally_ok_def el)
qed

lemma elected_tally:
  assumes "tally_ok C r" and "elected_self r r'" and "raft_wf r"
  shows "tally_ok C' r'"
proof -
  have lt: "r_term r < r_term r'" using assms(2) by (simp add: elected_self_def)
  have pc: "unat (peer_count r) \<le> 8" by (rule wf_bounds(1) [OF assms(3)])
  from assms(2) consider "r' = candidate_of r" | "retimed (campaigner r) r'"
    | "retimed (new_leader (campaigner r)) r'" by (auto simp: elected_self_def)
  then show ?thesis
  proof cases
    case 1
    have "electionterm (cstate r) \<le> r_term r" using assms(1) by (simp add: tally_ok_def)
    then have "electionterm (cstate r') < r_term r'" using 1 lt le_less_trans by auto
    with 1 show ?thesis by (auto simp: tally_ok_def)
  next
    case 2
    then show ?thesis using pc by (auto simp: tally_ok_def retimed_fields)
  next
    case 3
    then show ?thesis by (auto simp: tally_ok_def retimed_fields)
  qed
qed

lemma counted_tally:
  assumes "tally_ok C r" and "vote_counted r resp peer r'" and "ballots_grow C C'" and "raft_wf r"
    and vote: "rvr_voteGranted resp \<Longrightarrow> ballots C' peer (r_term r) = Some (node_id r)"
  shows "tally_ok C' r'"
    and "\<forall>k \<in> granted_by r'. ballots C' (peer_ids r' ! k) (r_term r') = Some (node_id r')"
    and "state r' = LEADER \<Longrightarrow> Suc (unat (peer_count r')) div 2 \<le> card (granted_by r')"
    and "r_voted r' = node_id r'"
proof -
  let ?g = "rvr_voteGranted resp"
  obtain k where c: "state r = CANDIDATE" "electionterm (cstate r) = r_term r"
    and k: "k < unat (peer_count r)" "peer_ids r ! k = peer" "vote_outcome r k ?g r'"
    using assms(2) by (auto simp: vote_counted_def)
  let ?q = "record_vote r k ?g"
  have len: "length (votes_granted (cstate r)) = 8" "unat (peer_count r) \<le> 8"
    using wf_lengths(4) [OF assms(4)] wf_bounds(1) [OF assms(4)] by simp_all
  have r': "r' = (new_leader ?q)\<lparr>latest_heartbeat_ms := 0\<rparr> \<and>
      Suc (unat (peer_count r)) div 2 \<le> card (granted_by ?q) \<or> r' = ?q"
    using k(3) by (auto simp: vote_outcome_def Let_def split: if_splits)
  then have f: "r_term r' = r_term r" "r_voted r' = r_voted r" "node_id r' = node_id r" "peers r' = peers r"
    "peer_count r' = peer_count r" "cstate r' = cstate ?q"
    "state r' = LEADER \<Longrightarrow> Suc (unat (peer_count r)) div 2 \<le> card (granted_by ?q)"
    using c(1) by auto
  have ids: "peer_ids r' = peer_ids r" using f(4,5) by (simp add: peer_ids_def)
  have t: "tally_ok C' r" using assms(1,3) by (rule tally_ok_grow)
  have bits: "ballots C' (peer_ids r ! j) (r_term r) = Some (node_id r)"
    if "j < unat (peer_count r)" "votes_granted (cstate ?q) ! j" for j
  proof (cases "j = k")
    case True
    then show ?thesis using that k vote len by (simp add: nth_list_update)
  next
    case False
    then show ?thesis using that t c by (simp add: tally_ok_def)
  qed
  show "\<forall>k \<in> granted_by r'. ballots C' (peer_ids r' ! k) (r_term r') = Some (node_id r')"
    using bits f ids by (simp add: granted_by_def)
  show "r_voted r' = node_id r'" using f t c by (simp add: tally_ok_def)
  then show "tally_ok C' r'" using bits f ids c by (auto simp: tally_ok_def)
  have "granted_by r' = granted_by ?q" using f by (simp add: granted_by_def)
  then show "Suc (unat (peer_count r')) div 2 \<le> card (granted_by r')" if "state r' = LEADER"
    using that f by simp
qed

text \<open>The messages a call sends satisfy the invariant of messages.\<close>

lemma sent_ok:
  assumes inv: "cluster_inv C" and i: "i \<in> members C" and en: "enabled C i from op"
    and stp: "node_step op (nodes C i) (worlds C i) = Some (reply, r, w)"
    and fwd: "forward (nodes C i) r" and out: "(d, b) \<in> sends op from (nodes C i) reply"
  shows "d \<in> members C \<and> body_inv (after_call C i Out r w) i d b"
proof -
  let ?r = "nodes C i" and ?C = "after_call C i Out r w"
  note n = inv_node [OF inv i]
  have ok: "op_ok op ?r" using inv en by (rule enabled_op_ok)
  have snd: "body_ok op ?r r b" "if received op = None then d \<in> set (peer_ids ?r) else d = from"
    using node_step_sends [OF n(1) ok stp out] by auto
  have conf: "set (peer_ids ?r) \<subseteq> members C" "RAFT_NONE \<notin> members C"
    using inv i n(3) by (auto simp: cluster_inv_def conf_ok_def)
  have pk: "from \<in> members C" "body_inv C from i a" if "received op = Some a" for a
    using that en inv_packet [OF inv, of "from" i a] by (simp_all add: enabled_def)
  have fwds: "forward (nodes C j) (nodes ?C j)" for j using fwd by (simp add: forward_refl)
  have d: "d \<in> members C" using snd(2) conf(1) pk(1) by (cases "received op") auto
  have "body_inv ?C i d b"
  proof (cases b)
    case (request_vote rq)
    then show ?thesis using snd(1) n(2) by simp
  next
    case (append_entry rq)
    then show ?thesis using snd(1) by (simp add: holds_up_to_def)
  next
    case (append_entry_response resp)
    then obtain rq where rq: "op = AppendRequestOp rq"
      "aer_success resp \<longrightarrow> aer_term resp = ae_term rq \<and> unat (aer_matchIndex resp) = ae_end rq"
      using snd(1) by auto
    then have "holds_up_to (nodes C from) (ae_term rq) (ae_end rq)" "d = from" using pk snd(2) by auto
    then show ?thesis using rq(2) append_entry_response holds_forward [OF _ fwds] by auto
  next
    case (request_vote_response resp)
    then obtain rq where rq: "op = VoteRequestOp rq" "rvr_term resp = r_term ?r"
      "rvr_voteGranted resp \<longrightarrow> r_term r = rv_term rq \<and> r_voted r = rv_candidateId rq"
      using snd(1) by auto
    then have src: "rv_candidateId rq = from" "rv_term rq \<le> r_term (nodes C from)" "d = from" "from \<in> members C"
      using pk snd(2) by auto
    have "ballots ?C i (rvr_term resp) = Some d \<or> rvr_term resp < r_term (nodes ?C d)" if "rvr_voteGranted resp"
    proof (cases "r_term ?r = r_term r")
      case True
      have "r_voted r = d" "d \<noteq> RAFT_NONE" using that rq src conf(2) by auto
      then show ?thesis using True rq(2) own_ballot [of r C i Out w] by simp
    next
      case False
      then have "r_term ?r < r_term r" using fwd by (auto simp: forward_def)
      also have "r_term r \<le> r_term (nodes C d)" using that rq(3) src by simp
      also have "\<dots> \<le> r_term (nodes ?C d)" using forward_term [OF fwds] .
      finally show ?thesis using rq(2) by simp
    qed
    then show ?thesis using request_vote_response by simp
  qed
  with d show ?thesis by blast
qed

lemma call_keeps_inv:
  assumes inv: "cluster_inv C" and i: "i \<in> members C" and en: "enabled C i from op"
    and stp: "node_step op (nodes C i) (worlds C i) = Some (reply, r, w)"
  shows "cluster_inv (after_call C i (sends op from (nodes C i) reply) r w)"
proof -
  let ?r = "nodes C i" and ?out = "sends op from (nodes C i) reply"
  let ?C = "after_call C i ?out r w"
  note n = inv_node [OF inv i]
  have ok: "op_ok op ?r" using inv en by (rule enabled_op_ok)
  have new: "raft_idle r" and ev: "evolves ?r r" using node_step_total [OF n(1) ok, of "worlds C i"] stp by auto
  have vs: "vote_stable ?r r" using ev by (simp add: evolves_def)
  have roles: "role_kept ?r r \<or> elected_self ?r r \<or>
      (\<exists>resp peer. op = VoteResponseOp resp peer \<and> vote_counted ?r resp peer r)"
    using node_step_roles [OF n(1) ok stp] .
  have fwd: "forward ?r r" using ev roles by (rule roles_forward)
  have grow: "ballots_grow C ?C" using n(5) vs by (rule after_call_grow)
  have wf: "raft_wf ?r" "raft_wf r" using n(1) new by (simp_all add: raft_idle_def)
  have ids: "node_id r = i" "peer_ids r = map peer_id (conf C i)"
    using ev n(2,3) evolves_peer_ids by (auto simp: evolves_node_id)
  have conf: "conf_ok ?C" using inv by (simp add: cluster_inv_def conf_ok_def)
  have some: "i \<noteq> RAFT_NONE" using inv i by (auto simp: cluster_inv_def conf_ok_def)
  have quorum: "leader_ok ?C r"
    if "r_voted r = i" "\<forall>k \<in> granted_by r. ballots ?C (peer_ids r ! k) (r_term r) = Some i"
      "Suc (unat (peer_count r)) div 2 \<le> card (granted_by r)"
    using tally_quorum [OF conf _ _ wf(2), of "r_term r"] that own_ballot [of r C i ?out w] i ids some
    by (simp add: leader_ok_def)
  have "tally_ok ?C r \<and> leader_ok ?C r"
    using roles
  proof (elim disjE exE conjE)
    assume kept: "role_kept ?r r"
    have "leader_ok ?C ?r" using leader_ok_grow [OF n(7) grow] by simp
    then have "leader_ok ?C r" using kept ids n(2) by (auto simp: leader_ok_def role_kept_def no_promotion_def)
    then show ?thesis using kept_tally [OF n(6) kept ev grow] n(2) some by simp
  next
    assume el: "elected_self ?r r"
    have "leader_ok ?C r"
    proof (cases "state r = LEADER")
      case True
      then have "peer_count ?r = 0" "retimed (new_leader (campaigner ?r)) r"
        using el by (auto simp: elected_self_def retimed_fields)
      then show ?thesis using quorum n(2) by (simp add: retimed_fields granted_by_def)
    qed (simp add: leader_ok_def)
    then show ?thesis using elected_tally [OF n(6) el wf(1)] by blast
  next
    fix resp peer
    assume op: "op = VoteResponseOp resp peer" and vc: "vote_counted ?r resp peer r"
    have "\<lparr>pk_src = peer, pk_dst = i, pk_body = request_vote_response resp\<rparr> \<in> net C"
      using en op by (auto simp: enabled_def)
    from inv_packet(3) [OF inv this] have "body_inv C peer i (request_vote_response resp)" .
    then have "rvr_voteGranted resp \<Longrightarrow> ballots ?C peer (r_term ?r) = Some (node_id ?r)"
      using vc n(2) ballots_growD [OF grow] by (auto simp: vote_counted_def)
    note t = counted_tally [OF n(6) vc grow wf(1) this]
    have "leader_ok ?C r"
    proof (cases "state r = LEADER")
      case True
      then show ?thesis using quorum t(2,3,4) ids(1) by simp
    qed (simp add: leader_ok_def)
    then show ?thesis using t(1) by blast
  qed
  moreover have "durable r w" if "i \<in> journaled C"
    using node_step_durable [OF n(1) ok n(4) stp] that by blast
  ultimately show ?thesis
    using after_call_inv [OF inv i fwd vs new ids] sent_ok [OF inv i en stp fwd] by blast
qed

lemma restart_keeps_inv:
  assumes inv: "cluster_inv C" and i: "i \<in> members C" "i \<in> journaled C"
    and ini: "initialise_raft_sm_body i (worlds C i) = Some (r, w)"
  shows "cluster_inv (after_call C i {} (set_peers (conf C i) r) w)"
proof -
  let ?r = "nodes C i" and ?q = "set_peers (conf C i) r"
  note n = inv_node [OF inv i(1)]
  have st: "started i r" and part: "durable_part r = durable_part ?r" and dur: "durable r w"
    using durable_restart [OF n(4) [OF i(2)]] ini n(2) by auto
  have cl: "length (conf C i) \<le> RAFT_MAX_PEERS" using inv i(1) by (auto simp: cluster_inv_def conf_ok_def)
  have f: "r_term ?q = r_term ?r" "r_voted ?q = r_voted ?r" "state ?q = FOLLOWER" "cstate ?q = zero_cstate"
    "node_id ?q = i"
    using part st by (simp_all add: durable_part_def started_def)
  have fwd: "forward ?r ?q" using f(1,3) by (simp add: forward_def)
  have vs: "vote_stable ?r ?q" using f(1,2) by (simp add: vote_stable_def)
  have dq: "durable ?q w" using dur by (simp add: set_peers_durable)
  have "tally_ok C' ?q \<and> leader_ok C' ?q" for C' using f by (simp add: tally_ok_def leader_ok_def)
  then show ?thesis
    using after_call_inv [OF inv i(1) fwd vs set_peers_idle [OF st cl] f(5) set_peers_ids [OF cl], of w "{}"] dq
    by blast
qed

lemma step_keeps_inv: "cluster_step C C' \<Longrightarrow> cluster_inv C \<Longrightarrow> cluster_inv C'"
  by (erule cluster_stepE) (auto intro: call_keeps_inv restart_keeps_inv)

lemma fresh_part:
  assumes "files w (raft_log_path (project_root w) nid) = None" and "initialise_raft_sm_body nid w = Some (r, w')"
  shows "durable_part r = fresh_state"
proof -
  obtain r0 w0 where t: "retimed (blank_node nid) r0" and w0: "\<exists>c n. w0 = w\<lparr>rand_s := n, clock_s := c\<rparr>"
    and body: "initialise_raft_sm_body nid w = do {
      (rc, r, w) \<leftarrow> restore_pstate r0 w0;
      if rc = - 1 then Some (r, w) else let (ret, r, w) = create_log_file r w in Some (r, w) }"
    using initialise_unfold by blast
  note f = retimed_fields [OF t]
  have "durable_part r0 = fresh_state" using blank_part f by (simp add: durable_part_def entries_def)
  moreover have "log_path r0 w0 = raft_log_path (project_root w) nid" "files w0 = files w" using f w0 by auto
  then have "\<exists>rc w1. restore_pstate r0 w0 = Some (rc, r0, w1)"
    using assms(1) w0 by (cases "shd (call_s w0)") (auto simp: restore_pstate_def sys_call_def)
  ultimately show ?thesis
    using assms(2) body
    by (auto simp: create_log_file_def durable_part_def entries_def sys_call_def Let_def split: if_splits)
qed

lemma init_inv:
  assumes "cluster_init C"
  shows "cluster_inv C"
proof -
  have "node_inv C i" if i: "i \<in> members C" for i
  proof -
    obtain w r where 1: "files w (raft_log_path (project_root w) i) = None" "i \<in> journaled C \<longrightarrow> reliable w"
      "initialise_raft_sm_body i w = Some (r, worlds C i)" "nodes C i = set_peers (conf C i) r"
      using assms i by (auto simp: cluster_init_def)
    have st: "started i r" using initialise_raft_sm_total [of i w] 1(3) by auto
    have cl: "length (conf C i) \<le> RAFT_MAX_PEERS" using assms i by (auto simp: cluster_init_def conf_ok_def)
    have part: "durable_part r = fresh_state" using fresh_part [OF 1(1,3)] .
    have "durable r (worlds C i)" if "i \<in> journaled C"
      using initialise_raft_sm_restores [of w i fresh_state] 1 that by auto
    moreover have "ballots C i = (\<lambda>_. None)" using assms by (simp add: cluster_init_def)
    ultimately show ?thesis
      using st part set_peers_idle [OF st cl] set_peers_ids [OF cl] 1(4)
      by (simp add: node_inv_def history_ok_def tally_ok_def leader_ok_def durable_part_def fresh_state_def
          started_def set_peers_durable)
  qed
  then show ?thesis using assms by (simp add: cluster_inv_def cluster_init_def)
qed

lemma reachable_inv: "reachable C \<Longrightarrow> cluster_inv C"
  by (induction rule: reachable.induct) (auto intro: init_inv step_keeps_inv)

end
