(* ===== verification/Raft_Matching.thy ===== *)
theory Raft_Matching
  imports Raft_Election "HOL-Library.Sublist"
begin

text \<open>
  Log matching across a cluster: two logs that have an entry of the same term at the same
  position are equal up to that position.  The proof follows the log each leader has in its
  term: every entry anywhere, and every request under way, is a piece of the log of the leader
  of its term.
\<close>

section \<open>Logs made of pieces of leaders' logs\<close>

type_synonym leader_logs = "raft_term_t \<Rightarrow> LogEntry list"

definition backed :: "leader_logs \<Rightarrow> LogEntry list \<Rightarrow> bool" where
  "backed L l = (\<forall>k < length l. let m = L (le_term (l ! k)) in k < length m \<and> take (Suc k) l = take (Suc k) m)"

definition slice_of :: "leader_logs \<Rightarrow> AppendEntriesRequest \<Rightarrow> bool" where
  "slice_of L rq =
     (let m = L (ae_term rq); p = unat (ae_prevLogIndex rq) in
      p + unat (ae_log_len rq) \<le> length m \<and> (0 < p \<longrightarrow> ae_prevLogTerm rq = le_term (m ! (p - 1))) \<and>
      (\<forall>i < unat (ae_log_len rq). ae_log rq ! i = m ! (p + i)))"

definition longer :: "leader_logs \<Rightarrow> leader_logs \<Rightarrow> bool" where
  "longer L L' = (\<forall>t. prefix (L t) (L' t))"

lemma longer_refl [simp]: "longer L L"
  by (simp add: longer_def)

lemma longer_upd: "prefix (L t) l \<Longrightarrow> longer L (L(t := l))"
  by (simp add: longer_def)

lemma longer_nth: "longer L L' \<Longrightarrow> k < length (L t) \<Longrightarrow> L' t ! k = L t ! k \<and> k < length (L' t)"
  by (auto simp: longer_def prefix_def nth_append dest!: spec [of _ t])

lemma longer_take: "longer L L' \<Longrightarrow> k \<le> length (L t) \<Longrightarrow> take k (L' t) = take k (L t)"
  by (auto simp: longer_def prefix_def dest!: spec [of _ t])

lemma backed_Nil [simp]: "backed L []"
  by (simp add: backed_def)

lemma backedD: "backed L l \<Longrightarrow> k < length l \<Longrightarrow> take (Suc k) l = take (Suc k) (L (le_term (l ! k))) \<and> k < length (L (le_term (l ! k)))"
  by (simp add: backed_def Let_def)

lemma backed_take: "backed L l \<Longrightarrow> backed L (take n l)"
  by (simp add: backed_def Let_def min_def)

lemma backed_longer: "backed L l \<Longrightarrow> longer L L' \<Longrightarrow> backed L' l"
  using longer_nth longer_take by (fastforce simp: backed_def Let_def)

lemma slice_longer: "slice_of L rq \<Longrightarrow> longer L L' \<Longrightarrow> slice_of L' rq"
proof -
  assume s: "slice_of L rq" and l: "longer L L'"
  let ?m = "L (ae_term rq)" and ?m' = "L' (ae_term rq)" and ?p = "unat (ae_prevLogIndex rq)"
  have "prefix ?m ?m'" using l by (simp add: longer_def)
  then have "?m' ! k = ?m ! k" "length ?m \<le> length ?m'" if "k < length ?m" for k
    using that by (auto simp: prefix_def nth_append)
  then show ?thesis using s prefix_length_le [OF \<open>prefix ?m ?m'\<close>] by (auto simp: slice_of_def Let_def)
qed

text \<open>Same term at the same position: the same log up to there.\<close>

lemma backed_agree:
  assumes "backed L l" and "backed L m" and "k < length l" and "k < length m" and "le_term (l ! k) = le_term (m ! k)"
  shows "take (Suc k) l = take (Suc k) m"
  using backedD [OF assms(1,3)] backedD [OF assms(2,4)] assms(5) by simp

lemma merge_backed:
  assumes "backed L l" and "backed L m" and "take (p + i) l = take (p + i) m" and "p + i \<le> length l"
    and "p + i < length m" and "es ! i = m ! (p + i)"
  shows "backed L (merge_step p es i l)" "take (p + Suc i) (merge_step p es i l) = take (p + Suc i) m"
    "p + Suc i \<le> length (merge_step p es i l)"
proof -
  let ?l = "merge_step p es i l"
  have "backed L ?l \<and> take (p + Suc i) ?l = take (p + Suc i) m \<and> p + Suc i \<le> length ?l"
  proof (cases "p + i < length l \<and> le_term (l ! (p + i)) = le_term (m ! (p + i))")
    case True
    then have "?l = l" using assms(6) by (simp add: merge_step_def)
    then show ?thesis using True assms(1) backed_agree [OF assms(1,2) _ assms(5)] by simp
  next
    case False
    then have "?l = take (p + i) l @ [m ! (p + i)]" using assms(6) by (auto simp: merge_step_def)
    then have "?l = take (Suc (p + i)) m" using assms(3,5) by (simp add: take_Suc_conv_app_nth)
    then show ?thesis using backed_take [OF assms(2)] assms(5) by simp
  qed
  then show "backed L ?l" "take (p + Suc i) ?l = take (p + Suc i) m" "p + Suc i \<le> length ?l" by simp_all
qed

lemma prev_agrees:
  assumes "backed L l" and "backed L (L (ae_term rq))" and "slice_of L rq" and "prev_ok rq l"
  shows "take (unat (ae_prevLogIndex rq)) l = take (unat (ae_prevLogIndex rq)) (L (ae_term rq))"
    "unat (ae_prevLogIndex rq) \<le> length l"
proof -
  let ?p = "unat (ae_prevLogIndex rq)" and ?m = "L (ae_term rq)"
  have p: "?p \<le> length l" "0 < ?p \<Longrightarrow> le_term (l ! (?p - 1)) = ae_prevLogTerm rq" "?p \<le> length ?m"
    "0 < ?p \<Longrightarrow> ae_prevLogTerm rq = le_term (?m ! (?p - 1))"
    using assms(3,4) by (auto simp: prev_ok_def slice_of_def Let_def)
  then show "take ?p l = take ?p ?m"
    using backed_agree [OF assms(1,2), of "?p - 1"] by (cases "?p = 0") auto
  show "?p \<le> length l" by (rule p(1))
qed

text \<open>A merge of a request's entries, cut off anywhere, is made of such pieces.\<close>

lemma merged_backed:
  assumes "backed L l" and "backed L (L (ae_term rq))" and "slice_of L rq" and "prev_ok rq l" and "n \<le> unat (ae_log_len rq)"
  shows "backed L (merged rq n l) \<and>
    take (unat (ae_prevLogIndex rq) + n) (merged rq n l) = take (unat (ae_prevLogIndex rq) + n) (L (ae_term rq)) \<and>
    unat (ae_prevLogIndex rq) + n \<le> length (merged rq n l)"
  using assms(5)
proof (induction n)
  case 0
  then show ?case using prev_agrees [OF assms(1-4)] assms(1) by simp
next
  case (Suc n)
  let ?p = "unat (ae_prevLogIndex rq)"
  have "?p + n < length (L (ae_term rq))" "ae_log rq ! n = L (ae_term rq) ! (?p + n)"
    using assms(3) Suc.prems by (auto simp: slice_of_def Let_def)
  then show ?case
    using merge_backed [of L "merged rq n l" "L (ae_term rq)" ?p n "ae_log rq"] Suc assms(2)
    by (simp add: merged_Suc)
qed

section \<open>What a call does to the log of a node\<close>

definition merge_of :: "AppendEntriesRequest \<Rightarrow> LogEntry list \<Rightarrow> LogEntry list \<Rightarrow> bool" where
  "merge_of req l l' =
     (prev_ok req l \<and> (\<exists>n \<le> unat (ae_log_len req). l' = merged req n l \<or>
        n < unat (ae_log_len req) \<and> conflict_at req n (merged req n l) \<and>
        l' = take (unat (ae_prevLogIndex req) + n) (merged req n l)))"

lemma merge_of_backed:
  "backed L l \<Longrightarrow> backed L (L (ae_term rq)) \<Longrightarrow> slice_of L rq \<Longrightarrow> merge_of rq l l' \<Longrightarrow> backed L l'"
  using merged_backed backed_take unfolding merge_of_def by blast

lemma answer_merges:
  assumes "if aer_success resp then P \<and> ae_accepted req r resp r' else ae_rejected req r r'"
  shows "entries r' = entries r \<or> merge_of req (entries r) (entries r')"
  using assms less_imp_le_nat unfolding merge_of_def ae_accepted_def ae_rejected_def by (smt (verit) order_refl)

lemma timeout_shapes:
  assumes "raft_idle r" and "op_ok (TimeoutOp out cap) r" and "node_step (TimeoutOp out cap) r w = Some (reply, r', w')"
  shows "retimed r r' \<or> r' = candidate_of r \<or> retimed (new_leader (campaigner r)) r' \<or> retimed (campaigner r) r'"
proof -
  have cap: "unat cap \<le> length out" using assms(2) by simp
  show ?thesis using raft_timeout_body_cases [OF assms(1) cap, of w] assms(3) by auto
qed

lemma node_step_log:
  assumes "raft_idle r" and "op_ok op r" and "node_step op r w = Some (reply, r', w')"
  shows "entries r' = entries r \<or>
    (state r' = LEADER \<and> state r = LEADER \<and> r_term r' = r_term r \<and> (\<exists>e. le_term e = r_term r \<and> entries r' = entries r @ [e])) \<or>
    (\<exists>req. op = AppendRequestOp req \<and> state r' \<noteq> LEADER \<and> ae_term req = r_term r' \<and>
       merge_of req (entries r) (entries r'))"
proof (cases op)
  case (TimeoutOp out cap)
  then have "r_log r' = r_log r \<and> r_len r' = r_len r"
    using timeout_shapes [of r out cap w] assms by (auto simp: retimed_fields)
  then show ?thesis by (simp add: entries_def)
next
  case (VoteRequestOp req)
  then show ?thesis
    using HandleRequestVoteRequest_body_cases [OF assms(1), of req w] assms(3) by (auto simp: entries_def)
next
  case (VoteResponseOp resp peer)
  then show ?thesis
    using HandleRequestVoteResponse_body_cases [OF assms(1), of resp peer w] assms(3) by (auto simp: entries_def)
next
  case (AppendRequestOp req)
  have len: "ae_len_ok req" using assms(2) AppendRequestOp by simp
  obtain resp q v where b: "HandleAppendEntriesRequest_body r req w = Some (resp, q, v)" "state q = LEADER \<longrightarrow> q = r"
    "ae_term req < r_term r \<longrightarrow> q = r" "r_term q = max (r_term r) (ae_term req)"
    "if aer_success resp then r_term r \<le> ae_term req \<and> aer_term resp = ae_term req \<and> ae_accepted req r resp q
     else ae_rejected req r q"
    using HandleAppendEntriesRequest_body_cases [OF assms(1) len, of w] by blast
  have "q = r'" using b(1) assms(3) AppendRequestOp by simp
  then have "state r' = LEADER \<longrightarrow> r' = r" "entries r' = entries r \<or> merge_of req (entries r) (entries r')"
    using b(2) answer_merges [of resp "r_term r \<le> ae_term req \<and> aer_term resp = ae_term req" req r r'] b(5) by auto
  moreover have "r' = r \<or> ae_term req = r_term r'" using \<open>q = r'\<close> b(3,4) by (auto simp: max_def)
  ultimately show ?thesis using AppendRequestOp by blast
next
  case (AppendResponseOp resp peer)
  then show ?thesis
    using HandleAppendEntriesResponse_cases [OF assms(1), of resp peer w] assms(2,3) by (auto simp: entries_def)
next
  case (HeartbeatOp req)
  then show ?thesis using heartbeat_tick_cases [OF assms(1), of req] assms(3) by (auto split: if_splits)
next
  case (SendEntriesOp i req)
  then show ?thesis using raft_append_entries_body_cases [OF assms(1), of i req] assms(3) by (auto split: if_splits)
next
  case (CommitOp out cap)
  then show ?thesis using raft_commit_entry_body_cases [OF assms(1), of cap out] assms(2,3) by (auto simp: entries_def)
next
  case (CommandOp c)
  have wf: "raft_wf r" using assms(1) by (simp add: raft_idle_def)
  have fl: "entries (r\<lparr>state := FAILED\<rparr>) = entries r" by (rule entries_cong) simp_all
  show ?thesis
    using raft_leader_send_command_body_cases [OF assms(1), of c w] assms(3) CommandOp append_command_wf(2) [OF wf, of c] fl
    by (auto simp: append_command_fields RAFT_LOG_CAP_def split: if_splits)
next
  case (UpdateTermOp t)
  then show ?thesis using update_term_cases [OF assms(1), of t w] assms(3) by (auto simp: entries_def)
qed

text \<open>A leader sends pieces of its own log.\<close>

lemma slice_request_slice:
  assumes "raft_idle r" and "state r = LEADER" and "i < unat (peer_count r)" and "L (r_term r) = entries r"
  shows "slice_of L (slice_request r i)"
proof -
  have wf: "raft_wf r" using assms(1) by (simp add: raft_idle_def)
  let ?nx = "next_index (lstate r) ! i"
  note nx = wf_next_index [OF wf assms(2,3)]
  have len: "length (entries r) = unat (r_len r)" "unat (r_len r) \<le> 1024"
    using entries_length [OF wf] wf_bounds(2) [OF wf] by simp_all
  have p: "unat (?nx - 1) = unat ?nx - 1" using nx(1) by (rule unat_pred_64)
  have b: "length (batch_for r i) = min 64 (unat (r_len r) - (unat ?nx - 1))"
    using len by (simp add: batch_for_def RAFT_APPEND_BATCH_def)
  have "batch_for r i ! k = entries r ! (unat ?nx - 1 + k)" if "k < length (batch_for r i)" for k
    using that b len by (auto simp: batch_for_def RAFT_APPEND_BATCH_def intro!: nth_drop)
  moreover have "?nx \<noteq> 1" if "0 < unat ?nx - 1" using that by auto
  moreover have "unat ?nx - 2 = unat ?nx - 1 - 1" by simp
  moreover have "unat ?nx - 1 + min 64 (unat (r_len r) - (unat ?nx - 1)) \<le> unat (r_len r)" using nx(2) by simp
  ultimately show ?thesis
    using b p nx len assms(4) by (auto simp: slice_of_def slice_request_def Let_def nth_append)
qed

lemma sends_slice:
  assumes "raft_idle r" and "op_ok op r" and "node_step op r w = Some (reply, r', w')"
    and "(d, append_entry rq) \<in> sends op from r reply" and "state r = LEADER \<Longrightarrow> L (r_term r) = entries r"
  shows "slice_of L rq"
proof (cases op)
  case (HeartbeatOp req)
  then show ?thesis
    using heartbeat_tick_cases [OF assms(1), of req] assms(3-5) by (auto simp: slice_of_def split: if_splits)
next
  case (SendEntriesOp i req)
  then show ?thesis
    using raft_append_entries_body_cases [OF assms(1), of i req] assms(3-5) slice_request_slice [OF assms(1), of "unat i" L]
    by (auto simp: word_less_nat_alt split: if_splits)
next
  case (TimeoutOp out cap)
  have "body_ok op r r' (append_entry rq)" using node_step_sends [OF assms(1-4)] by blast
  with TimeoutOp assms(3,4) show ?thesis
    using raft_timeout_body_cases [OF assms(1), of cap out w] assms(2) by (auto simp: retimed_fields)
qed (use assms in \<open>auto simp: bind_eq_Some_conv\<close>)

section \<open>The invariant\<close>

text \<open>The leader of each term so far: it had a quorum, and it will not run for that term again.\<close>

definition led :: "cluster \<Rightarrow> raft_term_t \<Rightarrow> raft_node_id_t \<Rightarrow> bool" where
  "led C t i =
     (i \<in> members C \<and> (\<exists>Q. vote_quorum (members C) Q \<and> (\<forall>v \<in> Q. ballots C v t = Some i)) \<and>
      t \<le> r_term (nodes C i) \<and> (r_term (nodes C i) = t \<longrightarrow> state (nodes C i) \<noteq> CANDIDATE))"

definition chronicle :: "cluster \<Rightarrow> leader_logs \<Rightarrow> (raft_term_t \<Rightarrow> raft_node_id_t option) \<Rightarrow> bool" where
  "chronicle C L U =
     ((\<forall>i \<in> members C. backed L (entries (nodes C i))) \<and> (\<forall>t. backed L (L t)) \<and>
      (\<forall>i \<in> members C. state (nodes C i) = LEADER \<longrightarrow>
         L (r_term (nodes C i)) = entries (nodes C i) \<and> U (r_term (nodes C i)) = Some i) \<and>
      (\<forall>t. U t = None \<longrightarrow> L t = []) \<and> (\<forall>t i. U t = Some i \<longrightarrow> led C t i) \<and>
      (\<forall>from d rq. \<lparr>pk_src = from, pk_dst = d, pk_body = append_entry rq\<rparr> \<in> net C \<longrightarrow>
         slice_of L rq \<and> U (ae_term rq) \<noteq> None))"

lemma chronicleD:
  assumes "chronicle C L U"
  shows "i \<in> members C \<Longrightarrow> backed L (entries (nodes C i))" "backed L (L t)"
    "i \<in> members C \<Longrightarrow> state (nodes C i) = LEADER \<Longrightarrow> L (r_term (nodes C i)) = entries (nodes C i) \<and> U (r_term (nodes C i)) = Some i"
    "U t = None \<Longrightarrow> L t = []" "U t = Some j \<Longrightarrow> led C t j"
    "\<lparr>pk_src = from, pk_dst = d, pk_body = append_entry rq\<rparr> \<in> net C \<Longrightarrow> slice_of L rq \<and> U (ae_term rq) \<noteq> None"
  using assms by (auto simp: chronicle_def)

lemma led_forward:
  assumes "led C t j" and "ballots_grow C C'" and "members C' = members C" and "forward (nodes C j) (nodes C' j)"
  shows "led C' t j"
proof -
  obtain Q where "vote_quorum (members C) Q" "\<forall>v \<in> Q. ballots C v t = Some j" using assms(1) by (auto simp: led_def)
  then have "vote_quorum (members C') Q" "\<forall>v \<in> Q. ballots C' v t = Some j"
    using assms(3) ballots_growD [OF assms(2)] by auto
  then show ?thesis using assms(1,3,4) by (auto simp: led_def forward_def)
qed

lemma led_unique:
  assumes "led C t i" and "ballots_grow C C'" and "vote_quorum (members C) Q" and "\<forall>v \<in> Q. ballots C' v t = Some j"
  shows "i = j"
proof -
  obtain Q' where Q': "vote_quorum (members C) Q'" "\<forall>v \<in> Q'. ballots C v t = Some i" using assms(1) by (auto simp: led_def)
  have "\<forall>v \<in> Q'. ballots C' v t = Some i" using Q'(2) ballots_growD [OF assms(2)] by blast
  from votes.one_choice [OF Q'(1) assms(3) this assms(4)] show ?thesis .
qed

lemma chronicle_mono:
  assumes "chronicle C L U" and "longer L L'"
  shows "i \<in> members C \<Longrightarrow> backed L' (entries (nodes C i))" "backed L' (L t)"
    "\<lparr>pk_src = from, pk_dst = d, pk_body = append_entry rq\<rparr> \<in> net C \<Longrightarrow> slice_of L' rq \<and> U (ae_term rq) \<noteq> None"
  using chronicleD(1,2,6) [OF assms(1)] backed_longer [OF _ assms(2)] slice_longer [OF _ assms(2)] by blast+

lemma backed_extend:
  assumes "backed L l" and "longer L (L(t := l @ es))" and "\<forall>e \<in> set es. le_term e = t"
  shows "backed (L(t := l @ es)) (l @ es)"
  unfolding backed_def Let_def
proof (intro allI impI)
  let ?L = "L(t := l @ es)"
  fix k
  assume k: "k < length (l @ es)"
  show "k < length (?L (le_term ((l @ es) ! k))) \<and>
    take (Suc k) (l @ es) = take (Suc k) (?L (le_term ((l @ es) ! k)))"
  proof (cases "k < length l")
    case True
    then have "take (Suc k) (l @ es) = take (Suc k) l" "(l @ es) ! k = l ! k" by (simp_all add: nth_append)
    then show ?thesis using backedD [OF backed_longer [OF assms(1,2)] True] by simp
  next
    case False
    then have "(l @ es) ! k \<in> set es" using k by (auto simp: nth_append intro!: nth_mem)
    then have "le_term ((l @ es) ! k) = t" using assms(3) by blast
    then show ?thesis using k by simp
  qed
qed

text \<open>
  A step of node \<open>i\<close> that does not leave it a leader, and one that does: its log is then the log
  of the leader of its term, which it may have extended.
\<close>

lemma chronicle_follower:
  assumes ch: "chronicle C L U" and grow: "ballots_grow C (after_call C i out r w)" and fwd: "forward (nodes C i) r"
    and r: "state r \<noteq> LEADER" "backed L (entries r)" and sent: "\<And>d rq. (d, append_entry rq) \<notin> out"
  shows "chronicle (after_call C i out r w) L U"
proof -
  have "led (after_call C i out r w) t j" if "U t = Some j" for t j
    using led_forward [OF chronicleD(5) [OF ch that] grow] fwd by (simp add: forward_refl)
  then show ?thesis using chronicleD [OF ch] r sent by (auto simp: chronicle_def)
qed

lemma chronicle_leader:
  assumes ch: "chronicle C L U" and i: "i \<in> members C" "node_id r = i"
    and grow: "ballots_grow C (after_call C i out r w)" and fwd: "forward (nodes C i) r"
    and ok: "leader_ok (after_call C i out r w) r" and st: "state r = LEADER"
    and es: "entries r = entries (nodes C i) @ es" "\<forall>e \<in> set es. le_term e = r_term r"
    and sent: "\<And>d rq. (d, append_entry rq) \<in> out \<Longrightarrow> slice_of L rq \<and> ae_term rq = r_term r"
  shows "chronicle (after_call C i out r w) (L(r_term r := entries r)) (U(r_term r := Some i))"
    "longer L (L(r_term r := entries r))" "prefix (L (r_term r)) (entries (nodes C i))"
    "\<And>j. U (r_term r) = Some j \<Longrightarrow> j = i"
proof -
  let ?C = "after_call C i out r w" and ?T = "r_term r"
  let ?L = "L(?T := entries r)" and ?U = "U(?T := Some i)"
  obtain Q where Q: "vote_quorum (members C) Q" "\<forall>v \<in> Q. ballots ?C v ?T = Some i"
    using ok st i(2) by (auto simp: leader_ok_def)
  have only: "j = i" if "U ?T = Some j" for j
    using led_unique [OF chronicleD(5) [OF ch that] grow Q] .
  have base: "prefix (L ?T) (entries (nodes C i))"
  proof (cases "U ?T")
    case None
    then show ?thesis using chronicleD(4) [OF ch] by simp
  next
    case (Some j)
    then have "led C ?T i" using only chronicleD(5) [OF ch] by blast
    then have "r_term (nodes C i) = ?T \<and> state (nodes C i) = LEADER"
      using fwd st by (auto simp: led_def forward_def)
    then show ?thesis using chronicleD(3) [OF ch i(1)] by auto
  qed
  then have lg: "longer L ?L" using es(1) by (simp add: longer_upd prefix_prefix)
  note old = chronicle_mono [OF ch lg]
  have new: "backed ?L (entries r)"
    using backed_extend [OF chronicleD(1) [OF ch i(1)], of ?T es] lg es by simp
  have lead: "led ?C t j" if "?U t = Some j" for t j
  proof (cases "t = ?T")
    case True
    have "led ?C ?T i" unfolding led_def using Q i st by (intro conjI exI [of _ Q]) simp_all
    then show ?thesis using True that by simp
  next
    case False
    then show ?thesis using that led_forward [OF chronicleD(5) [OF ch] grow] fwd by (simp add: forward_refl)
  qed
  have other: "?L (r_term (nodes C j)) = entries (nodes C j) \<and> ?U (r_term (nodes C j)) = Some j"
    if "j \<in> members C" "state (nodes C j) = LEADER" "j \<noteq> i" for j
    using chronicleD(3) [OF ch that(1,2)] only that(3) by auto
  show "longer L ?L" "prefix (L ?T) (entries (nodes C i))" "\<And>j. U ?T = Some j \<Longrightarrow> j = i" by (fact lg base only)+
  show "chronicle ?C ?L ?U"
    unfolding chronicle_def
  proof (intro conjI allI ballI impI)
    show "backed ?L (?L t)" for t using old(2) new by simp
    show "backed ?L (entries (nodes ?C j))" if "j \<in> members ?C" for j using old(1) that new by simp
    show "?L (r_term (nodes ?C j)) = entries (nodes ?C j)" "?U (r_term (nodes ?C j)) = Some j"
      if "j \<in> members ?C" "state (nodes ?C j) = LEADER" for j
      using that other [of j] by (cases "j = i"; simp)+
    show "?L t = []" if "?U t = None" for t using that chronicleD(4) [OF ch] by (auto split: if_splits)
    show "led ?C t j" if "?U t = Some j" for t j using that by (rule lead)
    show "slice_of ?L rq" "?U (ae_term rq) \<noteq> None"
      if "\<lparr>pk_src = from, pk_dst = d, pk_body = append_entry rq\<rparr> \<in> net ?C" for "from" d rq
      using that old(3) [of "from" d rq] slice_longer [OF _ lg, of rq] sent [of d rq] by auto
  qed
qed

section \<open>It holds in every reachable state\<close>

lemma set_peers_entries [simp]: "entries (set_peers ps r) = entries r"
  by (rule entries_cong) simp_all

text \<open>The logs and names of the leaders after a node becomes \<open>r\<close>.\<close>

definition grown :: "leader_logs \<Rightarrow> raft_node \<Rightarrow> leader_logs" where
  "grown L r = (if state r = LEADER then L(r_term r := entries r) else L)"

definition crowned ::
  "(raft_term_t \<Rightarrow> raft_node_id_t option) \<Rightarrow> raft_node \<Rightarrow> raft_term_t \<Rightarrow> raft_node_id_t option" where
  "crowned U r = (if state r = LEADER then U(r_term r := Some (node_id r)) else U)"

lemma chronicle_call:
  assumes inv: "cluster_inv C" and ch: "chronicle C L U" and i: "i \<in> members C" and en: "enabled C i from op"
    and stp: "node_step op (nodes C i) (worlds C i) = Some (reply, r, w)"
  shows "chronicle (after_call C i (sends op from (nodes C i) reply) r w) (grown L r) (crowned U r)"
    "longer L (grown L r)"
    "state r = LEADER \<Longrightarrow> prefix (L (r_term r)) (entries (nodes C i))"
    "state r = LEADER \<Longrightarrow> U (r_term r) = Some j \<Longrightarrow> j = i"
proof -
  let ?r = "nodes C i" and ?C = "after_call C i (sends op from (nodes C i) reply) r w"
  note n = inv_node [OF inv i]
  have ok: "op_ok op ?r" using inv en by (rule enabled_op_ok)
  have ev: "evolves ?r r" using node_step_total [OF n(1) ok, of "worlds C i"] stp by auto
  have fwd: "forward ?r r" using roles_forward [OF ev node_step_roles [OF n(1) ok stp]] .
  have grow: "ballots_grow C ?C" using n(5) ev by (intro after_call_grow) (auto simp: evolves_def)
  have body: "state r = LEADER \<and> ae_term rq = r_term r" if "(d, append_entry rq) \<in> sends op from ?r reply" for d rq
    using node_step_sends [OF n(1) ok stp that] by simp
  have sent: "slice_of L rq \<and> ae_term rq = r_term r" if "(d, append_entry rq) \<in> sends op from ?r reply" for d rq
    using sends_slice [OF n(1) ok stp that] chronicleD(3) [OF ch i] body [OF that] by blast
  have old: "backed L (entries ?r)" using chronicleD(1) [OF ch i] .
  have "chronicle ?C (grown L r) (crowned U r) \<and> longer L (grown L r) \<and>
    (state r = LEADER \<longrightarrow> prefix (L (r_term r)) (entries ?r) \<and> (\<forall>j. U (r_term r) = Some j \<longrightarrow> j = i))"
  proof (cases "state r = LEADER")
    case True
    then obtain es where es: "entries r = entries ?r @ es" "\<forall>e \<in> set es. le_term e = r_term r"
      using node_step_log [OF n(1) ok stp] by (metis append_Nil2 empty_iff empty_set set_ConsD)
    have id: "node_id r = i" "leader_ok ?C r"
      using inv_node(2,7) [OF call_keeps_inv [OF inv i en stp], of i] i by simp_all
    note new = chronicle_leader [OF ch i id(1) grow fwd id(2) True es sent]
    show ?thesis using new True id(1) by (simp add: grown_def crowned_def)
  next
    case False
    have "backed L m" if "op = AppendRequestOp req" "merge_of req (entries ?r) m" for req m
    proof (rule merge_of_backed [OF old chronicleD(2) [OF ch] _ that(2)])
      show "slice_of L req" using that(1) en chronicleD(6) [OF ch] by (auto simp: enabled_def)
    qed
    then have "backed L (entries r)" using node_step_log [OF n(1) ok stp] False old by auto
    then show ?thesis
      using False chronicle_follower [OF ch grow fwd False] body by (auto simp: grown_def crowned_def)
  qed
  then show "chronicle ?C (grown L r) (crowned U r)" "longer L (grown L r)"
    "state r = LEADER \<Longrightarrow> prefix (L (r_term r)) (entries (nodes C i))"
    "state r = LEADER \<Longrightarrow> U (r_term r) = Some j \<Longrightarrow> j = i" by blast+
qed

lemma chronicle_restart:
  assumes inv: "cluster_inv C" and ch: "chronicle C L U" and i: "i \<in> members C" "i \<in> journaled C"
    and ini: "initialise_raft_sm_body i (worlds C i) = Some (r, w)"
  shows "chronicle (after_call C i {} (set_peers (conf C i) r) w) L U"
proof -
  let ?r = "nodes C i" and ?q = "set_peers (conf C i) r"
  note n = inv_node [OF inv i(1)]
  have st: "started i r" and part: "durable_part r = durable_part ?r"
    using durable_restart [OF n(4) [OF i(2)]] ini n(2) by auto
  have f: "r_term ?q = r_term ?r" "r_voted ?q = r_voted ?r" "state ?q = FOLLOWER" "entries ?q = entries ?r"
    using part st by (simp_all add: durable_part_def started_def)
  have vs: "vote_stable ?r ?q" and fwd: "forward ?r ?q"
    using f by (simp_all add: vote_stable_def forward_def)
  show ?thesis
    using f chronicleD(1) [OF ch i(1)] by (intro chronicle_follower [OF ch after_call_grow [OF n(5) vs] fwd]) simp_all
qed

lemma chronicle_init:
  assumes "cluster_init C"
  shows "chronicle C (\<lambda>_. []) (\<lambda>_. None)"
proof -
  have "entries (nodes C i) = [] \<and> state (nodes C i) = FOLLOWER" if i: "i \<in> members C" for i
  proof -
    obtain w r where 1: "files w (raft_log_path (project_root w) i) = None"
      "initialise_raft_sm_body i w = Some (r, worlds C i)" "nodes C i = set_peers (conf C i) r"
      using assms i by (auto simp: cluster_init_def)
    have "started i r" using initialise_raft_sm_total [of i w] 1(2) by auto
    then show ?thesis
      using fresh_part [OF 1(1,2)] 1(3) by (simp add: durable_part_def fresh_state_def started_def)
  qed
  then show ?thesis using assms by (auto simp: chronicle_def cluster_init_def)
qed

lemma reachable_chronicle: "reachable C \<Longrightarrow> \<exists>L U. chronicle C L U"
proof (induction rule: reachable.induct)
  case (start C)
  then show ?case using chronicle_init by blast
next
  case (step C C')
  note inv = reachable_inv [OF step.hyps(1)]
  from step.IH obtain L U where ch: "chronicle C L U" by blast
  from step.hyps(2) show ?case
    by (rule cluster_stepE) (use chronicle_call(1) [OF inv ch] chronicle_restart [OF inv ch] in blast)+
qed

section \<open>Properties\<close>

text \<open>
  C3.  Log matching.  In every reachable state of a cluster, if the logs of two nodes have entries
  of the same term at the same position then the logs are equal, commands included, up to and
  with that position; although requests are lost, repeated and late, followers keep entries past
  the ones a request carries, answers are cut off by a log file that fails, and nodes restart.
\<close>

theorem log_matching:
  assumes "reachable C" and "i \<in> members C" and "j \<in> members C"
    and "k < length (entries (nodes C i))" and "k < length (entries (nodes C j))"
    and "le_term (entries (nodes C i) ! k) = le_term (entries (nodes C j) ! k)"
  shows "take (Suc k) (entries (nodes C i)) = take (Suc k) (entries (nodes C j))"
proof -
  obtain L U where "chronicle C L U" using reachable_chronicle [OF assms(1)] by blast
  from chronicleD(1) [OF this] show ?thesis using backed_agree assms(2-6) by blast
qed

theorem log_matching_witness:
  "\<exists>C. reachable C \<and> entries (nodes C 1) \<noteq> [] \<and>
     (\<forall>j \<in> members C. entries (nodes C j) \<noteq> [] \<and>
        le_term (entries (nodes C 1) ! 0) = le_term (entries (nodes C j) ! 0) \<longrightarrow>
        take (Suc 0) (entries (nodes C 1)) = take (Suc 0) (entries (nodes C j)))"
proof -
  obtain C e where C: "reachable C" "members C = {1}" "entries (nodes C 1) = [e]"
    using solo_logs by blast
  with log_matching [OF C(1), of 1 _ 0] show ?thesis by auto
qed

end
