(* ===== verification/Raft_Progress.thy ===== *)
theory Raft_Progress
  imports Raft_Matching
begin

text \<open>
  What the calls of a node do to its log, vote, match indices, commit index and messages, in the
  terms that leader completeness needs: a merge keeps what does not conflict with the leader's
  log, a vote is given to a candidate whose log is recent, and a leader commits by one rule.
\<close>

section \<open>Logs that are kept where they do not conflict\<close>

definition keeps :: "LogEntry list \<Rightarrow> LogEntry list \<Rightarrow> LogEntry list \<Rightarrow> bool" where
  "keeps m l l' =
     (\<forall>n \<le> length l. (\<forall>k < n. k < length m \<longrightarrow> le_term (l ! k) = le_term (m ! k)) \<longrightarrow> take n l' = take n l)"

lemma take_same_nth: "take n l' = take n l \<Longrightarrow> k < n \<Longrightarrow> l' ! k = l ! k"
  by (metis nth_take)

lemma take_same_length: "take n l' = take n l \<Longrightarrow> n \<le> length l \<Longrightarrow> n \<le> length l'"
  by (drule arg_cong [of _ _ length]) (simp add: min_def split: if_splits)

lemma keepsD:
  "keeps m l l' \<Longrightarrow> n \<le> length l \<Longrightarrow> (\<And>k. k < n \<Longrightarrow> k < length m \<Longrightarrow> le_term (l ! k) = le_term (m ! k)) \<Longrightarrow>
    take n l' = take n l"
  by (simp add: keeps_def)

lemma keeps_refl [simp]: "keeps m l l"
  by (simp add: keeps_def)

lemma keeps_append [simp]: "keeps m l (l @ es)"
  by (simp add: keeps_def)

lemma keeps_trans:
  assumes "keeps m l l'" and "keeps m l' l''"
  shows "keeps m l l''"
  unfolding keeps_def
proof (intro allI impI)
  fix n
  assume n: "n \<le> length l" "\<forall>k < n. k < length m \<longrightarrow> le_term (l ! k) = le_term (m ! k)"
  then have 1: "take n l' = take n l" using keepsD [OF assms(1)] by blast
  have "take n l'' = take n l'"
  proof (rule keepsD [OF assms(2) take_same_length [OF 1 n(1)]])
    show "le_term (l' ! k) = le_term (m ! k)" if "k < n" "k < length m" for k
      using that n(2) take_same_nth [OF 1] by simp
  qed
  with 1 show "take n l'' = take n l" by simp
qed

lemma keeps_longer: "keeps m l l' \<Longrightarrow> prefix m m' \<Longrightarrow> keeps m' l l'"
  unfolding keeps_def prefix_def by (auto simp: nth_append)

lemma keeps_merge_step:
  assumes "p + i \<le> length l" and "p + i < length m" and "es ! i = m ! (p + i)"
  shows "keeps m l (merge_step p es i l)"
  unfolding keeps_def
proof (intro allI impI)
  fix n
  assume n: "n \<le> length l" "\<forall>k < n. k < length m \<longrightarrow> le_term (l ! k) = le_term (m ! k)"
  show "take n (merge_step p es i l) = take n l"
  proof (cases "p + i < n")
    case True
    then show ?thesis using n assms by (simp add: merge_step_def)
  next
    case False
    then show ?thesis using assms(1) by (simp add: merge_step_def min_def)
  qed
qed

lemma keeps_cut:
  assumes "q < length m" and "le_term (l ! q) \<noteq> le_term (m ! q)"
  shows "keeps m l (take q l)"
  unfolding keeps_def
proof (intro allI impI)
  fix n
  assume "n \<le> length l" "\<forall>k < n. k < length m \<longrightarrow> le_term (l ! k) = le_term (m ! k)"
  then have "\<not> q < n" using assms by blast
  then show "take n (take q l) = take n l" by (simp add: min_def)
qed

lemma keeps_agree:
  assumes "keeps m l l'" and "take n l = take n m" and "n \<le> length m"
  shows "take n l' = take n m"
proof -
  have n: "n \<le> length l" using take_same_length [OF assms(2,3)] .
  have "take n l' = take n l"
  proof (rule keepsD [OF assms(1) n])
    show "le_term (l ! k) = le_term (m ! k)" if "k < n" for k
      using take_same_nth [OF assms(2) that] by simp
  qed
  then show ?thesis using assms(2) by simp
qed

lemma merged_keeps:
  assumes "backed L l" and "backed L (L (ae_term rq))" and "slice_of L rq" and "prev_ok rq l" and "n \<le> unat (ae_log_len rq)"
  shows "keeps (L (ae_term rq)) l (merged rq n l)"
  using assms(5)
proof (induction n)
  case (Suc n)
  let ?p = "unat (ae_prevLogIndex rq)"
  have "?p + n < length (L (ae_term rq))" "ae_log rq ! n = L (ae_term rq) ! (?p + n)"
    using assms(3) Suc.prems by (auto simp: slice_of_def Let_def)
  moreover have "?p + n \<le> length (merged rq n l)"
    using merged_backed [OF assms(1-4), of n] Suc.prems by simp
  ultimately have "keeps (L (ae_term rq)) (merged rq n l) (merged rq (Suc n) l)"
    unfolding merged_Suc by (intro keeps_merge_step)
  with Suc show ?case using keeps_trans by simp
qed simp

lemma merge_of_keeps:
  assumes "backed L l" and "backed L (L (ae_term rq))" and "slice_of L rq" and "merge_of rq l l'"
  shows "keeps (L (ae_term rq)) l l'"
proof -
  let ?p = "unat (ae_prevLogIndex rq)" and ?m = "L (ae_term rq)"
  obtain n where n: "n \<le> unat (ae_log_len rq)" "prev_ok rq l" and l': "l' = merged rq n l \<or>
      n < unat (ae_log_len rq) \<and> conflict_at rq n (merged rq n l) \<and> l' = take (?p + n) (merged rq n l)"
    using assms(4) by (auto simp: merge_of_def)
  have k: "keeps ?m l (merged rq n l)" using merged_keeps [OF assms(1-3) n(2,1)] .
  from l' show ?thesis
  proof (elim disjE conjE)
    assume c: "n < unat (ae_log_len rq)" "conflict_at rq n (merged rq n l)" "l' = take (?p + n) (merged rq n l)"
    then have "?p + n < length ?m" "ae_log rq ! n = ?m ! (?p + n)"
      using assms(3) by (auto simp: slice_of_def Let_def)
    then have "keeps ?m (merged rq n l) l'" using c(2,3) keeps_cut by (auto simp: conflict_at_def Let_def)
    with k show ?thesis by (rule keeps_trans)
  qed (use k in simp)
qed

lemma merged_set:
  assumes "slice_of L rq" and "n \<le> unat (ae_log_len rq)"
  shows "set (merged rq n l) \<subseteq> set l \<union> set (L (ae_term rq))"
  using assms(2)
proof (induction n)
  case (Suc n)
  have "ae_log rq ! n \<in> set (L (ae_term rq))" using assms(1) Suc.prems by (auto simp: slice_of_def Let_def)
  then show ?case using Suc by (auto simp: merged_Suc merge_step_def dest!: in_set_takeD)
qed simp

lemma merge_of_set: "slice_of L rq \<Longrightarrow> merge_of rq l l' \<Longrightarrow> set l' \<subseteq> set l \<union> set (L (ae_term rq))"
  using merged_set unfolding merge_of_def by (metis (no_types, lifting) order_trans set_take_subset)

section \<open>How recent a log is\<close>

definition last_term :: "LogEntry list \<Rightarrow> raft_term_t" where
  "last_term l = (if l = [] then 0 else le_term (last l))"

definition recent :: "LogEntry list \<Rightarrow> LogEntry list \<Rightarrow> bool" where
  "recent l g = (last_term g < last_term l \<or> last_term g = last_term l \<and> length g \<le> length l)"

lemma recent_refl [simp]: "recent l l"
  by (simp add: recent_def)

lemma log_checked_recent:
  assumes "raft_wf r" and "log_checked req r"
    and "unat (rv_lastLogIndex req) = length l" and "rv_lastLogTerm req = last_term l"
  shows "recent l (entries r)"
  using assms last_log_term_wf [OF assms(1)] entries_length [OF assms(1)]
  by (auto simp: log_checked_def checkLog_def recent_def last_term_def raft_last_log_index_def
      word_le_nat_alt split: if_splits)

text \<open>
  A log with a prefix of the log of the leader of term \<open>T\<close>, and a log that is at least as recent:
  the second has the prefix too, if the leaders between \<open>T\<close> and \<open>t\<close> have it.
\<close>

lemma backed_last:
  assumes "backed L l" and "l \<noteq> []"
  shows "l = take (length l) (L (last_term l))" "length l \<le> length (L (last_term l))"
proof -
  have 1: "Suc (length l - 1) = length l" using assms(2) by simp
  have "l = take (length l) (L (last_term l))" "length l - 1 < length (L (last_term l))"
    using backedD [OF assms(1), of "length l - 1", unfolded 1] assms(2) by (simp_all add: last_term_def last_conv_nth)
  then show "l = take (length l) (L (last_term l))" "length l \<le> length (L (last_term l))"
    using 1 by linarith+
qed

lemma backed_sorted: "backed L l \<Longrightarrow> (\<And>t. sorted (map le_term (L t))) \<Longrightarrow> sorted (map le_term l)"
  by (cases "l = []") (simp, metis backed_last(1) sorted_wrt_take take_map)

lemma sorted_terms: "sorted (map le_term l) \<Longrightarrow> i \<le> j \<Longrightarrow> j < length l \<Longrightarrow> le_term (l ! i) \<le> le_term (l ! j)"
  using sorted_nth_mono [of "map le_term l" i j] by simp

lemma recent_prefix:
  assumes l: "backed L l" and g: "backed L g" and srt: "\<And>t. sorted (map le_term (L t))"
    and rec: "recent l g" and n: "0 < n" "n \<le> length p" "take n g = take n p" "le_term (p ! (n - 1)) = T" "T \<noteq> 0"
    and between: "l \<noteq> [] \<Longrightarrow> T < last_term l \<Longrightarrow> take n (L (last_term l)) = take n p"
  shows "take n l = take n p"
proof -
  have ng: "n \<le> length g" using take_same_length [OF n(3,2)] .
  have gn: "le_term (g ! (n - 1)) = T" using take_same_nth [OF n(3), of "n - 1"] n(1,4) by simp
  have g0: "g \<noteq> []" using ng n(1) by auto
  have "le_term (g ! (n - 1)) \<le> last_term g"
    using sorted_terms [OF backed_sorted [OF g srt], of "n - 1" "length g - 1"] ng n(1) g0
    by (simp add: last_term_def last_conv_nth)
  then have Tg: "T \<le> last_term g" using gn by simp
  moreover have "0 < T" using n(5) by (simp add: word_neq_0_conv)
  ultimately have l0: "l \<noteq> []" using rec by (auto simp: recent_def last_term_def split: if_splits)
  note bl = backed_last [OF l l0] and bg = backed_last [OF g g0]
  show ?thesis
  proof (cases "T < last_term l")
    case True
    let ?m = "L (last_term l)"
    have m: "take n ?m = take n p" using between [OF l0 True] .
    have nm: "n \<le> length ?m" using take_same_length [OF m n(2)] .
    have mn: "le_term (?m ! (n - 1)) = T" using take_same_nth [OF m, of "n - 1"] n(1,4) by simp
    have "n \<le> length l"
    proof (rule ccontr)
      assume "\<not> n \<le> length l"
      then have "le_term (?m ! (length l - 1)) \<le> le_term (?m ! (n - 1))"
        using nm by (intro sorted_terms [OF srt]) auto
      moreover have "?m ! (length l - 1) = last l"
        using bl(1) l0 by (metis diff_less last_conv_nth length_greater_0_conv nth_take zero_less_one)
      ultimately show False using True mn l0 by (simp add: last_term_def)
    qed
    then show ?thesis using bl(1) m by (metis min.absorb1 take_take)
  next
    case False
    then have "last_term g = last_term l" "length g \<le> length l" using rec Tg by (auto simp: recent_def)
    then show ?thesis using bl(1) bg(1) ng n(3) by (metis min.absorb1 order_trans take_take)
  qed
qed

section \<open>What a call does to votes, match indices and messages\<close>

lemma node_step_vote:
  assumes "raft_idle r" and "op_ok op r" and "node_step op r w = Some (reply, r', w')"
  shows "vote_kept r r' \<or> r_voted r' = node_id r \<and> r_term r < r_term r' \<and> entries r' = entries r \<or>
    (\<exists>req. op = VoteRequestOp req \<and> r_term r' = rv_term req \<and> r_voted r' = rv_candidateId req \<and>
       log_checked req r \<and> entries r' = entries r)"
proof (cases op)
  case (TimeoutOp out cap)
  then have "r_term r < r_term r + 1" using assms(2) term_next [of r] by simp
  then show ?thesis
    using timeout_shapes [of r out cap w] TimeoutOp assms by (auto simp: retimed_fields entries_def)
next
  case (VoteRequestOp req)
  then show ?thesis
    using HandleRequestVoteRequest_body_cases [OF assms(1), of req w] assms(3) by (auto simp: entries_def)
next
  case (VoteResponseOp resp peer)
  then show ?thesis
    using HandleRequestVoteResponse_body_cases [OF assms(1), of resp peer w] assms(3) by auto
next
  case (AppendRequestOp req)
  then show ?thesis using HandleAppendEntriesRequest_body_cases [OF assms(1), of req w] assms(2,3) by auto
next
  case (AppendResponseOp resp peer)
  then show ?thesis using HandleAppendEntriesResponse_cases [OF assms(1), of resp peer w] assms(2,3) by auto
next
  case (HeartbeatOp req)
  then show ?thesis using heartbeat_tick_cases [OF assms(1), of req] assms(3) by (auto split: if_splits)
next
  case (SendEntriesOp i req)
  then show ?thesis using raft_append_entries_body_cases [OF assms(1), of i req] assms(3) by (auto split: if_splits)
next
  case (CommitOp out cap)
  then show ?thesis using raft_commit_entry_body_cases [OF assms(1), of cap out] assms(2,3) by auto
next
  case (CommandOp c)
  then show ?thesis
    using raft_leader_send_command_body_cases [OF assms(1), of c w] assms(3)
    by (auto simp: append_command_fields split: if_splits)
next
  case (UpdateTermOp t)
  then show ?thesis using update_term_cases [OF assms(1), of t w] assms(3) by auto
qed

definition match_from :: "node_op \<Rightarrow> raft_node \<Rightarrow> raft_node \<Rightarrow> nat \<Rightarrow> bool" where
  "match_from op r r' k =
     (let m = match_index (lstate r') ! k in
      m = 0 \<or> state r = LEADER \<and> r_term r' = r_term r \<and> m = match_index (lstate r) ! k \<or>
      (\<exists>resp. op = AppendResponseOp resp (peer_ids r ! k) \<and> aer_success resp \<and>
         aer_term resp = r_term r' \<and> m = aer_matchIndex resp))"

lemma match_from_same: "state r = LEADER \<Longrightarrow> r_term r' = r_term r \<Longrightarrow> lstate r' = lstate r \<Longrightarrow> match_from op r r' k"
  by (simp add: match_from_def Let_def)

lemma match_from_new: "match_index (lstate r') = replicate 8 0 \<Longrightarrow> k < 8 \<Longrightarrow> match_from op r r' k"
  by (simp add: match_from_def Let_def)

text \<open>Most calls that leave a node leader change nothing.\<close>

fun passive_op :: "node_op \<Rightarrow> bool" where
  "passive_op (VoteRequestOp _) = True"
| "passive_op (AppendRequestOp _) = True"
| "passive_op (HeartbeatOp _) = True"
| "passive_op (SendEntriesOp _ _) = True"
| "passive_op (UpdateTermOp _) = True"
| "passive_op _ = False"

lemma leader_unchanged:
  assumes "raft_idle r" and "op_ok op r" and "node_step op r w = Some (reply, r', w')" and "state r' = LEADER" and "passive_op op"
  shows "r' = r"
proof (cases op)
  case (VoteRequestOp req)
  then show ?thesis using HandleRequestVoteRequest_body_cases [OF assms(1), of req w] assms(3,4) by auto
next
  case (AppendRequestOp req)
  then show ?thesis using HandleAppendEntriesRequest_body_cases [OF assms(1), of req w] assms(2-4) by auto
next
  case (HeartbeatOp req)
  then show ?thesis using heartbeat_tick_cases [OF assms(1), of req] assms(3) by (auto split: if_splits)
next
  case (SendEntriesOp i req)
  then show ?thesis using raft_append_entries_body_cases [OF assms(1), of i req] assms(3) by (auto split: if_splits)
next
  case (UpdateTermOp t)
  then show ?thesis using update_term_cases [OF assms(1), of t w] assms(3,4) by auto
qed (use assms(5) in simp_all)

lemma response_shapes:
  assumes "raft_idle r" and "op_ok (AppendResponseOp resp peer) r"
    and "node_step (AppendResponseOp resp peer) r w = Some (reply, r', w')" and "state r' = LEADER"
  obtains (same) "r' = r"
    | (acked) i c where "state r = LEADER" "r_term r = aer_term resp" "i < unat (peer_count r)" "peer_ids r ! i = peer"
      "aer_success resp" "r' = set_commit c (acknowledge r i (aer_matchIndex resp))"
      "best_commit (acknowledge r i (aer_matchIndex resp)) (unat (r_len r)) (unat c)"
    | (refused) i where "state r = LEADER" "r' = back_off r i"
proof -
  have ok: "ack_ok resp r" using assms(2) by simp
  have body: "HandleAppendEntriesResponse r resp peer w = Some (r', w')" using assms(3) by (auto simp: bind_eq_Some_conv)
  note c = HandleAppendEntriesResponse_cases [OF assms(1) ok, of peer w, unfolded body Let_def, simplified]
  have "r_term r' = r_term r" using c assms(4) by (simp add: no_promotion_def)
  then have "r' = r \<or> state r = LEADER \<and> r_term r = aer_term resp \<and>
    (\<exists>i < unat (peer_count r). peer_ids r ! i = peer \<and>
       (if aer_success resp
        then \<exists>c. r' = set_commit c (acknowledge r i (aer_matchIndex resp)) \<and>
          best_commit (acknowledge r i (aer_matchIndex resp)) (unat (r_len r)) (unat c)
        else r' = back_off r i))" using c by (elim conjE disjE) (simp, simp, metis acknowledge_fields(2))
  then show ?thesis using same acked refused by metis
qed

lemma node_step_match:
  assumes "raft_idle r" and "op_ok op r" and "node_step op r w = Some (reply, r', w')"
    and "state r' = LEADER" and "k < unat (peer_count r)"
  shows "match_from op r r' k"
proof (cases "r' = r")
  case True
  then show ?thesis using assms(4) match_from_same by blast
next
  case False
  have wf: "raft_wf r" using assms(1) by (simp add: raft_idle_def)
  have k: "k < 8" "length (match_index (lstate r)) = 8"
    using wf_bounds(1) [OF wf] wf_lengths [OF wf] assms(5) by auto
  show ?thesis
  proof (cases op)
    case (TimeoutOp out cap)
    then show ?thesis
      using timeout_shapes [of r out cap w] assms match_from_same [of r r'] match_from_new [of r' k op r] k(1)
      by (auto simp: retimed_fields new_leader_def)
  next
    case (VoteResponseOp resp peer)
    then have "\<exists>i. state r = CANDIDATE \<and> vote_outcome r i (rvr_voteGranted resp) r'"
      using HandleRequestVoteResponse_body_cases [OF assms(1), of resp peer w] assms(3,4) False by auto
    then show ?thesis
      using assms(4) match_from_new [of r' k op r] k(1)
      by (auto simp: vote_outcome_def Let_def new_leader_def split: if_splits)
  next
    case (AppendResponseOp resp peer)
    from assms(1-3) [unfolded AppendResponseOp] assms(4) show ?thesis
    proof (cases rule: response_shapes)
      case (acked i c)
      then show ?thesis
        using AppendResponseOp k by (cases "i = k") (auto simp: match_from_def acknowledge_def Let_def)
    qed (use False in \<open>simp_all add: match_from_def back_off_def Let_def\<close>)
  next
    case (CommitOp out cap)
    then show ?thesis
      using raft_commit_entry_body_cases [OF assms(1), of cap out] assms(2-4) by (auto intro!: match_from_same)
  next
    case (CommandOp c)
    then show ?thesis
      using raft_leader_send_command_body_cases [OF assms(1), of c w] assms(3,4)
      by (auto simp: append_command_fields intro!: match_from_same split: if_splits)
  qed (use leader_unchanged [OF assms(1-4)] False in simp_all)
qed

lemma node_step_request:
  assumes "raft_idle r" and "op_ok op r" and "node_step op r w = Some (reply, r', w')"
    and "(d, request_vote rq) \<in> sends op from r reply"
  shows "r_term r < r_term r' \<and> r_term r' = r_term r + 1 \<and> rv_term rq = r_term r' \<and>
    unat (rv_lastLogIndex rq) = length (entries r) \<and> rv_lastLogTerm rq = last_term (entries r)"
proof (cases op)
  case (TimeoutOp out cap)
  then have cap: "unat cap \<le> length out" and t: "r_term r < r_term r + 1"
    using assms(2) term_next [of r] by simp_all
  have wf: "raft_wf r" using assms(1) by (simp add: raft_idle_def)
  have pc: "unat (peer_count r) \<le> 8" using wf_bounds(1) [OF wf] .
  obtain n out' where 1: "raft_timeout_body r out cap w = Some (n, out', r', w')"
    and reply: "reply = VoteRequests (take (unat n) out')"
    using TimeoutOp assms(3) by (auto simp: bind_eq_Some_conv)
  define k where "k = min (unat (peer_count r)) (unat cap)"
  obtain n2 o2 q v where c: "raft_timeout_body r out cap w = Some (n2, o2, q, v)"
    and d: "n2 = 0 \<or> retimed (campaigner r) q \<and> (\<exists>j lt. j = k \<and> n2 = of_nat j \<and> raft_last_log_term r = Some lt \<and>
         o2 = map (vote_message (vote_request q lt)) [0..<j] @ drop j out)"
    using raft_timeout_body_cases [OF assms(1) cap, of w] unfolding k_def by blast
  have eq: "n2 = n" "o2 = out'" "q = r'" using c 1 by simp_all
  have "n = 0 \<or> retimed (campaigner r) r' \<and> (\<exists>lt. raft_last_log_term r = Some lt \<and> n = of_nat k \<and>
         out' = map (vote_message (vote_request r' lt)) [0..<k] @ drop k out)"
    using d unfolding eq by blast
  then show ?thesis
  proof (elim disjE conjE exE)
    assume "n = 0"
    then show ?thesis using reply assms(4) by simp
  next
    fix lt
    assume r': "retimed (campaigner r) r'" and k: "raft_last_log_term r = Some lt" "n = of_nat k"
      "out' = map (vote_message (vote_request r' lt)) [0..<k] @ drop k out"
    have "k \<le> 8" using pc by (simp add: k_def)
    have "take (unat n) out' = map (vote_message (vote_request r' lt)) [0..<k]" using k \<open>k \<le> 8\<close> by simp
    then have "rq = vote_request r' lt" using assms(4) reply by (auto simp: vote_message_def)
    then show ?thesis
      using retimed_fields(2) [OF r'] t k(1) last_log_term_wf [OF wf] entries_length [OF wf]
      by (auto simp: vote_request_def last_term_def raft_last_log_index_def)
  qed
next
  case (VoteRequestOp req)
  then show ?thesis using assms(3,4) by (auto simp: bind_eq_Some_conv)
next
  case (AppendRequestOp req)
  then show ?thesis using assms(3,4) by (auto simp: bind_eq_Some_conv)
next
  case (HeartbeatOp req)
  then show ?thesis using heartbeat_tick_cases [OF assms(1), of req] assms(3,4) by (auto split: if_splits)
next
  case (SendEntriesOp i req)
  then show ?thesis using raft_append_entries_body_cases [OF assms(1), of i req] assms(3,4) by (auto split: if_splits)
qed (use assms in \<open>auto simp: bind_eq_Some_conv\<close>)

lemma node_step_ack:
  assumes "raft_idle r" and "op_ok op r" and "node_step op r w = Some (reply, r', w')"
    and "(d, append_entry_response resp) \<in> sends op from r reply" and "aer_success resp"
  shows "\<exists>rq. op = AppendRequestOp rq \<and> aer_term resp = ae_term rq \<and> ae_term rq = r_term r' \<and>
    prev_ok rq (entries r) \<and> entries r' = merged rq (unat (ae_log_len rq)) (entries r) \<and>
    unat (aer_matchIndex resp) = ae_end rq"
proof -
  obtain rq where rq: "op = AppendRequestOp rq" "aer_term resp = ae_term rq" "unat (aer_matchIndex resp) = ae_end rq"
    using node_step_sends [OF assms(1-4)] assms(5) by auto
  obtain resp' q v where b: "HandleAppendEntriesRequest_body r rq w = Some (resp', q, v)" "no_promotion r q"
    "r_term q = max (r_term r) (ae_term rq)"
    "if aer_success resp' then r_term r \<le> ae_term rq \<and> aer_term resp' = ae_term rq \<and> ae_accepted rq r resp' q
     else ae_rejected rq r q"
    using HandleAppendEntriesRequest_body_cases [OF assms(1), of rq w] assms(2) rq(1) by auto
  have q: "q = r'" "resp' = resp" using b(1) assms(3,4) rq(1) by auto
  then show ?thesis using rq b(3,4) assms(5) by (simp add: ae_accepted_def max_def)
qed

section \<open>The commit rule\<close>

text \<open>The index \<open>n\<close> that a leader may commit: of its term, and matched by a majority with the leader.\<close>

definition commits_at :: "raft_node \<Rightarrow> nat \<Rightarrow> bool" where
  "commits_at r n =
     (state r = LEADER \<and> 0 < n \<and> n \<le> length (entries r) \<and> le_term (entries r ! (n - 1)) = r_term r \<and>
      Suc (unat (peer_count r)) div 2 \<le> card (replicated_on r n))"

lemma commits_at_cong:
  "pstate r' = pstate r \<Longrightarrow> state r' = state r \<Longrightarrow> peer_count r' = peer_count r \<Longrightarrow> lstate r' = lstate r \<Longrightarrow>
    commits_at r' n = commits_at r n"
  by (simp add: commits_at_def replicated_on_def entries_def)

text \<open>A call after which the node leads moves the commit index only by this rule.\<close>

lemma node_step_commit:
  assumes "raft_idle r" and "op_ok op r" and "node_step op r w = Some (reply, r', w')"
    and "state r' = LEADER" and "r_commit r < r_commit r'"
  shows "commits_at r' (unat (r_commit r'))"
proof (cases op)
  case (TimeoutOp out cap)
  then have "vstate r' = vstate r" using timeout_shapes [of r out cap w] assms by (auto simp: retimed_fields)
  then show ?thesis using assms(5) by simp
next
  case (VoteResponseOp resp peer)
  then have "vstate r' = vstate r" using HandleRequestVoteResponse_body_cases [OF assms(1), of resp peer w] assms(3) by auto
  then show ?thesis using assms(5) by simp
next
  case (AppendResponseOp resp peer)
  from assms(1-3) [unfolded AppendResponseOp] assms(4) show ?thesis
  proof (cases rule: response_shapes)
    case (acked i d)
    let ?q = "acknowledge r i (aer_matchIndex resp)"
    have d: "r_commit r < d" using assms(5) acked(6) by simp
    then have "committable ?q (unat d)" using acked(7) by (auto simp: best_commit_def word_less_nat_alt)
    then have "commits_at ?q (unat d)"
      using acked(1) d by (auto simp: committable_def commits_at_def word_less_nat_alt)
    moreover have "commits_at r' n = commits_at ?q n" for n unfolding acked(6) by (rule commits_at_cong) simp_all
    ultimately show ?thesis using acked(6) by simp
  qed (use assms(5) in simp_all)
next
  case (CommitOp out cap)
  then show ?thesis using raft_commit_entry_body_cases [OF assms(1), of cap out] assms(2,3,5) by auto
next
  case (CommandOp c)
  have wf: "raft_wf r" using assms(1) by (simp add: raft_idle_def)
  have r': "r' = append_command r c" "state r = LEADER" "unat (r_len r) < 1024" and pc: "peer_count r = 0"
    using raft_leader_send_command_body_cases [OF assms(1), of c w] assms(3,5) CommandOp
    by (auto simp: append_command_fields RAFT_LOG_CAP_def split: if_splits)
  have "r_commit r' = r_len r + 1" "unat (r_len r + 1) = Suc (unat (r_len r))"
    using r'(1,3) pc by (simp_all add: append_command_fields unat_Suc_64)
  then show ?thesis
    using append_command_wf(2) [OF wf r'(3), of c] entries_length [OF wf] r'(1,2) pc
    by (simp add: commits_at_def append_command_fields nth_append)
qed (use leader_unchanged [OF assms(1-4)] assms(5) in simp_all)

end
