(* ===== verification/Raft_Completeness.thy ===== *)
theory Raft_Completeness
  imports Raft_Progress
begin

text \<open>
  Leader completeness: an entry that the commit rule of a leader accepts stays, with all entries
  before it, in the log of every leader of that and every later term.  The proof keeps, for each
  node and term, the log the node had when it was last in that term.
\<close>

section \<open>The logs of earlier terms\<close>

text \<open>
  For each node and term, the log the node had when it was last in that term or an earlier one.
  It changes only in the node's current term, and there by merging pieces of the leader's log.
\<close>

type_synonym past_logs = "raft_node_id_t \<Rightarrow> raft_term_t \<Rightarrow> LogEntry list"

definition past_of :: "cluster \<Rightarrow> leader_logs \<Rightarrow> (raft_term_t \<Rightarrow> raft_node_id_t option) \<Rightarrow> past_logs \<Rightarrow> raft_node_id_t \<Rightarrow> bool" where
  "past_of C L U G i =
     ((\<forall>t. r_term (nodes C i) \<le> t \<longrightarrow> G i t = entries (nodes C i)) \<and>
      (\<forall>t. backed L (G i t) \<and> (\<forall>e \<in> set (G i t). le_term e \<le> t)) \<and>
      (\<forall>t. t \<noteq> 0 \<longrightarrow> keeps (L t) (G i (t - 1)) (G i t) \<and> (U t = None \<longrightarrow> G i t = G i (t - 1))))"

text \<open>A leader was elected by voters that found its log recent enough when they voted.\<close>

definition elected_by :: "cluster \<Rightarrow> past_logs \<Rightarrow> raft_term_t \<Rightarrow> raft_node_id_t \<Rightarrow> bool" where
  "elected_by C G t c =
     (t \<noteq> 0 \<and> t \<le> r_term (nodes C c) \<and>
      (\<exists>Q. vote_quorum (members C) Q \<and>
         (\<forall>v \<in> Q. t \<le> r_term (nodes C v) \<and> recent (G c (t - 1)) (G v (t - 1)))))"

definition vote_of :: "cluster \<Rightarrow> (raft_term_t \<Rightarrow> raft_node_id_t option) \<Rightarrow> past_logs \<Rightarrow> raft_node_id_t \<Rightarrow> raft_term_t \<Rightarrow> raft_node_id_t \<Rightarrow> bool" where
  "vote_of C U G v t c =
     (t \<noteq> 0 \<and> c \<in> members C \<and> t \<le> r_term (nodes C c) \<and> t \<le> r_term (nodes C v) \<and>
      (U t = None \<longrightarrow> recent (G c (t - 1)) (G v (t - 1))))"

text \<open>The first \<open>n\<close> entries of the leader of term \<open>t\<close>, held by node \<open>v\<close> while in that term.\<close>

definition holds :: "cluster \<Rightarrow> leader_logs \<Rightarrow> past_logs \<Rightarrow> raft_node_id_t \<Rightarrow> raft_term_t \<Rightarrow> nat \<Rightarrow> bool" where
  "holds C L G v t n = (t \<le> r_term (nodes C v) \<and> n \<le> length (L t) \<and> take n (G v t) = take n (L t))"

fun message_of :: "cluster \<Rightarrow> leader_logs \<Rightarrow> past_logs \<Rightarrow> raft_node_id_t \<Rightarrow> raft_body \<Rightarrow> bool" where
  "message_of C L G from (request_vote rq) =
     (rv_term rq \<noteq> 0 \<and> rv_term rq \<le> r_term (nodes C from) \<and>
      unat (rv_lastLogIndex rq) = length (G from (rv_term rq - 1)) \<and>
      rv_lastLogTerm rq = last_term (G from (rv_term rq - 1)))"
| "message_of C L G from (append_entry_response resp) =
     (aer_success resp \<longrightarrow> holds C L G from (aer_term resp) (unat (aer_matchIndex resp)))"
| "message_of C L G from b = True"

definition matches :: "cluster \<Rightarrow> leader_logs \<Rightarrow> past_logs \<Rightarrow> raft_node \<Rightarrow> bool" where
  "matches C L G r =
     (\<forall>k < unat (peer_count r). let m = match_index (lstate r) ! k in
        m \<noteq> 0 \<longrightarrow> holds C L G (peer_ids r ! k) (r_term r) (unat m))"

definition annals :: "cluster \<Rightarrow> leader_logs \<Rightarrow> (raft_term_t \<Rightarrow> raft_node_id_t option) \<Rightarrow> past_logs \<Rightarrow> bool" where
  "annals C L U G =
     (chronicle C L U \<and> (\<forall>i \<in> members C. past_of C L U G i) \<and>
      (\<forall>t. sorted (map le_term (L t)) \<and> (\<forall>e \<in> set (L t). le_term e \<le> t)) \<and>
      (\<forall>t c. U t = Some c \<longrightarrow> elected_by C G t c \<and> prefix (G c (t - 1)) (L t)) \<and>
      (\<forall>v \<in> members C. \<forall>t c. ballots C v t = Some c \<longrightarrow> vote_of C U G v t c) \<and>
      (\<forall>p \<in> net C. message_of C L G (pk_src p) (pk_body p)) \<and>
      (\<forall>i \<in> members C. state (nodes C i) = LEADER \<longrightarrow> matches C L G (nodes C i)))"

lemma annalsD:
  assumes "annals C L U G"
  shows "chronicle C L U" "i \<in> members C \<Longrightarrow> past_of C L U G i"
    "sorted (map le_term (L t))" "e \<in> set (L t) \<Longrightarrow> le_term e \<le> t"
    "U t = Some c \<Longrightarrow> elected_by C G t c" "U t = Some c \<Longrightarrow> prefix (G c (t - 1)) (L t)"
    "v \<in> members C \<Longrightarrow> ballots C v t = Some c \<Longrightarrow> vote_of C U G v t c"
    "\<lparr>pk_src = from, pk_dst = d, pk_body = b\<rparr> \<in> net C \<Longrightarrow> message_of C L G from b"
    "i \<in> members C \<Longrightarrow> state (nodes C i) = LEADER \<Longrightarrow> matches C L G (nodes C i)"
proof -
  show "chronicle C L U" "i \<in> members C \<Longrightarrow> past_of C L U G i" "sorted (map le_term (L t))"
    "U t = Some c \<Longrightarrow> elected_by C G t c" "U t = Some c \<Longrightarrow> prefix (G c (t - 1)) (L t)"
    using assms unfolding annals_def by blast+
  show "e \<in> set (L t) \<Longrightarrow> le_term e \<le> t" "v \<in> members C \<Longrightarrow> ballots C v t = Some c \<Longrightarrow> vote_of C U G v t c"
    "i \<in> members C \<Longrightarrow> state (nodes C i) = LEADER \<Longrightarrow> matches C L G (nodes C i)"
    using assms unfolding annals_def by blast+
  have "\<forall>p \<in> net C. message_of C L G (pk_src p) (pk_body p)" using assms unfolding annals_def by blast
  then show "\<lparr>pk_src = from, pk_dst = d, pk_body = b\<rparr> \<in> net C \<Longrightarrow> message_of C L G from b" by force
qed

lemma past_ofD:
  assumes "past_of C L U G i"
  shows "r_term (nodes C i) \<le> t \<Longrightarrow> G i t = entries (nodes C i)" "backed L (G i t)" "e \<in> set (G i t) \<Longrightarrow> le_term e \<le> t"
    "t \<noteq> 0 \<Longrightarrow> keeps (L t) (G i (t - 1)) (G i t)" "t \<noteq> 0 \<Longrightarrow> U t = None \<Longrightarrow> G i t = G i (t - 1)"
  using assms by (auto simp: past_of_def)

section \<open>Later leaders have what a quorum holds\<close>

definition settled :: "cluster \<Rightarrow> leader_logs \<Rightarrow> past_logs \<Rightarrow> raft_term_t \<Rightarrow> nat \<Rightarrow> bool" where
  "settled C L G t n =
     (0 < n \<and> n \<le> length (L t) \<and> le_term (L t ! (n - 1)) = t \<and>
      (\<exists>Q. vote_quorum (members C) Q \<and> (\<forall>v \<in> Q. holds C L G v t n)))"

lemma pred_less_word:
  assumes "t \<noteq> 0"
  shows "t - 1 < (t :: 64 word)"
proof -
  have "0 < unat t" using assms by (simp add: unat_gt_0)
  moreover have "unat (t - 1) = unat t - 1" using assms by (intro unat_pred_64) (simp add: word_neq_0_conv)
  ultimately show ?thesis unfolding word_less_nat_alt by linarith
qed

lemma le_pred_word:
  assumes "s < t"
  shows "s \<le> t - (1 :: 64 word)"
proof -
  have "unat s < unat t" using assms by (simp only: word_less_nat_alt)
  moreover have "unat (t - 1) = unat t - 1" using assms by (intro unat_pred_64) (auto simp: word_neq_0_conv [symmetric])
  ultimately show ?thesis unfolding word_le_nat_alt by linarith
qed

text \<open>A node that held the entries in term \<open>T\<close> holds them until term \<open>s\<close>, if the leaders up to \<open>s\<close> have them.\<close>

lemma held_until:
  assumes past: "past_of C L U G v" and n: "n \<le> length p" "take n (G v T) = take n p"
    and lead: "\<And>t. T < t \<Longrightarrow> t \<le> s \<Longrightarrow> U t \<noteq> None \<Longrightarrow> take n (L t) = take n p" and s: "T \<le> s"
  shows "take n (G v s) = take n p"
  using s lead
proof (induction "unat s" arbitrary: s rule: less_induct)
  case less
  show ?case
  proof (cases "T = s")
    case True
    then show ?thesis using n(2) by simp
  next
    case False
    then have lt: "T < s" using less.prems(1) by simp
    then have s0: "s \<noteq> 0" by auto
    note pl = pred_less_word [OF s0] and le = le_pred_word [OF lt]
    have "take n (G v (s - 1)) = take n p"
    proof (rule less.hyps [OF _ le])
      show "unat (s - 1) < unat s" using pl by (simp add: word_less_nat_alt)
      show "take n (L t) = take n p" if "T < t" "t \<le> s - 1" "U t \<noteq> None" for t
        using less.prems(2) [OF that(1) _ that(3)] that(2) pl by (meson le_less_trans less_imp_le)
    qed
    note 1 = this
    show ?thesis
    proof (cases "U s")
      case None
      then show ?thesis using past_ofD(5) [OF past s0] 1 by simp
    next
      case (Some c)
      then have m: "take n (L s) = take n p" using less.prems(2) [OF lt order_refl] by simp
      then have "take n (G v (s - 1)) = take n (L s)" "n \<le> length (L s)"
        using 1 take_same_length [OF m n(1)] by simp_all
      then show ?thesis using keeps_agree [OF past_ofD(4) [OF past s0]] m by simp
    qed
  qed
qed

lemma settled_in_leaders:
  assumes an: "annals C L U G" and set: "settled C L G T n" and T: "T < t" and U: "U t \<noteq> None"
  shows "take n (L t) = take n (L T)"
  using T U
proof (induction "unat t" arbitrary: t rule: less_induct)
  case less
  let ?p = "L T"
  have n: "0 < n" "n \<le> length ?p" "le_term (?p ! (n - 1)) = T" using set by (auto simp: settled_def)
  obtain Q where Q: "vote_quorum (members C) Q" "\<forall>v \<in> Q. holds C L G v T n" using set by (auto simp: settled_def)
  obtain c where c: "U t = Some c" using less.prems(2) by blast
  obtain Q' where t0: "t \<noteq> 0" and Q': "vote_quorum (members C) Q'"
    "\<forall>v \<in> Q'. t \<le> r_term (nodes C v) \<and> recent (G c (t - 1)) (G v (t - 1))"
    using annalsD(5) [OF an c] by (auto simp: elected_by_def)
  obtain v where v: "v \<in> members C" "v \<in> Q" "v \<in> Q'" using votes.meet [OF Q(1) Q'(1)] by blast
  note past = annalsD(2) [OF an v(1)]
  have "L T \<noteq> []" using n(1,2) by auto
  then obtain b where b: "U T = Some b" using chronicleD(4) [OF annalsD(1) [OF an]] by blast
  then have T0: "T \<noteq> 0" using annalsD(5) [OF an b] by (simp add: elected_by_def)
  have IH: "take n (L s) = take n ?p" if "T < s" "s < t" "U s \<noteq> None" for s
    using less.hyps [OF _ that(1,3)] that(2) by (simp add: word_less_nat_alt)
  have held: "take n (G v (t - 1)) = take n ?p"
  proof (rule held_until [OF past n(2) _ _ le_pred_word [OF less.prems(1)]])
    show "take n (G v T) = take n ?p" using Q(2) v(2) by (simp add: holds_def)
    show "take n (L s) = take n ?p" if "T < s" "s \<le> t - 1" "U s \<noteq> None" for s
      using IH that pred_less_word [OF t0] by (meson le_less_trans)
  qed
  have cm: "c \<in> members C" using chronicleD(5) [OF annalsD(1) [OF an] c] by (simp add: led_def)
  have "take n (G c (t - 1)) = take n ?p"
  proof (rule recent_prefix [OF past_ofD(2) [OF annalsD(2) [OF an cm]] past_ofD(2) [OF past] annalsD(3) [OF an] _ n(1,2) held n(3) T0])
    let ?l = "G c (t - 1)"
    show "recent ?l (G v (t - 1))" using Q'(2) v(3) by blast
    assume l: "?l \<noteq> []" "T < last_term ?l"
    have "last_term ?l \<le> t - 1"
      using past_ofD(3) [OF annalsD(2) [OF an cm], of "last ?l" "t - 1"] l(1) by (simp add: last_term_def)
    then have "last_term ?l < t" using pred_less_word [OF t0] by (rule le_less_trans)
    moreover have "U (last_term ?l) \<noteq> None"
      using backed_last(2) [OF past_ofD(2) [OF annalsD(2) [OF an cm]] l(1)] l(1)
        chronicleD(4) [OF annalsD(1) [OF an], of "last_term ?l"] by fastforce
    ultimately show "take n (L (last_term ?l)) = take n ?p" using IH [OF l(2)] by blast
  qed
  moreover have "prefix (G c (t - 1)) (L t)" using annalsD(6) [OF an c] .
  ultimately show ?case
    using take_same_length [OF _ n(2), of "G c (t - 1)"] by (auto simp: prefix_def)
qed

section \<open>Every step extends the annals\<close>

definition recorded :: "past_logs \<Rightarrow> raft_node_id_t \<Rightarrow> raft_node \<Rightarrow> past_logs" where
  "recorded G i r = G(i := (\<lambda>t. if t < r_term r then G i t else entries r))"

definition moves :: "cluster \<Rightarrow> leader_logs \<Rightarrow> raft_node_id_t \<Rightarrow> raft_node \<Rightarrow> leader_logs \<Rightarrow> bool" where
  "moves C L i r L' =
     (r_term (nodes C i) \<le> r_term r \<and> longer L L' \<and> keeps (L' (r_term r)) (entries (nodes C i)) (entries r))"

lemma recorded_simps [simp]:
  "v \<noteq> i \<Longrightarrow> recorded G i r v = G v" "s < r_term r \<Longrightarrow> recorded G i r v s = G v s"
  "r_term r \<le> s \<Longrightarrow> recorded G i r i s = entries r"
  by (auto simp: recorded_def)

lemma recorded_before:
  assumes "r_term (nodes C i) \<le> r_term r" and "t \<noteq> 0" and "t \<le> r_term (nodes C v)"
  shows "recorded G i r v (t - 1) = G v (t - 1)"
proof (cases "v = i")
  case True
  then have "t - 1 < r_term r" using pred_less_word [OF assms(2)] assms(1,3) by simp
  then show ?thesis by simp
qed simp

lemma later_term:
  "r_term (nodes C i) \<le> r_term r \<Longrightarrow> t \<le> r_term (nodes C v) \<Longrightarrow> t \<le> r_term (nodes (after_call C i out r w) v)"
  by (auto intro: order_trans)

lemma holds_step:
  assumes h: "holds C L G v t n" and past: "past_of C L U G i" and mv: "moves C L i r L'"
  shows "holds (after_call C i out r w) L' (recorded G i r) v t n"
proof -
  have m: "r_term (nodes C i) \<le> r_term r" "longer L L'" "keeps (L' (r_term r)) (entries (nodes C i)) (entries r)"
    using mv by (simp_all add: moves_def)
  have n: "t \<le> r_term (nodes C v)" "n \<le> length (L t)" "take n (G v t) = take n (L t)" using h by (simp_all add: holds_def)
  have l: "take n (L' t) = take n (L t)" using longer_take [OF m(2) n(2)] .
  have nl: "n \<le> length (L' t)" using take_same_length [OF l n(2)] .
  have "take n (recorded G i r v t) = take n (L' t)"
  proof (cases "v = i \<and> r_term r \<le> t")
    case True
    then have t: "t = r_term r" "r_term (nodes C i) \<le> t" using n(1) m(1) by auto
    then have "take n (entries (nodes C i)) = take n (L' t)" using past_ofD(1) [OF past t(2)] n(3) l True by simp
    from keeps_agree [OF m(3) [folded t(1)] this nl] show ?thesis using True by simp
  next
    case False
    then show ?thesis using n(3) l by (cases "v = i") auto
  qed
  then show ?thesis using later_term [OF m(1) n(1)] nl by (simp add: holds_def)
qed

lemma elected_step:
  assumes "elected_by C G t c" and "r_term (nodes C i) \<le> r_term r"
  shows "elected_by (after_call C i out r w) (recorded G i r) t c"
proof -
  obtain Q where "t \<noteq> 0" "t \<le> r_term (nodes C c)" "vote_quorum (members C) Q"
    "\<forall>v \<in> Q. t \<le> r_term (nodes C v) \<and> recent (G c (t - 1)) (G v (t - 1))"
    using assms(1) by (auto simp: elected_by_def)
  then show ?thesis
    unfolding elected_by_def
    using recorded_before [OF assms(2)] later_term [OF assms(2)]
    by (intro conjI exI [of _ Q]) (simp_all only: after_call_fields, simp_all)
qed

lemma vote_step:
  assumes "vote_of C U G v t c" and "r_term (nodes C i) \<le> r_term r"
  shows "vote_of (after_call C i out r w) U (recorded G i r) v t c"
  using assms(1) recorded_before [OF assms(2)] later_term [OF assms(2)] unfolding vote_of_def
  by (simp only: after_call_fields) metis

lemma message_step:
  assumes "message_of C L G from b" and "past_of C L U G i" and "moves C L i r L'"
  shows "message_of (after_call C i out r w) L' (recorded G i r) from b"
proof (cases b)
  case (request_vote rq)
  have "r_term (nodes C i) \<le> r_term r" using assms(3) by (simp add: moves_def)
  then show ?thesis
    using assms(1) request_vote recorded_before [of C i r "rv_term rq" "from" G]
      later_term [of C i r "rv_term rq" "from" out w] by simp
next
  case (append_entry_response resp)
  then show ?thesis using assms(1) holds_step [OF _ assms(2,3)] by auto
qed simp_all

lemma matches_step:
  "matches C L G q \<Longrightarrow> past_of C L U G i \<Longrightarrow> moves C L i r L' \<Longrightarrow>
    matches (after_call C i out r w) L' (recorded G i r) q"
  using holds_step unfolding matches_def Let_def by blast

lemma past_step_other:
  assumes "past_of C L U G v" and "longer L L'" and "v \<noteq> i" and "\<And>t. U' t = None \<Longrightarrow> U t = None"
  shows "past_of (after_call C i out r w) L' U' (recorded G i r) v"
  using assms(3) past_ofD [OF assms(1)] assms(4) backed_longer [OF _ assms(2)] keeps_longer assms(2)
  unfolding past_of_def longer_def by (simp, blast)

lemma past_step:
  assumes past: "past_of C L U G i" and mv: "moves C L i r L'" and mono: "\<And>t. U' t = None \<Longrightarrow> U t = None"
    and none: "U' (r_term r) = None \<Longrightarrow> entries r = entries (nodes C i)"
    and own: "backed L' (entries r)" and bound: "\<forall>e \<in> set (entries r). le_term e \<le> r_term r"
  shows "past_of (after_call C i out r w) L' U' (recorded G i r) i"
proof -
  let ?G = "recorded G i r" and ?T = "r_term r"
  have m: "r_term (nodes C i) \<le> ?T" "longer L L'" "keeps (L' ?T) (entries (nodes C i)) (entries r)"
    using mv by (simp_all add: moves_def)
  have pre: "\<And>t. prefix (L t) (L' t)" using m(2) by (simp add: longer_def)
  have bb: "backed L' (?G i t) \<and> (\<forall>e \<in> set (?G i t). le_term e \<le> t)" for t
  proof (cases "t < ?T")
    case True
    then show ?thesis using past_ofD(2,3) [OF past] backed_longer [OF _ m(2)] by auto
  next
    case False
    then show ?thesis using own bound by (auto intro: order_trans)
  qed
  have kk: "keeps (L' t) (?G i (t - 1)) (?G i t) \<and> (U' t = None \<longrightarrow> ?G i t = ?G i (t - 1))" if t: "t \<noteq> 0" for t
  proof -
    note pl = pred_less_word [OF t]
    have old: "keeps (L' t) (G i (t - 1)) (G i t)" using keeps_longer [OF past_ofD(4) [OF past t] pre] .
    consider "t < ?T" | "t = ?T" | "?T < t" by fastforce
    then show ?thesis
    proof cases
      case 1
      then have "t - 1 < ?T" using pl by simp
      then show ?thesis using 1 old past_ofD(5) [OF past t] mono by simp
    next
      case 2
      have g: "G i t = entries (nodes C i)" using past_ofD(1) [OF past] m(1) 2 by simp
      then have "keeps (L' t) (G i (t - 1)) (entries r)" using keeps_trans [OF old] m(3) 2 by simp
      moreover have "entries r = G i (t - 1)" if "U' t = None"
        using none past_ofD(5) [OF past t] mono that g 2 by simp
      ultimately show ?thesis using 2 pl by simp
    next
      case 3
      then show ?thesis using le_pred_word [OF 3] by simp
    qed
  qed
  show ?thesis using bb kk by (simp add: past_of_def)
qed

lemma annals_step:
  assumes an: "annals C L U G" and i: "i \<in> members C" "node_id r = i" and mv: "moves C L i r (grown L r)"
    and ch: "chronicle (after_call C i out r w) (grown L r) (crowned U r)"
    and none: "crowned U r (r_term r) = None \<Longrightarrow> entries r = entries (nodes C i)"
    and bound: "\<forall>e \<in> set (entries r). le_term e \<le> r_term r" and srt: "state r = LEADER \<Longrightarrow> sorted (map le_term (entries r))"
    and lead: "state r = LEADER \<Longrightarrow> elected_by (after_call C i out r w) (recorded G i r) (r_term r) i \<and>
      prefix (recorded G i r i (r_term r - 1)) (entries r)"
    and vote: "\<And>t c. note_vote r (ballots C i) t = Some c \<Longrightarrow> vote_of (after_call C i out r w) U (recorded G i r) i t c"
    and sent: "\<And>d b. (d, b) \<in> out \<Longrightarrow> message_of (after_call C i out r w) (grown L r) (recorded G i r) i b"
    and match: "state r = LEADER \<Longrightarrow> matches (after_call C i out r w) (grown L r) (recorded G i r) r"
  shows "annals (after_call C i out r w) (grown L r) (crowned U r) (recorded G i r)"
proof -
  let ?C = "after_call C i out r w" and ?L = "grown L r" and ?U = "crowned U r" and ?G = "recorded G i r"
  have m: "r_term (nodes C i) \<le> r_term r" "longer L ?L" using mv by (simp_all add: moves_def)
  have mono: "U t = None" if "?U t = None" for t using that by (auto simp: crowned_def split: if_splits)
  have own: "backed ?L (entries r)" using chronicleD(1) [OF ch, of i] i(1) by simp
  note past = annalsD(2) [OF an i(1)]
  have "past_of ?C ?L ?U ?G v" if "v \<in> members C" for v
    using past_step [OF past mv mono none own bound] past_step_other [OF annalsD(2) [OF an that] m(2)] mono
    by (cases "v = i") blast+
  moreover have "sorted (map le_term (?L t)) \<and> (\<forall>e \<in> set (?L t). le_term e \<le> t)" for t
    using annalsD(3,4) [OF an] srt bound by (auto simp: grown_def)
  moreover have "elected_by ?C ?G t c \<and> prefix (?G c (t - 1)) (?L t)" if "?U t = Some c" for t c
  proof (cases "state r = LEADER \<and> t = r_term r")
    case True
    then show ?thesis using that lead i(2) by (simp add: crowned_def grown_def)
  next
    case False
    then have U: "U t = Some c" using that by (auto simp: crowned_def split: if_splits)
    have e: "elected_by C G t c" and pre: "prefix (G c (t - 1)) (L t)" using annalsD(5,6) [OF an U] .
    have "?G c (t - 1) = G c (t - 1)" using e recorded_before [OF m(1)] by (simp add: elected_by_def)
    moreover have "prefix (L t) (?L t)" using m(2) by (simp add: longer_def)
    ultimately show ?thesis using elected_step [OF e m(1)] pre prefix_order.order_trans by fastforce
  qed
  moreover have "vote_of ?C ?U ?G v t c" if "v \<in> members C" "ballots ?C v t = Some c" for v t c
  proof -
    have "vote_of ?C U ?G v t c"
      using that vote vote_step [OF annalsD(7) [OF an that(1)] m(1)] by (cases "v = i") auto
    then show ?thesis using mono by (auto simp: vote_of_def)
  qed
  moreover have "message_of ?C ?L ?G (pk_src p) (pk_body p)" if p: "p \<in> net ?C" for p
  proof -
    consider d b where "(d, b) \<in> out" "p = \<lparr>pk_src = i, pk_dst = d, pk_body = b\<rparr>" | "p \<in> net C" using p by auto
    then show ?thesis
    proof cases
      case 1
      then show ?thesis using sent by simp
    next
      case 2
      then have "message_of C L G (pk_src p) (pk_body p)"
        using annalsD(8) [OF an] by (cases p) simp
      from message_step [OF this past mv] show ?thesis .
    qed
  qed
  moreover have "matches ?C ?L ?G (nodes ?C v)" if "v \<in> members C" "state (nodes ?C v) = LEADER" for v
    using that match matches_step [OF annalsD(9) [OF an that(1)] past mv] by (cases "v = i") auto
  ultimately show ?thesis using ch unfolding annals_def by simp
qed

text \<open>The log a node has when it enters a term, as long as the term has no leader.\<close>

lemma entered_log:
  assumes "past_of C L U G i" and "r_term (nodes C i) \<le> t" and "t \<noteq> 0" and "U t = None"
  shows "G i (t - 1) = entries (nodes C i)"
  using past_ofD(1,5) [OF assms(1)] assms(2-4) by metis

lemma call_vote:
  assumes inv: "cluster_inv C" and an: "annals C L U G" and i: "i \<in> members C" and en: "enabled C i from op"
    and stp: "node_step op (nodes C i) (worlds C i) = Some (reply, r, w)" and le: "r_term (nodes C i) \<le> r_term r"
    and v: "note_vote r (ballots C i) t = Some c"
  shows "vote_of (after_call C i out r w) U (recorded G i r) i t c"
proof (cases "ballots C i t = Some c")
  case True
  then show ?thesis using vote_step [OF annalsD(7) [OF an i True] le] by blast
next
  case False
  note n = inv_node [OF inv i]
  have ok: "op_ok op (nodes C i)" using inv en by (rule enabled_op_ok)
  have new: "t = r_term r" "c = r_voted r" "r_voted r \<noteq> RAFT_NONE"
    using v False by (auto simp: note_vote_def split: if_splits)
  have "\<not> vote_kept (nodes C i) r"
    using n(5) new False by (auto simp: vote_kept_def history_ok_def split: if_splits)
  then consider "r_voted r = i" "r_term (nodes C i) < r_term r"
    | req where "op = VoteRequestOp req" "r_term r = rv_term req" "r_voted r = rv_candidateId req"
      "log_checked req (nodes C i)"
    using node_step_vote [OF n(1) ok stp] unfolding n(2) by blast
  then show ?thesis
  proof cases
    case 1
    then have "t \<noteq> 0" using new(1) by auto
    then show ?thesis using 1 new i by (simp add: vote_of_def)
  next
    case 2
    then have pk: "\<lparr>pk_src = from, pk_dst = i, pk_body = request_vote req\<rparr> \<in> net C" using en by (simp add: enabled_def)
    have src: "from \<in> members C" "c = from" using inv_packet [OF inv pk] new(2) 2(3) by simp_all
    have t: "t = rv_term req" using new(1) 2(2) by simp
    have msg: "t \<noteq> 0" "t \<le> r_term (nodes C from)" "unat (rv_lastLogIndex req) = length (G from (t - 1))"
      "rv_lastLogTerm req = last_term (G from (t - 1))"
      using annalsD(8) [OF an pk] t by simp_all
    have wf: "raft_wf (nodes C i)" using n(1) by (simp add: raft_idle_def)
    have rec: "recent (G from (t - 1)) (entries (nodes C i))" using log_checked_recent [OF wf 2(4) msg(3,4)] .
    have "t - 1 < r_term r" using pred_less_word [OF msg(1)] new(1) by simp
    then have "recorded G i r i (t - 1) = G i (t - 1)" by simp
    then have "recent (recorded G i r from (t - 1)) (recorded G i r i (t - 1))" if "U t = None"
      using rec entered_log [OF annalsD(2) [OF an i] _ msg(1) that] le new(1) recorded_before [OF le msg(1,2)] by simp
    moreover have "t \<le> r_term (nodes (after_call C i out r w) from)" using later_term [OF le msg(2)] .
    ultimately show ?thesis using src msg(1) new(1) by (simp add: vote_of_def)
  qed
qed

lemma call_sent:
  assumes inv: "cluster_inv C" and an: "annals C L U G" and i: "i \<in> members C" and en: "enabled C i from op"
    and stp: "node_step op (nodes C i) (worlds C i) = Some (reply, r, w)" and lg: "longer L L'"
    and out: "(d, b) \<in> sends op from (nodes C i) reply"
  shows "message_of (after_call C i Out r w) L' (recorded G i r) i b"
proof (cases b)
  case (request_vote rq)
  note n = inv_node [OF inv i]
  have ok: "op_ok op (nodes C i)" using inv en by (rule enabled_op_ok)
  have rq: "r_term (nodes C i) < r_term r" "r_term r = r_term (nodes C i) + 1" "rv_term rq = r_term r"
    "unat (rv_lastLogIndex rq) = length (entries (nodes C i))" "rv_lastLogTerm rq = last_term (entries (nodes C i))"
    using node_step_request [OF n(1) ok stp] out request_vote by blast+
  have "recorded G i r i (rv_term rq - 1) = entries (nodes C i)"
    using rq(1-3) past_ofD(1) [OF annalsD(2) [OF an i] order_refl] by simp
  moreover have "rv_term rq \<noteq> 0" using rq(1,3) by auto
  ultimately show ?thesis using rq(3-5) request_vote by simp
next
  case (append_entry_response resp)
  note n = inv_node [OF inv i]
  have ok: "op_ok op (nodes C i)" using inv en by (rule enabled_op_ok)
  have "holds (after_call C i Out r w) L' (recorded G i r) i (aer_term resp) (unat (aer_matchIndex resp))"
    if s: "aer_success resp"
  proof -
    obtain rq where rq: "op = AppendRequestOp rq" "aer_term resp = ae_term rq" "ae_term rq = r_term r"
      "prev_ok rq (entries (nodes C i))" "entries r = merged rq (unat (ae_log_len rq)) (entries (nodes C i))"
      "unat (aer_matchIndex resp) = ae_end rq"
      using node_step_ack [OF n(1) ok stp] out append_entry_response s by blast
    have ch: "chronicle C L U" using annalsD(1) [OF an] .
    have "slice_of L rq" using en rq(1) chronicleD(6) [OF ch] by (auto simp: enabled_def)
    from merged_backed [OF chronicleD(1) [OF ch i] chronicleD(2) [OF ch] this rq(4) order_refl]
    have "take (ae_end rq) (entries r) = take (ae_end rq) (L (ae_term rq))" "ae_end rq \<le> length (entries r)"
      using rq(5) by simp_all
    moreover from this have "ae_end rq \<le> length (L (ae_term rq))" using take_same_length by metis
    ultimately show ?thesis
      using rq(2,3,6) longer_take [OF lg, of "ae_end rq" "ae_term rq"] longer_nth lg
      by (auto simp: holds_def longer_def dest: prefix_length_le order_trans)
  qed
  then show ?thesis using append_entry_response by simp
qed simp_all

lemma call_match:
  assumes inv: "cluster_inv C" and an: "annals C L U G" and i: "i \<in> members C" and en: "enabled C i from op"
    and stp: "node_step op (nodes C i) (worlds C i) = Some (reply, r, w)" and mv: "moves C L i r L'"
    and ld: "state r = LEADER"
  shows "matches (after_call C i Out r w) L' (recorded G i r) r"
  unfolding matches_def Let_def
proof (intro allI impI)
  note n = inv_node [OF inv i]
  have ok: "op_ok op (nodes C i)" using inv en by (rule enabled_op_ok)
  have ev: "evolves (nodes C i) r" using node_step_total [OF n(1) ok, of "worlds C i"] stp by auto
  have ids: "peer_ids r = peer_ids (nodes C i)" "peer_count r = peer_count (nodes C i)"
    using evolves_peer_ids [OF ev] ev by (simp_all add: evolves_def same_config_def)
  note past = annalsD(2) [OF an i]
  fix k
  assume k: "k < unat (peer_count r)" and m: "match_index (lstate r) ! k \<noteq> 0"
  have "match_from op (nodes C i) r k" using node_step_match [OF n(1) ok stp ld] k ids(2) by simp
  then consider "state (nodes C i) = LEADER" "r_term r = r_term (nodes C i)"
      "match_index (lstate r) ! k = match_index (lstate (nodes C i)) ! k"
    | resp where "op = AppendResponseOp resp (peer_ids (nodes C i) ! k)" "aer_success resp" "aer_term resp = r_term r"
      "match_index (lstate r) ! k = aer_matchIndex resp"
    using m unfolding match_from_def Let_def by blast
  then have "holds C L G (peer_ids r ! k) (r_term r) (unat (match_index (lstate r) ! k))"
  proof cases
    case 1
    then show ?thesis using annalsD(9) [OF an i 1(1)] k m ids by (simp add: matches_def Let_def)
  next
    case 2
    then have "\<lparr>pk_src = peer_ids r ! k, pk_dst = i, pk_body = append_entry_response resp\<rparr> \<in> net C"
      using en ids by (auto simp: enabled_def)
    from annalsD(8) [OF an this] show ?thesis using 2 by simp
  qed
  from holds_step [OF this past mv]
  show "holds (after_call C i Out r w) L' (recorded G i r) (peer_ids r ! k) (r_term r) (unat (match_index (lstate r) ! k))" .
qed

text \<open>What a call does to the log of its node, in terms of the logs of the leaders.\<close>

lemma call_log:
  assumes inv: "cluster_inv C" and an: "annals C L U G" and i: "i \<in> members C" and en: "enabled C i from op"
    and stp: "node_step op (nodes C i) (worlds C i) = Some (reply, r, w)"
  shows "moves C L i r (grown L r)" "crowned U r (r_term r) = None \<Longrightarrow> entries r = entries (nodes C i)"
    "\<forall>e \<in> set (entries r). le_term e \<le> r_term r" "state r = LEADER \<Longrightarrow> sorted (map le_term (entries r))"
    "state r = LEADER \<Longrightarrow> U (r_term r) = None \<Longrightarrow> entries r = entries (nodes C i)"
proof -
  let ?r = "nodes C i"
  note n = inv_node [OF inv i]
  have ok: "op_ok op ?r" using inv en by (rule enabled_op_ok)
  have ev: "evolves ?r r" using node_step_total [OF n(1) ok, of "worlds C i"] stp by auto
  have le: "r_term ?r \<le> r_term r" using forward_term [OF roles_forward [OF ev node_step_roles [OF n(1) ok stp]]] .
  have ch: "chronicle C L U" using annalsD(1) [OF an] .
  have lg: "longer L (grown L r)" using chronicle_call(2) [OF inv ch i en stp] .
  have eq: "entries ?r = G i (r_term ?r)" using past_ofD(1) [OF annalsD(2) [OF an i] order_refl] by simp
  have bd: "\<forall>e \<in> set (entries ?r). le_term e \<le> r_term r"
    using past_ofD(3) [OF annalsD(2) [OF an i]] le unfolding eq by (blast intro: order_trans)
  have st: "sorted (map le_term (entries ?r))" using backed_sorted [OF chronicleD(1) [OF ch i] annalsD(3) [OF an]] .
  consider (same) "entries r = entries ?r"
    | (app) e where "state r = LEADER" "state ?r = LEADER" "r_term r = r_term ?r" "le_term e = r_term ?r" "entries r = entries ?r @ [e]"
    | (mrg) req where "op = AppendRequestOp req" "state r \<noteq> LEADER" "ae_term req = r_term r" "merge_of req (entries ?r) (entries r)"
    using node_step_log [OF n(1) ok stp] by blast
  then have "keeps (grown L r (r_term r)) (entries ?r) (entries r) \<and>
    (crowned U r (r_term r) = None \<longrightarrow> entries r = entries ?r) \<and> (\<forall>e \<in> set (entries r). le_term e \<le> r_term r) \<and>
    (state r = LEADER \<longrightarrow> sorted (map le_term (entries r)) \<and> (U (r_term r) = None \<longrightarrow> entries r = entries ?r))"
  proof cases
    case same
    then show ?thesis using bd st by simp
  next
    case app
    have "U (r_term r) = Some i" using chronicleD(3) [OF ch i app(2)] app(3) by simp
    then show ?thesis using app bd st by (auto simp: crowned_def sorted_append)
  next
    case mrg
    have pk: "\<lparr>pk_src = from, pk_dst = i, pk_body = append_entry req\<rparr> \<in> net C" using mrg(1) en by (simp add: enabled_def)
    note s = chronicleD(6) [OF ch pk]
    have "keeps (L (ae_term req)) (entries ?r) (entries r)"
      using merge_of_keeps [OF chronicleD(1) [OF ch i] chronicleD(2) [OF ch] _ mrg(4)] s by blast
    moreover have "\<forall>e \<in> set (entries r). le_term e \<le> r_term r"
      using merge_of_set [OF _ mrg(4)] s bd annalsD(4) [OF an, of _ "ae_term req"] mrg(3) by fastforce
    ultimately show ?thesis using mrg(2,3) s by (auto simp: grown_def crowned_def)
  qed
  then show "moves C L i r (grown L r)" "crowned U r (r_term r) = None \<Longrightarrow> entries r = entries (nodes C i)"
    "\<forall>e \<in> set (entries r). le_term e \<le> r_term r" "state r = LEADER \<Longrightarrow> sorted (map le_term (entries r))"
    "state r = LEADER \<Longrightarrow> U (r_term r) = None \<Longrightarrow> entries r = entries (nodes C i)"
    using le lg by (simp_all add: moves_def)
qed

lemma call_lead:
  assumes inv: "cluster_inv C" and an: "annals C L U G" and i: "i \<in> members C" and en: "enabled C i from op"
    and stp: "node_step op (nodes C i) (worlds C i) = Some (reply, r, w)" and ld: "state r = LEADER"
  shows "elected_by (after_call C i (sends op from (nodes C i) reply) r w) (recorded G i r) (r_term r) i \<and>
    prefix (recorded G i r i (r_term r - 1)) (entries r)"
proof -
  let ?C = "after_call C i (sends op from (nodes C i) reply) r w" and ?G = "recorded G i r" and ?T = "r_term r"
  have ch: "chronicle C L U" using annalsD(1) [OF an] .
  have mv: "moves C L i r (grown L r)" using call_log(1) [OF inv an i en stp] .
  then have le: "r_term (nodes C i) \<le> ?T" by (simp add: moves_def)
  show ?thesis
  proof (cases "U ?T")
    case (Some j)
    then have j: "U ?T = Some i" using chronicle_call(4) [OF inv ch i en stp ld Some] by simp
    have e: "elected_by C G ?T i" and pre: "prefix (G i (?T - 1)) (L ?T)" using annalsD(5,6) [OF an j] .
    have "?G i (?T - 1) = G i (?T - 1)" using e recorded_before [OF le] by (simp add: elected_by_def)
    moreover have "prefix (L ?T) (entries r)" using mv ld by (simp add: moves_def longer_def grown_def) metis
    ultimately show ?thesis using elected_step [OF e le] pre prefix_order.order_trans by fastforce
  next
    case None
    note new = inv_node [OF call_keeps_inv [OF inv i en stp], of i]
    obtain Q where Q: "vote_quorum (members C) Q" "\<forall>v \<in> Q. ballots ?C v ?T = Some i"
      using new(2,7) i ld by (auto simp: leader_ok_def simp del: after_call_fields(6))
    have vt: "vote_of ?C U ?G v ?T i" if v: "v \<in> Q" for v
    proof (cases "v = i")
      case True
      then have "note_vote r (ballots C i) ?T = Some i" using Q(2) v by auto
      then show ?thesis using call_vote [OF inv an i en stp le] True by blast
    next
      case False
      have "v \<in> members C" using Q(1) v by (auto simp: vote_quorum_def)
      then show ?thesis using vote_step [OF annalsD(7) [OF an] le] Q(2) v False by auto
    qed
    have "Q \<noteq> {}" using Q(1) votes.meet [OF Q(1) Q(1)] by auto
    then have t0: "?T \<noteq> 0" using vt by (auto simp: vote_of_def)
    have self: "?T \<le> r_term (nodes ?C i)" by simp
    have "elected_by ?C ?G ?T i"
      unfolding elected_by_def using vt None t0 Q(1) self
      by (intro conjI exI [of _ Q]) (auto simp: vote_of_def simp del: after_call_fields(4))
    moreover have "?G i (?T - 1) = entries r"
      using entered_log [OF annalsD(2) [OF an i] le t0 None] call_log(5) [OF inv an i en stp ld None]
        pred_less_word [OF t0] by simp
    ultimately show ?thesis by simp
  qed
qed

lemma annals_call:
  assumes inv: "cluster_inv C" and an: "annals C L U G" and i: "i \<in> members C" and en: "enabled C i from op"
    and stp: "node_step op (nodes C i) (worlds C i) = Some (reply, r, w)"
  shows "annals (after_call C i (sends op from (nodes C i) reply) r w) (grown L r) (crowned U r) (recorded G i r)"
proof -
  note log = call_log [OF inv an i en stp]
  have m: "r_term (nodes C i) \<le> r_term r" "longer L (grown L r)" using log(1) by (simp_all add: moves_def)
  have id: "node_id r = i" using inv_node(2) [OF call_keeps_inv [OF inv i en stp], of i] i by simp
  show ?thesis
    by (rule annals_step [OF an i id log(1) chronicle_call(1) [OF inv annalsD(1) [OF an] i en stp] log(2,3,4)])
      (assumption | rule call_lead [OF inv an i en stp] call_vote [OF inv an i en stp m(1)]
        call_sent [OF inv an i en stp m(2)] call_match [OF inv an i en stp log(1)])+
qed

lemma annals_restart:
  assumes inv: "cluster_inv C" and an: "annals C L U G" and i: "i \<in> members C" "i \<in> journaled C"
    and ini: "initialise_raft_sm_body i (worlds C i) = Some (r, w)"
  shows "annals (after_call C i {} (set_peers (conf C i) r) w) L U (recorded G i (set_peers (conf C i) r))"
    "moves C L i (set_peers (conf C i) r) L"
proof -
  let ?r = "nodes C i" and ?q = "set_peers (conf C i) r"
  note n = inv_node [OF inv i(1)]
  have st: "started i r" and part: "durable_part r = durable_part ?r"
    using durable_restart [OF n(4) [OF i(2)]] ini n(2) by auto
  have f: "r_term ?q = r_term ?r" "r_voted ?q = r_voted ?r" "state ?q = FOLLOWER" "entries ?q = entries ?r" "node_id ?q = i"
    using part st by (simp_all add: durable_part_def started_def)
  have g: "grown L ?q = L" "crowned U ?q = U" using f(3) by (simp_all add: grown_def crowned_def)
  show mv: "moves C L i ?q L" using f(1,4) by (simp add: moves_def)
  have le: "r_term ?r \<le> r_term ?q" using f(1) by simp
  have "ballots C i t = Some c" if "note_vote ?q (ballots C i) t = Some c" for t c
    using that n(5) f(1,2) by (auto simp: note_vote_def history_ok_def split: if_splits)
  then have vote: "vote_of (after_call C i {} ?q w) U (recorded G i ?q) i t c" if "note_vote ?q (ballots C i) t = Some c" for t c
    using that vote_step [OF annalsD(7) [OF an i(1)] le] by blast
  have "\<forall>e \<in> set (entries ?q). le_term e \<le> r_term ?q"
    using past_ofD(1,3) [OF annalsD(2) [OF an i(1)]] f(1,4) by (metis order_refl)
  then show "annals (after_call C i {} ?q w) L U (recorded G i ?q)"
    using annals_step [where w = w and out = "{}", OF an i(1) f(5)] mv chronicle_restart [OF inv annalsD(1) [OF an] i ini] f(3,4) vote
    unfolding g by simp
qed

lemma annals_init:
  assumes "cluster_init C"
  shows "annals C (\<lambda>_. []) (\<lambda>_. None) (\<lambda>_ _. [])"
proof -
  have ch: "chronicle C (\<lambda>_. []) (\<lambda>_. None)" using chronicle_init [OF assms] .
  have "entries (nodes C i) = []" "state (nodes C i) \<noteq> LEADER" if "i \<in> members C" for i
    using chronicleD(1,3) [OF ch that] by (auto simp: backed_def)
  then show ?thesis
    using ch assms by (auto simp: annals_def past_of_def cluster_init_def)
qed

lemma reachable_annals: "reachable C \<Longrightarrow> \<exists>L U G. annals C L U G"
proof (induction rule: reachable.induct)
  case (start C)
  then show ?case using annals_init by blast
next
  case (step C C')
  note inv = reachable_inv [OF step.hyps(1)]
  from step.IH obtain L U G where an: "annals C L U G" by blast
  from step.hyps(2) show ?case
    by (rule cluster_stepE) (use annals_call [OF inv an] annals_restart(1) [OF inv an] in blast)+
qed

text \<open>What is settled stays settled.\<close>

lemma settled_step:
  assumes "settled C L G t n" and "i \<in> members C" and "past_of C L U G i" and "moves C L i r L'"
  shows "settled (after_call C i out r w) L' (recorded G i r) t n" "take n (L' t) = take n (L t)"
proof -
  obtain Q where n: "0 < n" "n \<le> length (L t)" "le_term (L t ! (n - 1)) = t" and Q: "vote_quorum (members C) Q" "\<forall>v \<in> Q. holds C L G v t n"
    using assms(1) by (auto simp: settled_def)
  have lg: "longer L L'" using assms(4) by (simp add: moves_def)
  show l: "take n (L' t) = take n (L t)" using longer_take [OF lg n(2)] .
  have "n \<le> length (L' t)" using take_same_length [OF l n(2)] .
  moreover have "L' t ! (n - 1) = L t ! (n - 1)" using take_same_nth [OF l, of "n - 1"] n(1) by simp
  ultimately show "settled (after_call C i out r w) L' (recorded G i r) t n"
    using n(1,3) Q holds_step [OF _ assms(3,4)] unfolding settled_def by auto
qed

lemma settled_steps:
  assumes "cluster_step\<^sup>*\<^sup>* C C'" and "reachable C" and "annals C L U G" and "settled C L G t n"
  shows "reachable C' \<and> (\<exists>L' U' G'. annals C' L' U' G' \<and> settled C' L' G' t n \<and> take n (L' t) = take n (L t))"
  using assms(1)
proof (induction rule: rtranclp_induct)
  case base
  then show ?case using assms(2-4) by blast
next
  case (step C1 C2)
  then obtain L1 U1 G1 where 1: "reachable C1" "annals C1 L1 U1 G1" "settled C1 L1 G1 t n" "take n (L1 t) = take n (L t)" by blast
  note inv = reachable_inv [OF 1(1)]
  have ex: "\<exists>L' U' G'. annals C2 L' U' G' \<and> settled C2 L' G' t n \<and> take n (L' t) = take n (L1 t)"
    using step.hyps(2)
  proof (rule cluster_stepE)
    fix i "from" op reply r w
    assume c: "C2 = after_call C1 i (sends op from (nodes C1 i) reply) r w" "i \<in> members C1" "enabled C1 i from op"
      "node_step op (nodes C1 i) (worlds C1 i) = Some (reply, r, w)"
    show ?thesis
      unfolding c(1)
      using annals_call [OF inv 1(2) c(2-4)] settled_step [OF 1(3) c(2) annalsD(2) [OF 1(2) c(2)] call_log(1) [OF inv 1(2) c(2-4)]]
      by blast
  next
    fix i r w
    assume c: "C2 = after_call C1 i {} (set_peers (conf C1 i) r) w" "i \<in> members C1" "i \<in> journaled C1"
      "initialise_raft_sm_body i (worlds C1 i) = Some (r, w)"
    note a = annals_restart [OF inv 1(2) c(2-4)]
    show ?thesis
      unfolding c(1) using a(1) settled_step [OF 1(3) c(2) annalsD(2) [OF 1(2) c(2)] a(2)] by blast
  qed
  then show ?case using reachable.step [OF 1(1) step.hyps(2)] 1(4) by metis
qed

section \<open>What the commit rule accepts is kept\<close>

lemma holds_less:
  assumes "holds C L G v t m" and "n \<le> m"
  shows "holds C L G v t n"
proof -
  have "t \<le> r_term (nodes C v)" "m \<le> length (L t)" "take m (G v t) = take m (L t)"
    using assms(1) by (simp_all add: holds_def)
  moreover have "take n (take m l) = take n l" for l :: "LogEntry list" using assms(2) by (simp add: min_absorb1)
  ultimately show ?thesis using assms(2) unfolding holds_def by (metis order_trans)
qed

lemma commits_settled:
  assumes an: "annals C L U G" and inv: "cluster_inv C" and i: "i \<in> members C" and cm: "commits_at (nodes C i) n"
  shows "settled C L G (r_term (nodes C i)) n" "L (r_term (nodes C i)) = entries (nodes C i)"
proof -
  let ?r = "nodes C i" and ?p = "(!) (peer_ids (nodes C i))"
  let ?K = "replicated_on ?r n"
  have c: "state ?r = LEADER" "0 < n" "n \<le> length (entries ?r)" "le_term (entries ?r ! (n - 1)) = r_term ?r"
    "Suc (unat (peer_count ?r)) div 2 \<le> card ?K" using cm by (simp_all add: commits_at_def)
  note nd = inv_node [OF inv i]
  have wf: "raft_wf ?r" using nd(1) by (simp add: raft_idle_def)
  have n: "unat (of_nat n :: raft_index_t) = n"
    using c(3) entries_length [OF wf] wf_bounds(2) [OF wf] by (simp add: unsigned_of_nat take_bit_nat_eq_self)
  show l: "L (r_term ?r) = entries ?r" using chronicleD(3) [OF annalsD(1) [OF an] i c(1)] by blast
  have conf: "conf_ok C" using inv by (simp add: cluster_inv_def)
  have "?K \<subseteq> {..<unat (peer_count ?r)}" by (auto simp: replicated_on_def)
  from peer_quorum [OF conf _ _ wf this c(5)] i nd(2,3)
  have Q: "vote_quorum (members C) (insert i (?p ` ?K))" by simp
  have "holds C L G i (r_term ?r) n"
    using past_ofD(1) [OF annalsD(2) [OF an i] order_refl] l c(3) by (simp add: holds_def)
  moreover have "holds C L G (?p k) (r_term ?r) n" if "k \<in> ?K" for k
  proof -
    have k: "k < unat (peer_count ?r)" "n \<le> unat (match_index (lstate ?r) ! k)"
      using that n by (simp_all add: replicated_on_def word_le_nat_alt)
    then have "match_index (lstate ?r) ! k \<noteq> 0" using c(2) by auto
    then have "holds C L G (?p k) (r_term ?r) (unat (match_index (lstate ?r) ! k))"
      using annalsD(9) [OF an i c(1)] k(1) by (simp add: matches_def Let_def)
    then show ?thesis using k(2) by (rule holds_less)
  qed
  ultimately show "settled C L G (r_term ?r) n"
    using c(2-4) l Q by (auto simp: settled_def)
qed

text \<open>Leader completeness, from any state in which the rule holds.\<close>

lemma commits_kept:
  assumes "reachable C" and "i \<in> members C" and "commits_at (nodes C i) n" and "cluster_step\<^sup>*\<^sup>* C C'"
    and "j \<in> members C'" and "state (nodes C' j) = LEADER" and "r_term (nodes C i) \<le> r_term (nodes C' j)"
  shows "n \<le> length (entries (nodes C' j)) \<and> take n (entries (nodes C' j)) = take n (entries (nodes C i))"
proof -
  let ?T = "r_term (nodes C i)" and ?t = "r_term (nodes C' j)"
  obtain L U G where an: "annals C L U G" using reachable_annals [OF assms(1)] by blast
  note s = commits_settled [OF an reachable_inv [OF assms(1)] assms(2,3)]
  obtain L' U' G' where 1: "annals C' L' U' G'" "settled C' L' G' ?T n" "take n (L' ?T) = take n (L ?T)"
    using settled_steps [OF assms(4,1) an s(1)] by blast
  note ld = chronicleD(3) [OF annalsD(1) [OF 1(1)] assms(5,6)]
  have "take n (L' ?t) = take n (L' ?T)"
    using settled_in_leaders [OF 1(1,2), of ?t] ld assms(7) by (cases "?t = ?T") auto
  then have eq: "take n (entries (nodes C' j)) = take n (entries (nodes C i))" using ld 1(3) s(2) by simp
  moreover have "n \<le> length (entries (nodes C i))" using assms(3) by (simp add: commits_at_def)
  ultimately show ?thesis using take_same_length [OF eq] by simp
qed

section \<open>Properties\<close>

text \<open>
  C2.  Leader completeness.  When a call moves the commit index of a node that leads afterwards (a
  follower's answer that completes a majority, or a command in a cluster of one), the entries up
  to the new commit index are in the log of every leader of this and every later term, whatever
  steps the cluster takes in between: messages are lost, repeated and late, log files fail, nodes
  restart and other nodes are elected.
\<close>

theorem leader_completeness:
  assumes "reachable C" and "i \<in> members C" and "enabled C i from op"
    and "node_step op (nodes C i) (worlds C i) = Some (reply, r, w)"
    and "state r = LEADER" and "r_commit (nodes C i) < r_commit r"
    and "cluster_step\<^sup>*\<^sup>* (after_call C i (sends op from (nodes C i) reply) r w) C'"
    and "j \<in> members C'" and "state (nodes C' j) = LEADER" and "r_term r \<le> r_term (nodes C' j)"
  shows "unat (r_commit r) \<le> length (entries (nodes C' j)) \<and>
    take (unat (r_commit r)) (entries (nodes C' j)) = take (unat (r_commit r)) (entries r)"
proof -
  let ?C = "after_call C i (sends op from (nodes C i) reply) r w"
  note inv = reachable_inv [OF assms(1)]
  have "commits_at (nodes ?C i) (unat (r_commit r))"
    using node_step_commit [OF inv_node(1) [OF inv assms(2)] enabled_op_ok [OF inv assms(3)] assms(4-6)] by simp
  moreover have "reachable ?C" using assms(1) cluster_step.call [OF assms(2-4)] by (rule reachable.step)
  ultimately show ?thesis
    using commits_kept [of ?C i _ C' j] assms(2,7-10) by simp
qed

theorem leader_completeness_witness:
  "\<exists>C C' w. reachable C \<and> cluster_step\<^sup>*\<^sup>* C C' \<and> state (nodes C' 1) = LEADER \<and>
    node_step (CommandOp \<lparr>cc_type = CORE_CMD_GAME_INPUT, room_key = 1, player_id = 7, cc_input = 3\<rparr>)
      (nodes C 1) (worlds C 1) = Some (Status 0, nodes C' 1, w) \<and>
    unat (r_commit (nodes C' 1)) \<le> length (entries (nodes C' 1))"
proof -
  let ?c = "\<lparr>cc_type = CORE_CMD_GAME_INPUT, room_key = 1, player_id = 7, cc_input = 3\<rparr>"
  obtain C where C: "reachable C" "members C = {1}" "journaled C = {1}" "state (nodes C 1) = LEADER"
    "r_len (nodes C 1) = 0" "r_commit (nodes C 1) = 0" "peer_count (nodes C 1) = 0" using solo_leads by blast
  note n = inv_node [OF reachable_inv [OF C(1)], of 1, unfolded C(2,3), simplified]
  let ?q = "append_command (nodes C 1) ?c"
  obtain w where "raft_leader_send_command_body (nodes C 1) ?c (worlds C 1) = Some (0, ?q, w)"
    using leader_accepts [OF n(4,1) C(4), of ?c] C(5) by (auto simp: RAFT_LOG_CAP_def)
  then have s: "node_step (CommandOp ?c) (nodes C 1) (worlds C 1) = Some (Status 0, ?q, w)" by simp
  let ?C' = "after_call C 1 (sends (CommandOp ?c) 1 (nodes C 1) (Status 0)) ?q w"
  have f: "state ?q = LEADER" "r_commit (nodes C 1) < r_commit ?q" "enabled C 1 1 (CommandOp ?c)"
    using C(4-7) by (simp_all add: append_command_fields enabled_def)
  have "unat (r_commit ?q) \<le> length (entries (nodes ?C' 1))"
    using leader_completeness [OF C(1) _ f(3) s f(1,2) rtranclp.rtrancl_refl, of 1] C(2) f(1) by simp
  moreover have "cluster_step C ?C'" using cluster_step.call [OF _ f(3) s] C(2) by simp
  ultimately show ?thesis using C(1) s f(1) by (intro exI [of _ C] exI [of _ ?C'] exI [of _ w]) simp
qed

end
