(* ===== verification/Raft_Replication.thy ===== *)
theory Raft_Replication
  imports Raft_Restart
begin

text \<open>
  Replication and commitment against their specifications: what \<open>AppendEntries\<close> makes of a
  follower's log, what a leader's acknowledgements commit, which entries are handed to the
  application, and when a vote is granted.  Some of the properties record behaviour that
  differs from what the comments of the code intend; they are marked so.
\<close>

section \<open>Merging entries into a log\<close>

text \<open>The length of the common prefix, by terms.\<close>

fun agreeing :: "LogEntry list \<Rightarrow> LogEntry list \<Rightarrow> nat" where
  "agreeing (a # as) (b # bs) = (if le_term a = le_term b then Suc (agreeing as bs) else 0)"
| "agreeing _ _ = 0"

text \<open>
  The specification: from position \<open>prev\<close> on, keep what agrees with the incoming entries; at
  the first difference the rest of the log gives way to the rest of the entries.
\<close>

definition merge_log :: "nat \<Rightarrow> LogEntry list \<Rightarrow> LogEntry list \<Rightarrow> LogEntry list" where
  "merge_log prev es l =
     (let k = agreeing (drop prev l) es in if k = length es then l else take (prev + k) l @ drop k es)"

lemma agreeing_le: "agreeing as bs \<le> length as" "agreeing as bs \<le> length bs"
  by (induction as bs rule: agreeing.induct) auto

lemma agreeing_snoc:
  "agreeing as (bs @ [b]) =
     (if agreeing as bs = length bs \<and> length bs < length as \<and> le_term (as ! length bs) = le_term b
      then Suc (length bs) else agreeing as bs)"
proof (induction bs arbitrary: as)
  case Nil
  then show ?case by (cases as) auto
next
  case (Cons c bs)
  then show ?case by (cases as) auto
qed

lemma merge_step_snoc:
  assumes "prev \<le> length l" and "length es = n"
  shows "merge_step prev (es @ e # rest) n (merge_log prev es l) = merge_log prev (es @ [e]) l"
proof -
  let ?k = "agreeing (drop prev l) es"
  have k: "?k \<le> n" "prev + ?k \<le> length l" using agreeing_le [of "drop prev l" es] assms by auto
  have snoc: "agreeing (drop prev l) (es @ [e]) =
      (if ?k = n \<and> prev + n < length l \<and> le_term (l ! (prev + n)) = le_term e then Suc n else ?k)"
    using assms by (auto simp: agreeing_snoc)
  have nth: "(es @ e # rest) ! n = e" using assms(2) by (simp add: nth_append)
  show ?thesis
  proof (cases "?k = n")
    case True
    then show ?thesis using assms k snoc nth by (auto simp: merge_step_def merge_log_def Let_def)
  next
    case False
    then have m: "merge_log prev es l = take (prev + ?k) l @ drop ?k es" "length (merge_log prev es l) = prev + n"
      using assms k by (auto simp: merge_log_def Let_def)
    then show ?thesis
      using False k assms(2) snoc nth by (auto simp: merge_step_def merge_log_def Let_def)
  qed
qed

lemma merged_spec:
  assumes "unat (ae_prevLogIndex req) \<le> length l" and "n \<le> length (ae_log req)"
  shows "merged req n l = merge_log (unat (ae_prevLogIndex req)) (take n (ae_log req)) l"
  using assms(2)
proof (induction n)
  case 0
  then show ?case by (simp add: merge_log_def)
next
  case (Suc n)
  let ?es = "take n (ae_log req)"
  have split: "ae_log req = ?es @ ae_log req ! n # drop (Suc n) (ae_log req)"
    using Suc.prems by (simp add: id_take_nth_drop)
  have "merged req (Suc n) l =
      merge_step (unat (ae_prevLogIndex req)) (ae_log req) n (merge_log (unat (ae_prevLogIndex req)) ?es l)"
    using Suc by (simp add: merged_Suc)
  also have "\<dots> = merge_log (unat (ae_prevLogIndex req)) (?es @ [ae_log req ! n]) l"
    using merge_step_snoc [OF assms(1), of ?es n "ae_log req ! n" "drop (Suc n) (ae_log req)"] split Suc.prems
    by simp
  finally show ?case using Suc.prems by (simp add: take_Suc_conv_app_nth)
qed

text \<open>After a merge the log agrees with the request, term by term, up to the request's end.\<close>

lemma agreeing_nth: "i < agreeing as bs \<Longrightarrow> le_term (as ! i) = le_term (bs ! i)"
  by (induction as bs arbitrary: i rule: agreeing.induct) (auto split: if_splits simp: less_Suc_eq_0_disj)

lemma merge_log_agrees:
  assumes "prev \<le> length l" and "i < length es"
  shows "prev + i < length (merge_log prev es l)" "le_term (merge_log prev es l ! (prev + i)) = le_term (es ! i)"
    "take prev (merge_log prev es l) = take prev l"
proof -
  let ?k = "agreeing (drop prev l) es"
  have k: "?k \<le> length es" "prev + ?k \<le> length l" using agreeing_le [of "drop prev l" es] assms by auto
  have same: "j < ?k \<Longrightarrow> le_term (l ! (prev + j)) = le_term (es ! j)" for j
    using agreeing_nth [of j "drop prev l" es] k by simp
  show "prev + i < length (merge_log prev es l)" "le_term (merge_log prev es l ! (prev + i)) = le_term (es ! i)"
    using assms(2) k same by (auto simp: merge_log_def Let_def nth_append)
  show "take prev (merge_log prev es l) = take prev l"
    using k by (simp add: merge_log_def Let_def)
qed

section \<open>Properties of replication\<close>

text \<open>
  C6.  Refinement of \<open>AppendEntries\<close>.  A follower that accepts a request holds exactly the
  log that the specification \<open>merge_log\<close> gives for the entries of the request: nothing before
  the first differing entry is touched, in particular no entry is lost when an old request
  arrives late.  The handler always returns; a request of an older term or one whose
  previous entry does not match changes no entry, and a refused one leaves a prefix of the
  merge.
\<close>

definition request_entries :: "AppendEntriesRequest \<Rightarrow> LogEntry list" where
  "request_entries req = take (unat (ae_log_len req)) (ae_log req)"

theorem append_entries_refines_merge:
  assumes "raft_idle r" and "ae_len_ok req"
  shows "\<exists>resp r' w'. HandleAppendEntriesRequest_body r req w = Some (resp, r', w') \<and>
    r_term r' = max (r_term r) (ae_term req) \<and>
    (if aer_success resp
     then r_term r \<le> ae_term req \<and> prev_ok req (entries r) \<and>
       entries r' = merge_log (unat (ae_prevLogIndex req)) (request_entries req) (entries r) \<and>
       unat (aer_matchIndex resp) = unat (ae_prevLogIndex req) + length (request_entries req)
     else entries r' = entries r \<or>
       (prev_ok req (entries r) \<and>
        (\<exists>n < length (request_entries req). \<exists>m. entries r' =
           take m (merge_log (unat (ae_prevLogIndex req)) (take n (request_entries req)) (entries r)))))"
proof -
  obtain resp r' w' where h: "HandleAppendEntriesRequest_body r req w = Some (resp, r', w')" "raft_idle r'"
    "r_term r' = max (r_term r) (ae_term req)"
    "if aer_success resp
     then r_term r \<le> ae_term req \<and> aer_term resp = ae_term req \<and> ae_accepted req r resp r'
     else ae_rejected req r r'"
    using HandleAppendEntriesRequest_body_cases [OF assms, of w] by blast
  let ?N = "unat (ae_log_len req)" and ?p = "unat (ae_prevLogIndex req)"
  have N: "?N \<le> length (ae_log req)" "length (request_entries req) = ?N"
    using assms(2) by (simp_all add: ae_len_ok_def request_entries_def)
  have len: "unat (r_len r') \<le> 1024" using h(2) wf_bounds(2) by (simp add: raft_idle_def)
  have spec: "merged req n (entries r) = merge_log ?p (take n (request_entries req)) (entries r)"
    if "prev_ok req (entries r)" "n \<le> ?N" for n
    using merged_spec [of req "entries r" n] that N by (simp add: prev_ok_def Let_def request_entries_def min_def)
  show ?thesis
  proof (cases "aer_success resp")
    case True
    then have a: "r_term r \<le> ae_term req" "ae_accepted req r resp r'" using h(4) by simp_all
    then have "entries r' = merge_log ?p (request_entries req) (entries r)"
      using spec [of ?N] N(2) by (simp add: ae_accepted_def)
    moreover have "unat (aer_matchIndex resp) = ?p + ?N"
      using a(2) len by (simp add: ae_accepted_def unat_add_64)
    ultimately show ?thesis using h(1,3) True a N(2) by (auto simp: ae_accepted_def)
  next
    case False
    then consider "entries r' = entries r" | n m where "prev_ok req (entries r)" "n < ?N"
      "entries r' = take m (merged req n (entries r))"
      using h(4) by (auto simp: ae_rejected_def) (metis order_refl take_all)+
    then show ?thesis
    proof cases
      case 1
      then show ?thesis using h(1,3) False by auto
    next
      case 2
      then show ?thesis using h(1,3) False spec [of n] N(2) by auto
    qed
  qed
qed

definition sample_request :: AppendEntriesRequest where
  "sample_request =
     \<lparr>ae_term = 4, ae_leaderId = 2, ae_prevLogIndex = 0, ae_prevLogTerm = 0, ae_leaderCommit = 1,
      ae_log_len = 1, ae_log = [zero_entry\<lparr>le_index := 1, le_term := 4\<rparr>]\<rparr>"

lemma sample_request_ok: "ae_len_ok sample_request"
  by (simp add: sample_request_def ae_len_ok_def)

theorem append_entries_refines_merge_witness:
  "\<exists>resp r' w'. HandleAppendEntriesRequest_body sample_node sample_request sample_world = Some (resp, r', w') \<and>
    r_term r' = max (r_term sample_node) (ae_term sample_request)"
  using append_entries_refines_merge [OF sample_node_idle sample_request_ok, of sample_world] by blast

text \<open>
  An index a leader may commit, when \<open>match\<close> holds the largest index known to be replicated
  on each peer: beyond its commit index, of its own term, and held by a majority.
\<close>

definition commit_candidate :: "raft_node \<Rightarrow> raft_index_t list \<Rightarrow> nat \<Rightarrow> bool" where
  "commit_candidate r match n =
     (unat (r_commit r) < n \<and> n \<le> length (entries r) \<and> le_term (entries r ! (n - 1)) = r_term r \<and>
      unat (peer_count r) + 1 < 2 * (1 + card {i. i < unat (peer_count r) \<and> n \<le> unat (match ! i)}))"

text \<open>
  C10.  What a leader commits.  A positive acknowledgement beyond the \<open>next_index\<close> of its sender
  is recorded in the \<open>match_index\<close> of the sender and in no other (one that is not beyond it is
  ignored).  Then the commit index is the largest index beyond the old one whose entry is of
  the leader's current term and that a majority of the cluster, the leader included, holds
  according to the recorded indices; if there is no such index it does not move.  It never goes
  back.
\<close>

theorem commit_is_largest_committable:
  assumes "raft_idle r" and "state r = LEADER" and "aer_success resp" and "aer_term resp = r_term r"
    and "unat (aer_matchIndex resp) \<le> unat (r_len r)" and "peer \<in> set (peer_ids r)"
  shows "\<exists>k r' w'. HandleAppendEntriesResponse r resp peer w = Some (r', w') \<and> entries r' = entries r \<and>
    r_commit r \<le> r_commit r' \<and> k < unat (peer_count r) \<and> peer_ids r ! k = peer \<and>
    (let m = aer_matchIndex resp; news = next_index (lstate r) ! k < m;
         match = (if news then (match_index (lstate r))[k := m] else match_index (lstate r))
     in match_index (lstate r') = match \<and>
        next_index (lstate r') = (if news then (next_index (lstate r))[k := m + 1] else next_index (lstate r)) \<and>
        (if \<exists>n. commit_candidate r match n
         then commit_candidate r match (unat (r_commit r')) \<and> (\<forall>n. commit_candidate r match n \<longrightarrow> n \<le> unat (r_commit r'))
         else r_commit r' = r_commit r))"
proof -
  have wf: "raft_wf r" using assms(1) by (simp add: raft_idle_def)
  have ack: "ack_ok resp r" using assms(5) by (simp add: ack_ok_def)
  have len: "length (entries r) = unat (r_len r)" "unat (r_len r) \<le> 1024" "unat (peer_count r) \<le> 8"
    using entries_length [OF wf] wf_bounds [OF wf] by auto
  obtain r' w' k c where h: "HandleAppendEntriesResponse r resp peer w = Some (r', w')" "r_log r' = r_log r"
    "r_len r' = r_len r"
    and q: "k < unat (peer_count r)" "r' = set_commit c (acknowledge r k (aer_matchIndex resp))"
      "best_commit (acknowledge r k (aer_matchIndex resp)) (unat (r_len r)) (unat c)" "r_commit r \<le> c" "peer_ids r ! k = peer"
    using HandleAppendEntriesResponse_cases [OF assms(1) ack, of peer w] assms(2-4,6) by (auto simp: Let_def)
  let ?q = "acknowledge r k (aer_matchIndex resp)"
  let ?news = "next_index (lstate r) ! k < aer_matchIndex resp"
  let ?match = "if ?news then (match_index (lstate r))[k := aer_matchIndex resp] else match_index (lstate r)"
  let ?ok = "commit_candidate r ?match"
  have en: "entries ?q = entries r" "match_index (lstate ?q) = ?match"
    by (simp_all add: entries_def acknowledge_def)
  have rep: "replicated_on ?q n = {i. i < unat (peer_count r) \<and> n \<le> unat (?match ! i)}" if "n \<le> unat (r_len r)" for n
    using that len(2) unfolding replicated_on_def en(2) by (simp add: word_le_nat_alt)
  have ok: "committable ?q n = ?ok n" for n
  proof (cases "n \<le> unat (r_len r)")
    case True
    have "(Suc (unat (peer_count r)) div 2 \<le> c) = (unat (peer_count r) + 1 < 2 * (1 + c))" for c by arith
    then show ?thesis
      unfolding committable_def commit_candidate_def rep [OF True] en(1) by simp
  next
    case False
    then show ?thesis using en(1) len(1) by (simp add: committable_def commit_candidate_def)
  qed
  have bound: "committable ?q n \<Longrightarrow> n \<le> unat (r_len r)" for n
    using en(1) len(1) by (simp add: committable_def)
  have "if \<exists>n. committable ?q n then committable ?q (unat c) \<and> (\<forall>n. committable ?q n \<longrightarrow> n \<le> unat c)
      else c = r_commit r"
    using q(3) bound by (auto simp: best_commit_def word_unat_eq_iff)
  moreover have c: "c = r_commit r'" "match_index (lstate r') = ?match" using q(2) en(2) by simp_all
  ultimately have "if \<exists>n. ?ok n then ?ok (unat (r_commit r')) \<and> (\<forall>n. ?ok n \<longrightarrow> n \<le> unat (r_commit r'))
      else r_commit r' = r_commit r"
    unfolding ok by blast
  moreover have "next_index (lstate r') = (if ?news then (next_index (lstate r))[k := aer_matchIndex resp + 1] else next_index (lstate r))"
    using q(2) by (simp add: acknowledge_def)
  moreover have "entries r' = entries r" using h by (simp add: entries_def)
  ultimately show ?thesis unfolding Let_def using h(1) q(1,4,5) c by blast
qed

definition sample_leader :: raft_node where
  "sample_leader =
     append_command (new_leader sample_node) \<lparr>cc_type = CORE_CMD_NOOP, room_key = 0, player_id = 0, cc_input = 0\<rparr>"

lemma sample_node_len: "unat (r_len sample_node) = 0" "r_term sample_node = 0" "r_len sample_node = 0"
  "peer_count sample_node = 2" "r_commit sample_node = 0"
  by (simp_all add: sample_node_def blank_node_def zero_node_def zero_pstate_def)

lemma sample_leader_wf: "raft_idle sample_leader" "state sample_leader = LEADER" "r_term sample_leader = 0"
  "unat (r_len sample_leader) = 1" "peer_ids sample_leader = [2, 3]" "lstate sample_leader = lstate (new_leader sample_node)"
proof -
  have "raft_wf (new_leader sample_node)" "\<not> mu sample_node"
    using sample_node_idle by (simp_all add: raft_idle_def new_leader_wf)
  then show "raft_idle sample_leader"
    using append_command_wf(1) [of "new_leader sample_node"] sample_node_len
    by (simp add: raft_idle_def sample_leader_def append_command_fields)
  show "state sample_leader = LEADER" "r_term sample_leader = 0"
    "lstate sample_leader = lstate (new_leader sample_node)"
    using sample_node_len by (simp_all add: sample_leader_def append_command_fields)
  show "unat (r_len sample_leader) = 1"
    using sample_node_len by (simp add: sample_leader_def append_command_def Let_def)
  have "peer_ids sample_leader = peer_ids sample_node"
    by (simp add: peer_ids_def sample_leader_def append_command_fields)
  then show "peer_ids sample_leader = [2, 3]"
    using set_peers_ids [of "[zero_peer\<lparr>peer_id := 2\<rparr>, zero_peer\<lparr>peer_id := 3\<rparr>]" "blank_node 1"]
    by (simp add: sample_node_def RAFT_MAX_PEERS_def)
qed

text \<open>A leader with two followers and two entries; the first follower acknowledges both.\<close>

definition busy_leader :: raft_node where
  "busy_leader =
     append_command sample_leader \<lparr>cc_type = CORE_CMD_NOOP, room_key = 0, player_id = 0, cc_input = 0\<rparr>"

lemma busy_leader_facts:
  "raft_idle busy_leader" "state busy_leader = LEADER" "r_term busy_leader = 0" "unat (r_len busy_leader) = 2"
  "peer_ids busy_leader = [2, 3]" "lstate busy_leader = lstate (new_leader sample_node)" "peer_count busy_leader = 2"
  "r_commit busy_leader = 0" "length (entries busy_leader) = 2" "le_term (entries busy_leader ! 1) = 0"
proof -
  have idle: "raft_idle sample_leader" "raft_wf sample_leader" "\<not> mu sample_leader" "unat (r_len sample_leader) = 1"
    using sample_leader_wf by (simp_all add: raft_idle_def)
  note app = append_command_wf [OF idle(2), of "\<lparr>cc_type = CORE_CMD_NOOP, room_key = 0, player_id = 0, cc_input = 0\<rparr>"]
  show "raft_idle busy_leader"
    using app(1) idle by (simp add: raft_idle_def busy_leader_def append_command_fields)
  have l: "r_len sample_leader = 1" using idle(4) by (simp add: word_unat_eq_iff)
  show "unat (r_len busy_leader) = 2" using l by (simp add: busy_leader_def append_command_def Let_def)
  show "state busy_leader = LEADER" "r_term busy_leader = 0" "lstate busy_leader = lstate (new_leader sample_node)"
    "peer_count busy_leader = 2" "r_commit busy_leader = 0"
    using sample_leader_wf sample_node_len
    by (simp_all add: busy_leader_def append_command_fields sample_leader_def new_leader_def)
  have "peer_ids busy_leader = peer_ids sample_leader"
    by (simp add: peer_ids_def busy_leader_def append_command_fields)
  then show "peer_ids busy_leader = [2, 3]" using sample_leader_wf by simp
  have "length (entries sample_leader) = 1" using entries_length [OF idle(2)] idle(4) by simp
  then show "length (entries busy_leader) = 2" "le_term (entries busy_leader ! 1) = 0"
    using app(2) idle(4) sample_leader_wf(3) by (simp_all add: busy_leader_def nth_append)
qed

theorem commit_is_largest_committable_witness:
  "\<exists>r' w'. HandleAppendEntriesResponse busy_leader
      \<lparr>aer_term = 0, aer_success = True, aer_matchIndex = 2\<rparr> 2 sample_world = Some (r', w') \<and>
    match_index (lstate r') = 2 # replicate 7 0 \<and> unat (r_commit r') = 2"
proof -
  let ?resp = "\<lparr>aer_term = 0, aer_success = True, aer_matchIndex = 2\<rparr> :: AppendEntriesResponse"
  note b = busy_leader_facts
  have "aer_success ?resp" "aer_term ?resp = r_term busy_leader" "unat (aer_matchIndex ?resp) \<le> unat (r_len busy_leader)"
    "2 \<in> set (peer_ids busy_leader)" by (simp_all add: b)
  from commit_is_largest_committable [OF b(1,2) this, of sample_world] obtain k r' w' match where
    h: "HandleAppendEntriesResponse busy_leader ?resp 2 sample_world = Some (r', w')" and
    k: "k < unat (peer_count busy_leader)" "peer_ids busy_leader ! k = 2" and
    m: "match = (if next_index (lstate busy_leader) ! k < 2 then (match_index (lstate busy_leader))[k := 2]
      else match_index (lstate busy_leader))" "match_index (lstate r') = match" and
    c: "if \<exists>n. commit_candidate busy_leader match n
      then commit_candidate busy_leader match (unat (r_commit r')) \<and>
        (\<forall>n. commit_candidate busy_leader match n \<longrightarrow> n \<le> unat (r_commit r'))
      else r_commit r' = r_commit busy_leader"
    unfolding Let_def AppendEntriesResponse.simps by blast
  have "k < 2" using k(1) by (simp add: b(7))
  then have k0: "k = 0" using k(2) b(5) by (auto dest!: less_2_cases)
  have "next_index (lstate busy_leader) ! 0 = 1"
    using sample_node_len by (simp add: b(6) new_leader_def nth_append)
  moreover have "match_index (lstate busy_leader) = 0 # replicate 7 0"
    using replicate_Suc [of 7 "0 :: raft_index_t"] by (simp add: b(6) new_leader_def del: replicate_Suc)
  ultimately have m2: "match = 2 # replicate 7 0" using m(1) k0 by simp
  have "{i. i < unat (peer_count busy_leader) \<and> 2 \<le> unat (match ! i)} = {0}"
    by (auto simp: m2 b(7) dest!: less_2_cases)
  then have "commit_candidate busy_leader match 2" by (simp add: commit_candidate_def b b(10) [unfolded One_nat_def])
  moreover have "n \<le> 2" if "commit_candidate busy_leader match n" for n
    using that by (simp add: commit_candidate_def b)
  ultimately have "unat (r_commit r') = 2" using c by (metis (no_types, lifting) le_antisym)
  with h m m2 show ?thesis by auto
qed

text \<open>
  The acknowledgement of a single entry is lost.  The leader compares \<open>next_index\<close>, not
  \<open>match_index\<close>, with the acknowledged index, and strictly: when the peer's \<open>next_index\<close> is the
  index it acknowledges, which is the case when exactly one new entry was sent, neither
  \<open>next_index\<close> nor \<open>match_index\<close> of any peer changes, so the entry is not counted as
  replicated.  (The comment above the test intends the indices to be updated.)
\<close>

theorem single_entry_ack_lost:
  assumes "raft_idle r" and "state r = LEADER" and "aer_success resp" and "aer_term resp = r_term r"
    and "unat (aer_matchIndex resp) \<le> unat (r_len r)"
    and "\<forall>k < unat (peer_count r). peer_ids r ! k = peer \<longrightarrow> next_index (lstate r) ! k = aer_matchIndex resp"
  shows "\<exists>r' w'. HandleAppendEntriesResponse r resp peer w = Some (r', w') \<and> lstate r' = lstate r"
proof -
  have ack: "ack_ok resp r" using assms(5) by (simp add: ack_ok_def)
  show ?thesis
    using HandleAppendEntriesResponse_cases [OF assms(1) ack, of peer w] assms(2-4,6)
    by (auto simp: Let_def acknowledge_def)
qed

theorem single_entry_ack_lost_witness:
  "\<exists>r' w'. HandleAppendEntriesResponse sample_leader
      \<lparr>aer_term = 0, aer_success = True, aer_matchIndex = 1\<rparr> 2 sample_world = Some (r', w') \<and>
    lstate r' = lstate sample_leader"
proof (rule single_entry_ack_lost)
  show "\<forall>k < unat (peer_count sample_leader). peer_ids sample_leader ! k = 2 \<longrightarrow>
      next_index (lstate sample_leader) ! k = aer_matchIndex \<lparr>aer_term = 0, aer_success = True, aer_matchIndex = 1\<rparr>"
    using sample_node_len
    by (simp add: sample_leader_wf(6) new_leader_def sample_leader_def append_command_fields nth_append)
qed (use sample_leader_wf in simp_all)

text \<open>
  C13.  Committed entries are handed to the application once and in log order: two successive
  calls give together the entries that follow the last applied one, without gap or
  repetition, and never one beyond the commit index.
\<close>

theorem committed_entries_once_in_order:
  assumes "raft_idle r" and "unat cap \<le> length out" and "unat cap' \<le> length out'"
    and "r_applied r \<le> r_commit r"
  shows "\<exists>n o1 r1 n' o2 r2. raft_commit_entry_body r out cap = Some (n, o1, r1) \<and>
    raft_commit_entry_body r1 out' cap' = Some (n', o2, r2) \<and>
    take (unat n) o1 @ take (unat n') o2 =
      take (unat n + unat n') (drop (unat (r_applied r)) (r_log r)) \<and>
    unat (r_applied r2) = unat (r_applied r) + unat n + unat n' \<and> r_applied r2 \<le> r_commit r \<and>
    unat n = min (unat (r_commit r) - unat (r_applied r)) (unat cap)"
proof -
  have wf: "raft_wf r" using assms(1) by (simp add: raft_idle_def)
  have cm: "unat (r_commit r) \<le> 1024" "length (r_log r) = 1024" "unat (r_applied r) \<le> unat (r_commit r)"
    using wf_bounds(3) [OF wf] wf_lengths(2) [OF wf] assms(4) by (simp_all add: word_le_nat_alt)
  define n where "n = min (ready r) (unat cap)"
  define r1 where "r1 = set_applied (r_applied r + of_nat n) r"
  define m where "m = min (ready r1) (unat cap')"
  have n: "n \<le> 1024" "unat (r_applied r) + n \<le> unat (r_commit r)" using cm by (auto simp: n_def ready_def)
  have a1: "unat (r_applied r1) = unat (r_applied r) + n"
    using n cm by (simp add: r1_def unat_add_64)
  have m: "m \<le> 1024" "unat (r_applied r1) + m \<le> unat (r_commit r)"
    using cm a1 n by (auto simp: m_def ready_def r1_def)
  have a2: "unat (r_applied r1 + of_nat m) = unat (r_applied r1) + m"
    using m cm by (simp add: unat_add_64)
  have 1: "raft_commit_entry_body r out cap =
      Some (of_nat n, take n (drop (unat (r_applied r)) (r_log r)) @ drop n out, r1)"
    using raft_commit_entry_body_cases [OF assms(1,2), of n] by (simp add: n_def r1_def)
  have "raft_idle r1" using assms(1) by (simp add: r1_def)
  then have 2: "raft_commit_entry_body r1 out' cap' =
      Some (of_nat m, take m (drop (unat (r_applied r1)) (r_log r)) @ drop m out',
        set_applied (r_applied r1 + of_nat m) r1)"
    using raft_commit_entry_body_cases [OF _ assms(3), of r1 m] by (simp add: m_def r1_def)
  have "take n (drop (unat (r_applied r)) (r_log r)) @ take m (drop (unat (r_applied r1)) (r_log r)) =
      take (n + m) (drop (unat (r_applied r)) (r_log r))"
    using take_add [of n m "drop (unat (r_applied r)) (r_log r)"] by (simp add: a1 add.commute)
  then show ?thesis
    using 1 2 n m a1 a2 cm by (simp add: n_def [symmetric] word_le_nat_alt) (simp add: n_def ready_def)
qed

theorem committed_entries_once_in_order_witness:
  "\<exists>n o1 r1 n' o2 r2. raft_commit_entry_body sample_node [zero_entry] 1 = Some (n, o1, r1) \<and>
    raft_commit_entry_body r1 [] 0 = Some (n', o2, r2) \<and>
    take (unat n) o1 @ take (unat n') o2 =
      take (unat n + unat n') (drop (unat (r_applied sample_node)) (r_log sample_node)) \<and>
    unat (r_applied r2) = unat (r_applied sample_node) + unat n + unat n' \<and>
    r_applied r2 \<le> r_commit sample_node \<and>
    unat n = min (unat (r_commit sample_node) - unat (r_applied sample_node)) (unat (1 :: size_t))"
  by (rule committed_entries_once_in_order [OF sample_node_idle])
    (simp_all add: sample_node_def)

section \<open>Voting\<close>

text \<open>The positions of last entries, ordered by term and then by index.\<close>

datatype log_pos = LogPos (pos_term: raft_term_t) (pos_index: raft_index_t)

instantiation log_pos :: linorder
begin

definition less_eq_log_pos :: "log_pos \<Rightarrow> log_pos \<Rightarrow> bool" where
  "less_eq_log_pos p q = (pos_term p < pos_term q \<or> pos_term p = pos_term q \<and> pos_index p \<le> pos_index q)"

definition less_log_pos :: "log_pos \<Rightarrow> log_pos \<Rightarrow> bool" where
  "less_log_pos p q = (pos_term p < pos_term q \<or> pos_term p = pos_term q \<and> pos_index p < pos_index q)"

instance
proof
  fix x y z :: log_pos
  show "x < y \<longleftrightarrow> x \<le> y \<and> \<not> y \<le> x" by (auto simp: less_eq_log_pos_def less_log_pos_def)
  show "x \<le> x" by (simp add: less_eq_log_pos_def)
  show "x \<le> y \<Longrightarrow> y \<le> z \<Longrightarrow> x \<le> z" by (auto simp: less_eq_log_pos_def)
  show "x \<le> y \<Longrightarrow> y \<le> x \<Longrightarrow> x = y" by (auto simp: less_eq_log_pos_def intro: log_pos.expand)
  show "x \<le> y \<or> y \<le> x" by (auto simp: less_eq_log_pos_def)
qed

end

lemma checkLog_order: "checkLog i t i' t' \<longleftrightarrow> LogPos t' i' \<le> LogPos t i"
  by (auto simp: checkLog_def less_eq_log_pos_def)

definition last_pos :: "raft_node \<Rightarrow> log_pos" where
  "last_pos r = LogPos (if entries r = [] then 0 else le_term (last (entries r))) (r_len r)"

text \<open>
  C12.  A vote is granted only to a candidate whose log is at least as far as the voter's in
  the order of the algorithm (the term of the last entry first, then the length), in a term
  that is not older than the voter's, and, within one term, only if the voter has not voted
  for another candidate.  A voter that grants a vote has it recorded; whether or not it
  grants it, its term is then the larger of the two and its log is untouched.
\<close>

theorem vote_only_for_up_to_date:
  assumes "raft_idle r"
  shows "\<exists>resp r' w'. HandleRequestVoteRequest_body r req w = Some (resp, r', w') \<and>
    r_term r' = max (r_term r) (rv_term req) \<and> entries r' = entries r \<and>
    (rvr_voteGranted resp \<longrightarrow>
      last_pos r \<le> LogPos (rv_lastLogTerm req) (rv_lastLogIndex req) \<and> r_term r \<le> rv_term req \<and>
      (r_term r = rv_term req \<longrightarrow> r_voted r \<in> {RAFT_NONE, rv_candidateId req}) \<and>
      r_voted r' = rv_candidateId req)"
proof -
  have wf: "raft_wf r" using assms by (simp add: raft_idle_def)
  obtain resp r' w' where h: "HandleRequestVoteRequest_body r req w = Some (resp, r', w')"
    "r_term r' = max (r_term r) (rv_term req)" "r_log r' = r_log r" "r_len r' = r_len r"
    "rvr_voteGranted resp \<longrightarrow> r_term r' = rv_term req \<and> r_voted r' = rv_candidateId req \<and>
      (r_term r = rv_term req \<longrightarrow> r_voted r = RAFT_NONE \<or> r_voted r = rv_candidateId req) \<and>
      (\<exists>lt. raft_last_log_term r = Some lt \<and>
        checkLog (rv_lastLogIndex req) (rv_lastLogTerm req) (raft_last_log_index r) lt)"
    using HandleRequestVoteRequest_body_cases [OF assms, of req w] unfolding log_checked_def by blast
  have "r_term r \<le> rv_term req" if "rvr_voteGranted resp" using that h(2,5) by (metis max.cobounded1)
  then show ?thesis
    using h last_log_term_wf [OF wf] entries_cong [OF h(3,4)]
    by (auto simp: last_pos_def checkLog_order raft_last_log_index_def)
qed

theorem vote_only_for_up_to_date_witness:
  "\<exists>resp r' w'. HandleRequestVoteRequest_body sample_node
      \<lparr>rv_term = 4, rv_lastLogIndex = 0, rv_lastLogTerm = 0, rv_candidateId = 2\<rparr> sample_world = Some (resp, r', w') \<and>
    r_term r' = max (r_term sample_node) 4"
  using vote_only_for_up_to_date [OF sample_node_idle,
      of "\<lparr>rv_term = 4, rv_lastLogIndex = 0, rv_lastLogTerm = 0, rv_candidateId = 2\<rparr>" sample_world] by auto

text \<open>
  A vote granted by a voter that lags behind is not counted.  The response carries the
  term the voter had before it adopted the candidate's term, because it is filled in first
  and not refreshed; the candidate, whose term is the newer one, drops it.  (The vote itself
  is recorded, so the voter is bound by it.)
\<close>

theorem lagging_vote_not_counted:
  assumes "raft_idle r" and "r_term r < rv_term req"
    and "HandleRequestVoteRequest_body r req w = Some (resp, r', w')"
    and "raft_idle c" and "rv_term req \<le> r_term c"
  shows "rvr_term resp < r_term r' \<and> HandleRequestVoteResponse_body c resp peer v = Some (c, v)"
proof -
  have t: "rvr_term resp = r_term r" "r_term r' = max (r_term r) (rv_term req)"
    using HandleRequestVoteRequest_body_cases [OF assms(1), of req w] assms(3) by auto
  then have "rvr_term resp < r_term r'" using assms(2) by (simp add: max_def)
  moreover have "rvr_term resp < r_term c" using t(1) assms(2,5) by simp
  then have "HandleRequestVoteResponse_body c resp peer v = Some (c, v)"
    using assms(4) by (auto simp: HandleRequestVoteResponse_body_def raft_idle_def unlock_lock)
  ultimately show ?thesis ..
qed

theorem lagging_vote_not_counted_witness:
  "\<exists>resp r' w'. HandleRequestVoteRequest_body sample_node
      \<lparr>rv_term = 4, rv_lastLogIndex = 0, rv_lastLogTerm = 0, rv_candidateId = 2\<rparr> sample_world = Some (resp, r', w') \<and>
    rvr_term resp < r_term r' \<and>
    HandleRequestVoteResponse_body (set_term 4 sample_node) resp 1 sample_world = Some (set_term 4 sample_node, sample_world)"
proof -
  let ?rq = "\<lparr>rv_term = 4, rv_lastLogIndex = 0, rv_lastLogTerm = 0, rv_candidateId = 2\<rparr>"
  obtain resp r' w' where h: "HandleRequestVoteRequest_body sample_node ?rq sample_world = Some (resp, r', w')"
    using HandleRequestVoteRequest_body_cases [OF sample_node_idle, of ?rq sample_world] by blast
  have "raft_idle (set_term 4 sample_node)" using sample_node_idle by (simp add: raft_idle_def)
  from lagging_vote_not_counted [OF sample_node_idle _ h this, of 1 sample_world] h show ?thesis
    using sample_node_len by (simp add: word_less_nat_alt)
qed

section \<open>Heartbeats and malformed requests\<close>

lemma accept_empty:
  assumes "raft_idle r" and "ae_term req = r_term r" and "ae_prevLogIndex req = 0" and "ae_log_len req = 0"
  shows "\<exists>resp r' w'. HandleAppendEntriesRequest_body r req w = Some (resp, r', w') \<and> aer_success resp \<and>
    entries r' = entries r \<and>
    r_commit r' = (if r_commit r < ae_leaderCommit req then min (ae_leaderCommit req) (r_len r) else r_commit r)"
proof -
  have free: "\<not> mu r" using assms(1) by (simp add: raft_idle_def)
  have a: "adopt_term (r\<lparr>mu := True\<rparr>) (ae_term req) w = (0, r\<lparr>mu := True\<rparr>, w)"
    using assms(2) by (simp add: adopt_term_def)
  obtain r2 w2 where r2: "retimed (ae_follow (r\<lparr>mu := True\<rparr>) req) r2"
    and body: "HandleAppendEntriesRequest_body r req w =
      ae_tail r2 req \<lparr>aer_term = r_term r, aer_success = False, aer_matchIndex = 0\<rparr> w2"
    using HandleAppendEntriesRequest_body_unfold [OF free _ a] assms(2) by auto
  note f = retimed_fields [OF r2]
  have "ae_tail r2 req resp w2 =
      Some (resp\<lparr>aer_success := True, aer_matchIndex := 0\<rparr>, mutex_unlock (ae_learn_commit r2 req), w2)" for resp
    using assms(3,4) by (simp add: ae_tail_def ae_prev_matches_def ae_entries_def)
  then show ?thesis using body f by (simp add: entries_def)
qed

text \<open>
  C40.  A heartbeat commits whatever the follower has.  It names no previous entry and carries
  none, so a follower of the same term accepts it without comparing logs, and moves its
  commit index to the leader's or to the end of its own log, whichever is smaller, even where
  its entries differ from the leader's.
\<close>

theorem heartbeat_commits_unmatched:
  assumes "raft_idle l" and "state l = LEADER" and "raft_idle f" and "r_term f = r_term l"
    and "r_commit f < r_commit l"
  shows "\<exists>hb resp f' w'. heartbeat_tick l rq = Some (True, hb, l) \<and>
    HandleAppendEntriesRequest_body f hb w = Some (resp, f', w') \<and> aer_success resp \<and>
    entries f' = entries f \<and> r_commit f' = min (r_commit l) (r_len f)"
proof -
  obtain hb where hb: "heartbeat_tick l rq = Some (True, hb, l)" "ae_term hb = r_term l"
    "ae_prevLogIndex hb = 0" "ae_log_len hb = 0" "ae_leaderCommit hb = r_commit l"
    using heartbeat_tick_cases [OF assms(1), of rq] assms(2) by auto
  then show ?thesis using accept_empty [OF assms(3), of hb w] assms(4,5) by auto
qed

text \<open>A leader that has committed an entry of term 0, and a follower with an entry of term 7 in its place.\<close>

theorem heartbeat_commits_unmatched_witness:
  "\<exists>l f hb resp f' w'. heartbeat_tick l sample_request = Some (True, hb, l) \<and>
    HandleAppendEntriesRequest_body f hb sample_world = Some (resp, f', w') \<and> aer_success resp \<and>
    entries f' = entries f \<and> r_commit f' = 1 \<and> r_commit l = 1 \<and>
    le_term (entries l ! 0) = 0 \<and> le_term (entries f' ! 0) = 7"
proof -
  let ?c = "\<lparr>cc_type = CORE_CMD_NOOP, room_key = 0, player_id = 0, cc_input = 0\<rparr>"
  let ?l = "set_commit 1 sample_leader" and ?f = "set_term 0 (append_command (set_term 7 sample_node) ?c)"
  have wfn: "raft_wf sample_node" "\<not> mu sample_node" "peer_count sample_node = 2" "r_len sample_node = 0"
    "r_term sample_node = 0" "r_commit sample_node = 0"
    using sample_node_idle sample_node_len by (simp_all add: raft_idle_def)
  have l: "raft_idle ?l" "state ?l = LEADER" "r_term ?l = 0" "r_commit ?l = 1"
    using sample_leader_wf wf_set_commit [of sample_leader 1] by (simp_all add: raft_idle_def)
  have wf7: "raft_wf (set_term 7 sample_node)" using wfn(1) by simp
  note ap = append_command_wf [OF wf7, of ?c, simplified, unfolded wfn(4)]
  have f1: "raft_idle ?f" using ap(1) wfn(2) by (simp add: raft_idle_def append_command_fields)
  have f: "r_term ?f = 0" "r_commit ?f = 0" "unat (r_len ?f) = 1"
    using wfn by (simp_all add: append_command_def Let_def)
  have ef: "entries ?f = entries (append_command (set_term 7 sample_node) ?c)"
    by (rule entries_cong) simp_all
  have e7: "entries (set_term 7 sample_node) = []" using wfn(4) by (simp add: entries_def)
  have el: "entries ?l = entries sample_leader" by (rule entries_cong) simp_all
  have "entries (new_leader sample_node) = []" using wfn(4) by (simp add: entries_def)
  then have l0: "le_term (entries ?l ! 0) = 0"
    unfolding el using append_command_wf(2) [OF new_leader_wf [OF wfn(1)], of ?c] wfn
    by (simp add: sample_leader_def)
  have f0: "le_term (entries ?f ! 0) = 7" unfolding ef using ap(2) e7 by simp
  have lt: "r_term ?f = r_term ?l" "r_commit ?f < r_commit ?l" using l(3,4) f(1,2) by (simp_all add: word_less_nat_alt)
  have rl: "r_len ?f = 1" using f(3) by (simp add: word_unat_eq_iff)
  obtain hb resp f' w' where h: "heartbeat_tick ?l sample_request = Some (True, hb, ?l)"
    "HandleAppendEntriesRequest_body ?f hb sample_world = Some (resp, f', w')" "aer_success resp"
    "entries f' = entries ?f" "r_commit f' = min (r_commit ?l) (r_len ?f)"
    using heartbeat_commits_unmatched [OF l(1,2) f1 lt, of sample_request sample_world] by blast
  have "r_commit f' = 1" unfolding h(5) l(4) rl by simp
  moreover have "le_term (entries f' ! 0) = 7" unfolding h(4) by (rule f0)
  ultimately show ?thesis using h(1-4) l(4) l0 by blast
qed

text \<open>
  The handler trusts the number of entries a request claims.  A request that claims more
  than the \<open>RAFT_APPEND_BATCH\<close> entries its array holds, and whose entries the follower already
  has, makes the loop read past the end of the array: undefined behaviour.
\<close>

theorem oversized_request_reads_out_of_bounds:
  assumes "raft_idle r" and "ae_term req = r_term r" and "ae_prevLogIndex req = 0"
    and "length (ae_log req) = RAFT_APPEND_BATCH" and "RAFT_APPEND_BATCH < unat (ae_log_len req)"
    and "RAFT_APPEND_BATCH \<le> length (entries r)"
    and "\<forall>i < RAFT_APPEND_BATCH. le_index (ae_log req ! i) = of_nat i + 1 \<and>
           le_term (ae_log req ! i) = le_term (entries r ! i)"
  shows "HandleAppendEntriesRequest_body r req w = None"
proof -
  have wf: "raft_wf r" and free: "\<not> mu r" using assms(1) by (simp_all add: raft_idle_def)
  have a: "adopt_term (r\<lparr>mu := True\<rparr>) (ae_term req) w = (0, r\<lparr>mu := True\<rparr>, w)"
    using assms(2) by (simp add: adopt_term_def)
  obtain r2 w2 where r2: "retimed (ae_follow (r\<lparr>mu := True\<rparr>) req) r2"
    and body: "HandleAppendEntriesRequest_body r req w =
      ae_tail r2 req \<lparr>aer_term = r_term r, aer_success = False, aer_matchIndex = 0\<rparr> w2"
    using HandleAppendEntriesRequest_body_unfold [OF free _ a] assms(2) by auto
  note f = retimed_fields [OF r2]
  have len: "unat (r_len r) \<le> 1024" "length (r_log r) = 1024" "64 \<le> unat (r_len r)"
    using wf_bounds(2) [OF wf] wf_lengths(2) [OF wf] entries_length [OF wf] assms(6) by (simp_all add: RAFT_APPEND_BATCH_def)
  have "ae_entry req j (r2, w2) = Some (True, r2, w2)" if "j < 64" for j
  proof -
    have "le_term (ae_log req ! j) = le_term (r_log r ! j)" "le_index (ae_log req ! j) = of_nat j + 1"
      using assms(7) that len(3) by (simp_all add: RAFT_APPEND_BATCH_def entries_nth)
    then show ?thesis
      using that assms(3,4) len f(2)
      by (simp add: ae_entry_def RAFT_APPEND_BATCH_def word_less_nat_alt)
  qed
  then have "ae_entries req r2 w2 = for_ret 64 (unat (ae_log_len req)) (ae_entry req) (r2, w2)"
    unfolding ae_entries_def using assms(5) by (intro for_ret_skip) (simp_all add: RAFT_APPEND_BATCH_def)
  also have "\<dots> = None"
    using assms(4,5) by (simp add: for_ret_step RAFT_APPEND_BATCH_def ae_entry_def)
  finally show ?thesis
    using body assms(3) by (simp add: ae_tail_def ae_prev_matches_def)
qed

theorem oversized_request_reads_out_of_bounds_witness:
  "HandleAppendEntriesRequest_body
     (set_len 64 (set_log (map (\<lambda>i. zero_entry\<lparr>le_index := of_nat i + 1\<rparr>) [0..<1024]) sample_node))
     \<lparr>ae_term = 0, ae_leaderId = 2, ae_prevLogIndex = 0, ae_prevLogTerm = 0, ae_leaderCommit = 0,
      ae_log_len = 65, ae_log = map (\<lambda>i. zero_entry\<lparr>le_index := of_nat i + 1\<rparr>) [0..<64]\<rparr> sample_world = None"
    (is "HandleAppendEntriesRequest_body ?r ?req _ = None")
proof (rule oversized_request_reads_out_of_bounds)
  have n: "raft_idle sample_node" "state sample_node \<noteq> LEADER" "r_term sample_node = 0"
    using sample_node_idle sample_node_len by (simp_all add: sample_node_def)
  then show "raft_idle ?r" "ae_term ?req = r_term ?r" by (simp_all add: raft_idle_def raft_wf_defs raft_caps)
  have e: "entries ?r = map (\<lambda>i. zero_entry\<lparr>le_index := of_nat i + 1\<rparr>) [0..<64]"
    by (simp add: entries_def take_map)
  show "RAFT_APPEND_BATCH \<le> length (entries ?r)" "\<forall>i < RAFT_APPEND_BATCH.
      le_index (ae_log ?req ! i) = of_nat i + 1 \<and> le_term (ae_log ?req ! i) = le_term (entries ?r ! i)"
    unfolding e by (simp_all add: RAFT_APPEND_BATCH_def)
qed (simp_all add: RAFT_APPEND_BATCH_def)

end
