(* ===== verification/Chord.thy ===== *)
theory Chord
  imports Posix
begin

text \<open>
  The Chord ring (\<open>src/tetrish/system_programs/chord.c\<close>, \<open>include/tetrish/chord.h\<close>):
  identifiers are bytes on a ring of \<open>KEYSPACE\<close> positions, each node keeps \<open>M_BITS\<close> fingers
  with the interval each is responsible for and the successor of its start.  The lemmas
  relate the code's arithmetic to clockwise distances on the ring.
\<close>

section \<open>Data\<close>

definition M_BITS :: nat where "M_BITS = 3"
definition KEYSPACE :: u32 where "KEYSPACE = push_bit M_BITS 1"

type_synonym chord_id_t = u8

record chord_peer =
  cp_id :: chord_id_t

record finger_entry =
  fe_start :: chord_id_t
  fe_end :: chord_id_t
  fe_successor :: chord_peer

record chord_node =
  cn_id :: chord_id_t
  cn_predecessor :: chord_peer
  cn_successor :: chord_peer
  fingers :: "finger_entry list"

section \<open>Operations\<close>

text \<open>An out-of-range finger number gives \<open>UINT8_MAX\<close>.\<close>

definition finger_start :: "u8 \<Rightarrow> u8 \<Rightarrow> chord_id_t" where
  "finger_start node_id finger =
     (if finger < 1 \<or> unat finger > M_BITS then - 1
      else ucast ((ucast node_id + push_bit (unat finger - 1) 1 :: u32) mod KEYSPACE))"

definition finger_interval_end :: "u8 \<Rightarrow> u8 \<Rightarrow> chord_id_t" where
  "finger_interval_end node_id finger =
     (if finger < 1 \<or> unat finger > M_BITS then - 1
      else ucast ((ucast node_id + push_bit (unat finger) 1 :: u32) mod KEYSPACE))"

definition calculate_fingertable_body :: "chord_node \<Rightarrow> chord_node option" where
  "calculate_fingertable_body node =
     for_from 0 M_BITS
       (\<lambda>i node. do {
          let fingeridx = of_nat (i + 1);
          fs \<leftarrow> arr_set (fingers node) i
            \<lparr>fe_start = finger_start (cn_id node) fingeridx,
             fe_end = finger_interval_end (cn_id node) fingeridx,
             fe_successor = cn_successor node\<rparr>;
          Some (node\<lparr>fingers := fs\<rparr>)
        }) node"

definition calculate_fingertable :: "chord_node option \<Rightarrow> chord_node option option" where
  "calculate_fingertable np =
     (case np of None \<Rightarrow> Some None
      | Some node \<Rightarrow> do { node \<leftarrow> calculate_fingertable_body node; Some (Some node) })"

text \<open>
  The loop leaves the function with the first peer at or after the key; otherwise the search
  wraps around to the first peer, which is read without a check.
\<close>

definition find_successor_linear :: "chord_id_t \<Rightarrow> chord_peer list \<Rightarrow> nat \<Rightarrow> chord_peer option" where
  "find_successor_linear key ps peer_count = do {
     (missing, found) \<leftarrow>
       for_ret 0 peer_count
         (\<lambda>i s. do {
            p \<leftarrow> arr_get ps i;
            Some (if cp_id p \<ge> key then (False, Some p) else (True, s))
          }) None;
     if missing then arr_get ps 0 else found
   }"

definition calculate_fingertable_known_nodes_body ::
  "chord_node \<Rightarrow> chord_peer list \<Rightarrow> nat \<Rightarrow> chord_node option" where
  "calculate_fingertable_known_nodes_body node ps peer_count =
     for_from 0 M_BITS
       (\<lambda>i node. do {
          let fingeridx = of_nat (i + 1);
          let start = finger_start (cn_id node) fingeridx;
          s \<leftarrow> find_successor_linear start ps peer_count;
          fs \<leftarrow> arr_set (fingers node) i
            \<lparr>fe_start = start, fe_end = finger_interval_end (cn_id node) fingeridx, fe_successor = s\<rparr>;
          Some (node\<lparr>fingers := fs\<rparr>)
        }) node"

definition calculate_fingertable_known_nodes ::
  "chord_node option \<Rightarrow> chord_peer list option \<Rightarrow> nat \<Rightarrow> chord_node option option" where
  "calculate_fingertable_known_nodes np pp peer_count =
     (case (np, pp) of
        (Some node, Some ps) \<Rightarrow>
          if peer_count = 0 then Some np
          else do { node \<leftarrow> calculate_fingertable_known_nodes_body node ps peer_count; Some (Some node) }
      | _ \<Rightarrow> Some np)"

section \<open>The program\<close>

text \<open>
  It prints the intervals of node 6, its finger table when it is alone, and its finger table on
  a ring of four nodes.  The fingers of the first node are whatever the stack holds.
\<close>

definition u8_text :: "u8 \<Rightarrow> string" where
  "u8_text x = dec (unat x)"

definition interval_line :: "nat \<Rightarrow> u8 \<Rightarrow> u8 \<Rightarrow> string" where
  "interval_line f a b =
     ''finger['' @ dec f @ ''].start = '' @ u8_text a @ '' |finger['' @ dec f @ ''].interval = ['' @
     u8_text a @ '','' @ u8_text b @ '')'' @ [NL]"

definition finger_line :: "nat \<Rightarrow> finger_entry \<Rightarrow> string" where
  "finger_line i f =
     ''i = '' @ dec (i + 1) @ '' |finger['' @ dec (i + 1) @ ''].start = '' @ u8_text (fe_start f) @
     '' | interval = ['' @ u8_text (fe_start f) @ '','' @ u8_text (fe_end f) @ '') | successor = '' @
     u8_text (cp_id (fe_successor f)) @ [NL]"

definition print_fingers :: "chord_node \<Rightarrow> string option" where
  "print_fingers node =
     for_from 0 M_BITS (\<lambda>i out. do { f \<leftarrow> arr_get (fingers node) i; Some (out @ finger_line i f) }) []"

definition chord_main :: "finger_entry list \<Rightarrow> string option" where
  "chord_main stack = do {
     let node_id = 6;
     let intervals = concat (map (\<lambda>f. interval_line f (finger_start node_id (of_nat f))
           (finger_interval_end node_id (of_nat f))) [1..<M_BITS + 1]);
     let node = \<lparr>cn_id = 6, cn_predecessor = \<lparr>cp_id = 6\<rparr>, cn_successor = \<lparr>cp_id = 6\<rparr>, fingers = stack\<rparr>;
     node \<leftarrow> calculate_fingertable_body node;
     single \<leftarrow> print_fingers node;
     let ps = [\<lparr>cp_id = 0\<rparr>, \<lparr>cp_id = 1\<rparr>, \<lparr>cp_id = 3\<rparr>, \<lparr>cp_id = 6\<rparr>];
     let node2 = \<lparr>cn_id = 6, cn_predecessor = \<lparr>cp_id = 3\<rparr>, cn_successor = \<lparr>cp_id = 0\<rparr>,
           fingers = replicate M_BITS \<lparr>fe_start = 0, fe_end = 0, fe_successor = \<lparr>cp_id = 0\<rparr>\<rparr>\<rparr>;
     node2 \<leftarrow> calculate_fingertable_known_nodes_body node2 ps 4;
     multi \<leftarrow> print_fingers node2;
     Some (''Test Chord'' @ [NL] @ intervals @ ''Testing table calculation (single node)'' @ [NL] @ single @
       ''Testing table calculation (multi node)'' @ [NL] @ multi)
   }"

section \<open>The ring\<close>

text \<open>The number of steps clockwise from one position to another.\<close>

definition clockwise :: "chord_id_t \<Rightarrow> chord_id_t \<Rightarrow> nat" where
  "clockwise a b = (unat b + 8 - unat a) mod 8"

definition on_ring :: "chord_id_t \<Rightarrow> bool" where
  "on_ring a = (unat a < 8)"

lemma KEYSPACE_unat [simp]: "unat KEYSPACE = 8"
  by (simp add: KEYSPACE_def M_BITS_def push_bit_eq_mult)

lemma ring_position:
  assumes "c \<le> 8"
  shows "unat (ucast ((ucast (n :: u8) + of_nat c :: u32) mod KEYSPACE) :: u8) = (unat n + c) mod 8"
proof -
  have "unat n < 256" using unsigned_less [of n, where 'a = nat] by simp
  then have "unat (ucast n + of_nat c :: u32) = unat n + c"
    using assms by (subst unat_word_ariths(1)) (simp add: unsigned_ucast_eq unsigned_of_nat take_bit_nat_eq_self)
  then have "unat ((ucast n + of_nat c :: u32) mod KEYSPACE) = (unat n + c) mod 8"
    by (simp add: unat_mod_distrib)
  moreover have "(unat n + c) mod 8 < 2 ^ 8" by (rule less_trans [of _ 8]) simp_all
  ultimately show ?thesis by (simp add: unsigned_ucast_eq take_bit_nat_eq_self)
qed

lemma finger_number: "k \<in> {1, 2, 3} \<Longrightarrow> \<not> ((of_nat k :: u8) < 1) \<and> unat (of_nat k :: u8) = k"
  by (auto simp: word_less_nat_alt)

lemma unat_finger_start:
  assumes "k \<in> {1, 2, 3}"
  shows "unat (finger_start n (of_nat k)) = (unat n + 2 ^ (k - 1)) mod 8"
proof -
  have "push_bit (k - 1) 1 = (of_nat (2 ^ (k - 1)) :: u32)" by (simp add: push_bit_eq_mult)
  then show ?thesis
    using assms finger_number [OF assms] ring_position [of "2 ^ (k - 1)" n]
    by (auto simp: finger_start_def M_BITS_def)
qed

lemma unat_finger_end:
  assumes "k \<in> {1, 2, 3}"
  shows "unat (finger_interval_end n (of_nat k)) = (unat n + 2 ^ k) mod 8"
proof -
  have "push_bit k 1 = (of_nat (2 ^ k) :: u32)" by (simp add: push_bit_eq_mult)
  then show ?thesis
    using assms finger_number [OF assms] ring_position [of "2 ^ k" n]
    by (auto simp: finger_interval_end_def M_BITS_def)
qed

text \<open>A key is in the half-open interval of a finger when it is met on the way from start to end.\<close>

definition in_interval :: "chord_id_t \<Rightarrow> chord_id_t \<Rightarrow> chord_id_t \<Rightarrow> bool" where
  "in_interval a b key = (clockwise a key < (if a = b then 8 else clockwise a b))"

lemma ring_arith:
  assumes "a < 8" and "b < 8" and "k \<in> {1, 2, 3}"
  shows "((b + 8 - (a + 2 ^ (k - 1)) mod 8) mod 8 < ((a + 2 ^ k) mod 8 + 8 - (a + 2 ^ (k - 1)) mod 8) mod 8) =
    (2 ^ (k - 1) \<le> (b + 8 - a) mod 8 \<and> (b + 8 - a) mod (8 :: nat) < 2 ^ k)" (is ?P)
    and "(a + 2 ^ (k - 1)) mod 8 \<noteq> (a + 2 ^ k) mod (8 :: nat)" (is ?Q)
proof -
  have *: "\<forall>a \<in> set [0..<8]. \<forall>b \<in> set [0..<8]. \<forall>k \<in> set [1..<4].
    ((b + 8 - (a + 2 ^ (k - 1)) mod 8) mod 8 < ((a + 2 ^ k) mod 8 + 8 - (a + 2 ^ (k - 1)) mod 8) mod 8) =
    (2 ^ (k - 1) \<le> (b + 8 - a) mod 8 \<and> (b + 8 - a) mod (8 :: nat) < 2 ^ k) \<and>
    (a + 2 ^ (k - 1)) mod 8 \<noteq> (a + 2 ^ k) mod (8 :: nat)"
    by code_simp
  have "a \<in> set [0..<8]" "b \<in> set [0..<8]" "k \<in> set [1..<4]" using assms by auto
  with * show ?P ?Q by blast+
qed

lemma clockwise_pos:
  assumes "on_ring a" and "on_ring b" and "a \<noteq> b"
  shows "0 < clockwise a b" "clockwise a b < 8"
proof -
  have "\<forall>a \<in> set [0..<8]. \<forall>b \<in> set [0..<8]. a \<noteq> b \<longrightarrow> 0 < (b + 8 - a) mod (8 :: nat)" by code_simp
  moreover have "unat a \<in> set [0..<8]" "unat b \<in> set [0..<8]" "unat a \<noteq> unat b"
    using assms by (auto simp: on_ring_def word_unat_eq_iff)
  ultimately show "0 < clockwise a b" by (auto simp: clockwise_def)
qed (simp add: clockwise_def)

lemma finger_interval_by_distance:
  assumes "k \<in> {1, 2, 3}" and "on_ring n" and "on_ring key"
  shows "in_interval (finger_start n (of_nat k)) (finger_interval_end n (of_nat k)) key \<longleftrightarrow>
    2 ^ (k - 1) \<le> clockwise n key \<and> clockwise n key < 2 ^ k"
proof -
  let ?s = "finger_start n (of_nat k)" and ?e = "finger_interval_end n (of_nat k)"
  have n: "unat n < 8" "unat key < 8" using assms by (simp_all add: on_ring_def)
  have s: "unat ?s = (unat n + 2 ^ (k - 1)) mod 8" and e: "unat ?e = (unat n + 2 ^ k) mod 8"
    using assms(1) by (rule unat_finger_start, rule unat_finger_end)
  have "?s \<noteq> ?e" using s e ring_arith(2) [OF n assms(1)] by auto
  then show ?thesis
    unfolding in_interval_def clockwise_def s e using ring_arith(1) [OF n assms(1)] by simp
qed

text \<open>
  The fingers of a node divide the rest of the ring among themselves: a key other than
  the node's own identifier lies in the interval of exactly one finger, the one whose
  number is the bit length of the clockwise distance.
\<close>

theorem fingers_partition_ring:
  assumes "on_ring n" and "on_ring key" and "key \<noteq> n"
  shows "\<exists>!k. k \<in> {1, 2, 3} \<and> in_interval (finger_start n (of_nat k)) (finger_interval_end n (of_nat k)) key"
proof -
  let ?d = "clockwise n key"
  have "0 < ?d" "?d < 8" using clockwise_pos [OF assms(1,2)] assms(3) by auto
  then consider "?d = 1" | "?d \<in> {2, 3}" | "?d \<in> {4, 5, 6, 7}" by fastforce
  then have "\<exists>!k. k \<in> {1, 2, 3 :: nat} \<and> 2 ^ (k - 1) \<le> ?d \<and> ?d < 2 ^ k"
  proof cases
    case 1
    then show ?thesis by (intro ex1I [of _ 1]) auto
  next
    case 2
    then show ?thesis by (intro ex1I [of _ 2]) auto
  next
    case 3
    then show ?thesis by (intro ex1I [of _ 3]) auto
  qed
  then show ?thesis using finger_interval_by_distance [OF _ assms(1,2)] by metis
qed

theorem fingers_partition_ring_witness:
  "\<exists>!k. k \<in> {1, 2, 3} \<and> in_interval (finger_start 6 (of_nat k)) (finger_interval_end 6 (of_nat k)) 1"
  by (rule fingers_partition_ring) (simp_all add: on_ring_def)

section \<open>Successors\<close>

text \<open>The first peer at or after the key, or the first peer of all.\<close>

lemma find_successor_spec:
  assumes "n \<le> length ps" and "0 < n"
  shows "find_successor_linear key ps n =
    Some (case find (\<lambda>p. key \<le> cp_id p) (take n ps) of Some p \<Rightarrow> p | None \<Rightarrow> hd ps)"
proof -
  let ?b = "\<lambda>i s. do {
      p \<leftarrow> arr_get ps i; Some (if cp_id p \<ge> key then (False, Some p) else (True, s)) }"
  have "for_ret (n - m) n ?b None =
      (case find (\<lambda>p. key \<le> cp_id p) (drop (n - m) (take n ps)) of
         Some p \<Rightarrow> Some (False, Some p) | None \<Rightarrow> Some (True, None))" if "m \<le> n" for m
    using that
  proof (induction m)
    case 0
    then show ?case by simp
  next
    case (Suc m)
    let ?i = "n - Suc m"
    have i: "?i < n" "Suc ?i = n - m" using Suc.prems by auto
    have "drop ?i (take n ps) = ps ! ?i # drop (Suc ?i) (take n ps)"
      using i(1) assms(1) by (subst Cons_nth_drop_Suc [symmetric]) simp_all
    then show ?case using i assms(1) Suc by (simp add: for_ret_step)
  qed
  from this [of n] show ?thesis
    using assms by (cases ps; cases "find (\<lambda>p. key \<le> cp_id p) (take n ps)")
      (auto simp: find_successor_linear_def)
qed

definition ring_sorted :: "chord_peer list \<Rightarrow> bool" where
  "ring_sorted ps = (sorted (map (\<lambda>p. unat (cp_id p)) ps) \<and> (\<forall>p \<in> set ps. on_ring (cp_id p)))"

lemma find_first:
  assumes "sorted (map f xs)" and "find (\<lambda>x. k \<le> f x) xs = Some x"
  shows "x \<in> set xs" "k \<le> f x" "\<And>y. y \<in> set xs \<Longrightarrow> k \<le> f y \<Longrightarrow> f x \<le> f y"
  using assms by (induction xs) (auto split: if_splits)

text \<open>Clockwise distances before and after the wrap-around.\<close>

lemma clockwise_after:
  assumes "on_ring a" and "on_ring b" and "a \<le> b"
  shows "clockwise a b = unat b - unat a"
proof -
  have "unat b + 8 - unat a = (unat b - unat a) + 8" using assms(3) by (simp add: word_le_nat_alt)
  then have "clockwise a b = (unat b - unat a) mod 8" by (simp only: clockwise_def mod_add_self2)
  moreover have "unat b - unat a < 8" using assms(2) by (simp add: on_ring_def less_imp_diff_less)
  ultimately show ?thesis by simp
qed

lemma clockwise_before: "on_ring a \<Longrightarrow> on_ring b \<Longrightarrow> b < a \<Longrightarrow> clockwise a b = unat b + 8 - unat a"
  by (simp add: clockwise_def on_ring_def word_less_nat_alt)

lemma successor_nearest:
  assumes "ring_sorted ps" and "ps \<noteq> []" and "on_ring key"
  shows "\<exists>s. find_successor_linear key ps (length ps) = Some s \<and> s \<in> set ps \<and>
    (\<forall>p \<in> set ps. clockwise key (cp_id s) \<le> clockwise key (cp_id p))"
proof -
  have srt: "sorted (map (\<lambda>p. unat (cp_id p)) ps)" and ring: "\<forall>p \<in> set ps. on_ring (cp_id p)"
    using assms(1) by (simp_all add: ring_sorted_def)
  have find_unat: "find (\<lambda>p. key \<le> cp_id p) ps = find (\<lambda>p. unat key \<le> unat (cp_id p)) ps"
    by (simp add: word_le_nat_alt)
  show ?thesis
  proof (cases "find (\<lambda>p. key \<le> cp_id p) ps")
    case None
    then have before: "\<forall>p \<in> set ps. cp_id p < key" by (auto simp: find_None_iff not_le)
    have hd: "hd ps \<in> set ps" using assms(2) by simp
    have first: "unat (cp_id (hd ps)) \<le> unat (cp_id p)" if "p \<in> set ps" for p
      using srt assms(2) that by (cases ps) auto
    have "clockwise key (cp_id (hd ps)) \<le> clockwise key (cp_id p)" if "p \<in> set ps" for p
      using clockwise_before [OF assms(3)] ring before hd that first [OF that] by (simp add: diff_le_mono)
    then show ?thesis using find_successor_spec [of "length ps" ps key] assms(2) None hd by simp
  next
    case (Some s)
    note f = find_first [OF srt Some [unfolded find_unat]]
    have "clockwise key (cp_id s) \<le> clockwise key (cp_id p)" if "p \<in> set ps" for p
    proof (cases "key \<le> cp_id p")
      case True
      then show ?thesis
        using f that ring assms(3) by (simp add: clockwise_after word_le_nat_alt diff_le_mono)
    next
      case False
      then have "clockwise key (cp_id p) = unat (cp_id p) + 8 - unat key"
        using that ring assms(3) by (simp add: clockwise_before)
      moreover have "unat (cp_id s) < 8" using f(1) ring by (simp add: on_ring_def)
      then have "unat (cp_id s) - unat key \<le> unat (cp_id p) + 8 - unat key" by simp
      ultimately show ?thesis
        using f(1,2) ring assms(3) by (simp add: clockwise_after word_le_nat_alt)
    qed
    then show ?thesis using find_successor_spec [of "length ps" ps key] assms(2) Some f(1) by simp
  qed
qed

text \<open>
  On a ring whose peers are listed in increasing order the linear search finds the
  successor of the key: one of the peers, and none is met earlier going clockwise from it.
\<close>

theorem find_successor_is_nearest:
  assumes "ring_sorted ps" and "ps \<noteq> []" and "on_ring key"
  shows "\<exists>s. find_successor_linear key ps (length ps) = Some s \<and> s \<in> set ps \<and>
    (\<forall>p \<in> set ps. clockwise key (cp_id s) \<le> clockwise key (cp_id p))"
  using assms by (rule successor_nearest)

definition sample_ring :: "chord_peer list" where
  "sample_ring = [\<lparr>cp_id = 0\<rparr>, \<lparr>cp_id = 1\<rparr>, \<lparr>cp_id = 3\<rparr>, \<lparr>cp_id = 6\<rparr>]"

lemma sample_ring_sorted: "ring_sorted sample_ring" "sample_ring \<noteq> []"
  by (simp_all add: ring_sorted_def sample_ring_def on_ring_def)

theorem find_successor_is_nearest_witness:
  "\<exists>s. find_successor_linear 7 sample_ring (length sample_ring) = Some s \<and> s \<in> set sample_ring \<and>
    (\<forall>p \<in> set sample_ring. clockwise 7 (cp_id s) \<le> clockwise 7 (cp_id p))"
  by (rule find_successor_is_nearest [OF sample_ring_sorted]) (simp add: on_ring_def)

text \<open>
  C27.  The finger table.  For a node on a ring of known peers, all finger entries are filled:
  entry \<open>i\<close> starts \<open>2\<^sup>i\<close> positions after the node and ends where the next one starts (the last
  one at the node itself), and its successor is the nearest peer from the start.
\<close>

theorem fingertable_known_nodes_correct:
  assumes "ring_sorted ps" and "ps \<noteq> []" and "on_ring (cn_id node)" and "length (fingers node) = M_BITS"
  shows "\<exists>node'. calculate_fingertable_known_nodes (Some node) (Some ps) (length ps) = Some (Some node') \<and>
    cn_id node' = cn_id node \<and> length (fingers node') = M_BITS \<and>
    (\<forall>i < M_BITS. let f = fingers node' ! i in
       unat (fe_start f) = (unat (cn_id node) + 2 ^ i) mod 8 \<and>
       unat (fe_end f) = (unat (cn_id node) + 2 ^ (i + 1)) mod 8 \<and>
       fe_successor f \<in> set ps \<and>
       (\<forall>p \<in> set ps. clockwise (fe_start f) (cp_id (fe_successor f)) \<le> clockwise (fe_start f) (cp_id p)))"
proof -
  let ?ok = "\<lambda>f i. unat (fe_start f) = (unat (cn_id node) + 2 ^ i) mod 8 \<and>
       unat (fe_end f) = (unat (cn_id node) + 2 ^ (i + 1)) mod 8 \<and> fe_successor f \<in> set ps \<and>
       (\<forall>p \<in> set ps. clockwise (fe_start f) (cp_id (fe_successor f)) \<le> clockwise (fe_start f) (cp_id p))"
  let ?P = "\<lambda>j n. cn_id n = cn_id node \<and> length (fingers n) = 3 \<and> (\<forall>i < j. ?ok (fingers n ! i) i)"
  have "\<exists>n. calculate_fingertable_known_nodes_body node ps (length ps) = Some n \<and> ?P M_BITS n"
    unfolding calculate_fingertable_known_nodes_body_def
  proof (rule for_from_rule [where P = ?P])
    fix j n
    assume j: "j < M_BITS" and n: "?P j n"
    have k: "j + 1 \<in> {1, 2, 3}" using j by (auto simp: M_BITS_def)
    let ?s = "finger_start (cn_id node) (of_nat (j + 1))"
    have s: "unat ?s = (unat (cn_id node) + 2 ^ j) mod 8" using unat_finger_start [OF k] by simp
    then have "on_ring ?s" by (simp add: on_ring_def)
    then obtain p where p: "find_successor_linear ?s ps (length ps) = Some p" "p \<in> set ps"
      "\<forall>q \<in> set ps. clockwise ?s (cp_id p) \<le> clockwise ?s (cp_id q)"
      using successor_nearest [OF assms(1,2)] by blast
    let ?f = "\<lparr>fe_start = ?s, fe_end = finger_interval_end (cn_id node) (of_nat (j + 1)), fe_successor = p\<rparr>"
    have "?ok ?f j" using s p unat_finger_end [OF k] by simp
    then have "?P (Suc j) (n\<lparr>fingers := (fingers n)[j := ?f]\<rparr>)"
      using n j by (simp add: less_Suc_eq nth_list_update M_BITS_def)
    then show "\<exists>n'. (let fingeridx = of_nat (j + 1); start = finger_start (cn_id n) fingeridx in
          find_successor_linear start ps (length ps) \<bind> (\<lambda>s. arr_set (fingers n) j
            \<lparr>fe_start = start, fe_end = finger_interval_end (cn_id n) fingeridx, fe_successor = s\<rparr> \<bind>
          (\<lambda>fs. Some (n\<lparr>fingers := fs\<rparr>)))) = Some n' \<and> ?P (Suc j) n'"
      using n p(1) j by (simp add: M_BITS_def Let_def)
  qed (use assms(4) in \<open>simp_all add: M_BITS_def\<close>)
  then show ?thesis
    using assms(2) by (auto simp: calculate_fingertable_known_nodes_def Let_def M_BITS_def)
qed

theorem fingertable_known_nodes_correct_witness:
  "\<exists>node'. calculate_fingertable_known_nodes
      (Some \<lparr>cn_id = 6, cn_predecessor = \<lparr>cp_id = 3\<rparr>, cn_successor = \<lparr>cp_id = 0\<rparr>,
        fingers = replicate 3 \<lparr>fe_start = 0, fe_end = 0, fe_successor = \<lparr>cp_id = 0\<rparr>\<rparr>\<rparr>)
      (Some sample_ring) (length sample_ring) = Some (Some node') \<and> cn_id node' = 6"
  using fingertable_known_nodes_correct [OF sample_ring_sorted,
      of "\<lparr>cn_id = 6, cn_predecessor = \<lparr>cp_id = 3\<rparr>, cn_successor = \<lparr>cp_id = 0\<rparr>,
        fingers = replicate 3 \<lparr>fe_start = 0, fe_end = 0, fe_successor = \<lparr>cp_id = 0\<rparr>\<rparr>\<rparr>"]
  by (auto simp: on_ring_def M_BITS_def)

text \<open>What the program prints: on the ring of four nodes the fingers of node 6 lead to 0, 0 and 3.\<close>

theorem chord_main_report:
  assumes "length stack = M_BITS"
  shows "chord_main stack = Some (''Test Chord'' @ [NL] @
    interval_line 1 7 0 @ interval_line 2 0 2 @ interval_line 3 2 6 @
    ''Testing table calculation (single node)'' @ [NL] @
    finger_line 0 \<lparr>fe_start = 7, fe_end = 0, fe_successor = \<lparr>cp_id = 6\<rparr>\<rparr> @
    finger_line 1 \<lparr>fe_start = 0, fe_end = 2, fe_successor = \<lparr>cp_id = 6\<rparr>\<rparr> @
    finger_line 2 \<lparr>fe_start = 2, fe_end = 6, fe_successor = \<lparr>cp_id = 6\<rparr>\<rparr> @
    ''Testing table calculation (multi node)'' @ [NL] @
    finger_line 0 \<lparr>fe_start = 7, fe_end = 0, fe_successor = \<lparr>cp_id = 0\<rparr>\<rparr> @
    finger_line 1 \<lparr>fe_start = 0, fe_end = 2, fe_successor = \<lparr>cp_id = 0\<rparr>\<rparr> @
    finger_line 2 \<lparr>fe_start = 2, fe_end = 6, fe_successor = \<lparr>cp_id = 3\<rparr>\<rparr>)"
proof -
  have starts: "finger_start 6 1 = 7" "finger_start 6 2 = 0" "finger_start 6 3 = 2"
    "finger_interval_end 6 1 = 0" "finger_interval_end 6 2 = 2" "finger_interval_end 6 3 = 6" by code_simp+
  have finds: "find_successor_linear 7 sample_ring 4 = Some \<lparr>cp_id = 0\<rparr>"
    "find_successor_linear 0 sample_ring 4 = Some \<lparr>cp_id = 0\<rparr>" "find_successor_linear 2 sample_ring 4 = Some \<lparr>cp_id = 3\<rparr>"
    by code_simp+
  obtain a b c where "stack = [a, b, c]" using assms by (auto simp: M_BITS_def length_Suc_conv numeral_3_eq_3)
  then show ?thesis
    using starts finds
    by (simp add: chord_main_def print_fingers_def calculate_fingertable_body_def
        calculate_fingertable_known_nodes_body_def M_BITS_def numeral_2_eq_2 numeral_3_eq_3 for_from_step Let_def sample_ring_def
        upt_rec)
qed

end
