(* ===== verification/Cstring.thy ===== *)
theory Cstring
  imports Posix "HOL-Library.Sublist" "HOL-Library.List_Lexorder" "HOL-Library.Char_ord"
begin

text \<open>
  C strings and byte buffers beyond what \<open>Posix\<close> has: the character classes of the C locale,
  \<open>memmove\<close>, \<open>memcpy\<close> and \<open>snprintf\<close> on a checked buffer, \<open>strtok\<close>, \<open>strrchr\<close> and the
  comparisons of prefixes.  Strings are ordered as \<open>strcmp\<close> orders them, by unsigned bytes.
\<close>

abbreviation TAB :: char where "TAB \<equiv> CHR 0x09"

section \<open>Character classes\<close>

definition c_isprint :: "char \<Rightarrow> bool" where
  "c_isprint c = (let n = (of_char c :: nat) in 32 \<le> n \<and> n \<le> 126)"

definition c_isalnum :: "char \<Rightarrow> bool" where
  "c_isalnum c = (let n = (of_char c :: nat) in (48 \<le> n \<and> n \<le> 57) \<or> (65 \<le> n \<and> n \<le> 90) \<or> (97 \<le> n \<and> n \<le> 122))"

lemma isprint_neq [simp]:
  "c_isprint c \<Longrightarrow> c \<noteq> NL" "c_isprint c \<Longrightarrow> c \<noteq> NUL" "c_isprint c \<Longrightarrow> c \<noteq> CHR 0x7F"
  "c_isprint c \<Longrightarrow> c \<noteq> CHR 0x08" "c_isprint c \<Longrightarrow> c \<noteq> CHR 0x04" "c_isprint c \<Longrightarrow> c \<noteq> CHR 0x1B"
  "c_isprint c \<Longrightarrow> c \<noteq> CHR 0x09"
  by (auto simp: c_isprint_def)

lemma NUL_not_print [simp]: "\<not> c_isprint NUL"
  by (simp add: c_isprint_def)

section \<open>Buffers\<close>

definition memmove :: "'a list \<Rightarrow> nat \<Rightarrow> nat \<Rightarrow> nat \<Rightarrow> 'a list option" where
  "memmove a dst src n =
     (if dst + n \<le> length a \<and> src + n \<le> length a
      then Some (take dst a @ take n (drop src a) @ drop (dst + n) a) else None)"

definition memcpy :: "'a list \<Rightarrow> nat \<Rightarrow> 'a list \<Rightarrow> 'a list option" where
  "memcpy a dst xs =
     (if dst + length xs \<le> length a then Some (take dst a @ xs @ drop (dst + length xs) a) else None)"

lemma memmove_length [c_mem]: "memmove a dst src n = Some b \<Longrightarrow> length b = length a"
  by (auto simp: memmove_def split: if_splits)

lemma memcpy_length [c_mem]: "memcpy a dst xs = Some b \<Longrightarrow> length b = length a"
  by (auto simp: memcpy_def split: if_splits)

text \<open>
  \<open>snprintf(buf, sizeof buf, "%s", s)\<close> cuts the text off but returns its full length;
  \<open>printf("%.*s", n, buf)\<close> reads up to \<open>n\<close> characters or a null.
\<close>

definition snprintf :: "string \<Rightarrow> string \<Rightarrow> string \<times> nat" where
  "snprintf buf s =
     (if buf = [] then buf
      else let t = take (length buf - 1) s in t @ [NUL] @ drop (Suc (length t)) buf, length s)"

lemma snprintf_fits:
  "length s < length buf \<Longrightarrow> snprintf buf s = (s @ [NUL] @ drop (Suc (length s)) buf, length s)"
  by (auto simp: snprintf_def Let_def)

definition printf_prec :: "string \<Rightarrow> nat \<Rightarrow> string option" where
  "printf_prec buf n = (if n \<le> length buf \<or> NUL \<in> set buf then Some (cstr (take n buf)) else None)"

lemma printf_prec_defined [simp]: "n \<le> length buf \<Longrightarrow> \<exists>t. printf_prec buf n = Some t"
  by (simp add: printf_prec_def)

section \<open>Tokens\<close>

text \<open>All tokens of repeated calls of \<open>strtok\<close>; \<open>d\<close> recognises the delimiters.\<close>

function strtok_all :: "(char \<Rightarrow> bool) \<Rightarrow> string \<Rightarrow> string list" where
  "strtok_all d s =
     (let t = dropWhile d s in
      if t = [] then [] else takeWhile (\<lambda>c. \<not> d c) t # strtok_all d (dropWhile (\<lambda>c. \<not> d c) t))"
  by pat_completeness auto
termination
proof (relation "measure (length \<circ> snd)")
  fix d :: "char \<Rightarrow> bool" and s t :: string
  assume t: "t = dropWhile d s" "t \<noteq> []"
  from t(2) obtain c cs where c: "t = c # cs" by (meson list.exhaust)
  with t(1) have "\<not> d c" by (metis dropWhile_eq_Cons_conv)
  then have "length (dropWhile (\<lambda>c. \<not> d c) t) < length t"
    using c length_dropWhile_le [of "\<lambda>c. \<not> d c" cs] by simp
  then show "((d, dropWhile (\<lambda>c. \<not> d c) t), d, s) \<in> measure (length \<circ> snd)"
    using length_dropWhile_le [of d s] t(1) by simp
qed simp

declare strtok_all.simps [simp del]

lemma strtok_all_Nil [simp]: "strtok_all d [] = []"
  by (simp add: strtok_all.simps)

lemma strtok_all_delim [simp]: "d c \<Longrightarrow> strtok_all d (c # s) = strtok_all d s"
  by (simp add: strtok_all.simps)

lemma strtok_all_sound: "t \<in> set (strtok_all d s) \<Longrightarrow> t \<noteq> [] \<and> (\<forall>c \<in> set t. \<not> d c \<and> c \<in> set s)"
proof (induction d s rule: strtok_all.induct)
  case (1 d s)
  let ?t = "dropWhile d s"
  show ?case
  proof (cases "?t = []")
    case True
    then show ?thesis using "1.prems" by (simp add: strtok_all.simps [of d s])
  next
    case False
    then obtain c cs where c: "?t = c # cs" by (meson list.exhaust)
    then have "\<not> d c" by (metis dropWhile_eq_Cons_conv)
    from "1.prems" have "t \<in> set (takeWhile (\<lambda>c. \<not> d c) ?t # strtok_all d (dropWhile (\<lambda>c. \<not> d c) ?t))"
      by (simp only: strtok_all.simps [of d s] Let_def False if_False)
    then consider "t = takeWhile (\<lambda>c. \<not> d c) ?t" | "t \<in> set (strtok_all d (dropWhile (\<lambda>c. \<not> d c) ?t))"
      by (metis set_ConsD)
    then show ?thesis
    proof cases
      case 1
      with c \<open>\<not> d c\<close> have "t \<noteq> []" by simp
      moreover have "\<forall>c \<in> set t. \<not> d c \<and> c \<in> set s"
        using 1 by (blast dest: set_takeWhileD set_dropWhileD)
      ultimately show ?thesis ..
    next
      case 2
      from "1.IH" [OF refl False 2] show ?thesis by (auto dest: set_dropWhileD)
    qed
  qed
qed

text \<open>Words joined by single delimiters are the tokens of their join.\<close>

lemma strtok_all_word:
  assumes "w \<noteq> []" and "\<forall>c \<in> set w. \<not> d c" and "rest = [] \<or> d (hd rest)"
  shows "strtok_all d (w @ rest) = w # strtok_all d rest"
proof -
  have "dropWhile d (w @ rest) = w @ rest" using assms(1,2) by (cases w) auto
  moreover have "takeWhile (\<lambda>c. \<not> d c) rest = []" "dropWhile (\<lambda>c. \<not> d c) rest = rest"
    using assms(3) by (cases rest; simp)+
  then have "takeWhile (\<lambda>c. \<not> d c) (w @ rest) = w" "dropWhile (\<lambda>c. \<not> d c) (w @ rest) = rest"
    using assms(2) by (simp_all add: takeWhile_append2 dropWhile_append2)
  ultimately show ?thesis using assms(1) by (simp add: strtok_all.simps [of d "w @ rest"])
qed

fun join :: "char \<Rightarrow> string list \<Rightarrow> string" where
  "join c [] = []"
| "join c [w] = w"
| "join c (w # ws) = w @ c # join c ws"

lemma strtok_all_join:
  assumes "\<And>w. w \<in> set ws \<Longrightarrow> w \<noteq> [] \<and> (\<forall>x \<in> set w. \<not> d x)"
  and "d c"
  shows "strtok_all d (join c ws) = ws"
  using assms
proof (induction c ws rule: join.induct)
  case (2 c w)
  then show ?case using strtok_all_word [of w d "[]"] by simp
next
  case (3 c' w v ws)
  then have "strtok_all d (join c' (v # ws)) = v # ws" by (metis list.set_intros(2))
  moreover have "w \<noteq> []" "\<forall>x \<in> set w. \<not> d x" using "3.prems"(1) [of w] by simp_all
  ultimately show ?case using strtok_all_word [of w d "c' # join c' (v # ws)"] "3.prems"(2) by simp
qed simp

section \<open>Searching\<close>

text \<open>\<open>strchr\<close>: the text before the first occurrence and after it.\<close>

definition strchr_split :: "char \<Rightarrow> string \<Rightarrow> (string \<times> string) option" where
  "strchr_split c s =
     (if c \<in> set s then Some (takeWhile (\<lambda>x. x \<noteq> c) s, tl (dropWhile (\<lambda>x. x \<noteq> c) s)) else None)"

lemma until_exact:
  "c \<notin> set a \<Longrightarrow> takeWhile (\<lambda>x. x \<noteq> c) (a @ c # b) = a"
  "c \<notin> set a \<Longrightarrow> dropWhile (\<lambda>x. x \<noteq> c) (a @ c # b) = c # b"
  by (induction a) auto

lemma strchr_split_exact: "c \<notin> set a \<Longrightarrow> strchr_split c (a @ c # b) = Some (a, b)"
  by (simp add: strchr_split_def until_exact)

lemma strchr_split_Some: "strchr_split c s = Some (a, b) \<Longrightarrow> s = a @ c # b \<and> c \<notin> set a"
proof -
  assume s: "strchr_split c s = Some (a, b)"
  then have "c \<in> set s" by (auto simp: strchr_split_def split: if_splits)
  then obtain ys zs where "s = ys @ c # zs" "c \<notin> set ys" by (metis split_list_first)
  then show ?thesis using s by (simp add: strchr_split_exact)
qed

text \<open>\<open>strrchr\<close>: the text up to and including the last occurrence, and the rest.\<close>

definition strrchr_split :: "char \<Rightarrow> string \<Rightarrow> (string \<times> string) option" where
  "strrchr_split c s =
     (if c \<in> set s
      then Some (rev (dropWhile (\<lambda>x. x \<noteq> c) (rev s)), rev (takeWhile (\<lambda>x. x \<noteq> c) (rev s))) else None)"

lemma strrchr_split_Some: "strrchr_split c s = Some (a, b) \<Longrightarrow> s = a @ b"
  by (auto simp: strrchr_split_def simp flip: rev_append split: if_splits)

end
