(* ===== verification/Builtin.thy ===== *)
theory Builtin
  imports Cstring
begin

text \<open>
  The built-in commands of the shell (\<open>src/tetrish/builtin.c\<close>): the table of commands, the
  environment, the aliases and the dispatcher \<open>bi_call\<close>.  The shell's own state is the record
  \<open>shell\<close>; what the system answers (naming and changing the working directory, listing \<open>./bin\<close>, which files are
  executable, the text of the last error) is the record \<open>system\<close>.  \<open>argv\<close> is the list of
  arguments, \<open>argc\<close> its length.  Allocation is assumed to succeed.
\<close>

section \<open>State\<close>

abbreviation QUOTE :: char where "QUOTE \<equiv> CHR 0x27"
abbreviation DQUOTE :: char where "DQUOTE \<equiv> CHR 0x22"

record alias_rec =
  a_name :: string
  a_value :: string

record shell =
  environ :: "string list"
  sh_cwd :: string
  alist :: "alias_rec list"
  sh_out :: string
  sh_err :: string

record system =
  sys_getcwd :: "string \<Rightarrow> bool"  \<comment> \<open>whether the working directory still has a path\<close>
  sys_chdir :: "string \<Rightarrow> string \<Rightarrow> string option"  \<comment> \<open>the new directory, if the call succeeds\<close>
  sys_bin :: "string \<Rightarrow> string list option"  \<comment> \<open>entries of \<open>./bin\<close> below a directory\<close>
  sys_exec :: "string \<Rightarrow> string \<Rightarrow> bool"  \<comment> \<open>a regular file its owner may execute\<close>
  sys_errmsg :: string

datatype bi_result = Ret int | Exit int

definition sh_puts :: "string \<Rightarrow> shell \<Rightarrow> shell" where
  "sh_puts t s = s\<lparr>sh_out := sh_out s @ t\<rparr>"

definition sh_fputs_err :: "string \<Rightarrow> shell \<Rightarrow> shell" where
  "sh_fputs_err t s = s\<lparr>sh_err := sh_err s @ t\<rparr>"

definition sh_perror :: "system \<Rightarrow> string \<Rightarrow> shell \<Rightarrow> shell" where
  "sh_perror sys t s = sh_fputs_err (t @ '': '' @ sys_errmsg sys @ [NL]) s"

text \<open>The working directory, if it has a path and a buffer of \<open>cap\<close> characters has room for it.\<close>

definition getcwd :: "system \<Rightarrow> nat \<Rightarrow> shell \<Rightarrow> string option" where
  "getcwd sys cap s = (if sys_getcwd sys (sh_cwd s) \<and> length (sh_cwd s) < cap then Some (sh_cwd s) else None)"

section \<open>The table\<close>

datatype bi_func =
    Bi_exit | Bi_cd | Bi_help | Bi_usage | Bi_env | Bi_setenv | Bi_unsetenv | Bi_alias | Bi_unalias | Bi_bins

record builtin =
  fnname :: string
  desc :: string
  fn :: bi_func

definition lookup_bifn :: "builtin list" where
  "lookup_bifn =
     [\<lparr>fnname = ''exit'', desc = ''Exit the shell'', fn = Bi_exit\<rparr>,
      \<lparr>fnname = ''cd'', desc = ''Change the current directory'', fn = Bi_cd\<rparr>,
      \<lparr>fnname = ''help'', desc = ''Show the help for built-in functions'', fn = Bi_help\<rparr>,
      \<lparr>fnname = ''usage'', desc = ''Short usage guide'', fn = Bi_usage\<rparr>,
      \<lparr>fnname = ''env'', desc = ''List environment variables'', fn = Bi_env\<rparr>,
      \<lparr>fnname = ''setenv'', desc = ''Set an environment variable'', fn = Bi_setenv\<rparr>,
      \<lparr>fnname = ''unsetenv'', desc = ''Remove an environment variable'', fn = Bi_unsetenv\<rparr>,
      \<lparr>fnname = ''alias'', desc = ''Create an alias'', fn = Bi_alias\<rparr>,
      \<lparr>fnname = ''unalias'', desc = ''Remove an alias'', fn = Bi_unalias\<rparr>,
      \<lparr>fnname = ''bins'', desc = ''List binaries native to this shell'', fn = Bi_bins\<rparr>]"

definition builtins :: "string list" where
  "builtins = [''exit'', ''cd'', ''help'', ''usage'', ''env'', ''setenv'', ''unsetenv'', ''alias'', ''unalias'', ''bins'']"

section \<open>The environment\<close>

text \<open>
  \<open>environ\<close> is the list of the strings \<open>NAME=VALUE\<close>.  \<open>setenv\<close> replaces the entry of a name
  where it stands or adds one at the end, \<open>unsetenv\<close> removes every entry of the name; both
  refuse an empty name and one with an equals sign.
\<close>

definition entry_of :: "string \<Rightarrow> string \<Rightarrow> bool" where
  "entry_of n e = prefix (n @ ''='') e"

fun getenv :: "string \<Rightarrow> string list \<Rightarrow> string option" where
  "getenv n [] = None"
| "getenv n (e # es) = (if entry_of n e then Some (drop (length n + 1) e) else getenv n es)"

definition env_bad_name :: "string \<Rightarrow> bool" where
  "env_bad_name n = (n = [] \<or> CHR ''='' \<in> set n)"

fun env_put :: "string \<Rightarrow> string \<Rightarrow> string list \<Rightarrow> string list" where
  "env_put n v [] = [n @ ''='' @ v]"
| "env_put n v (e # es) = (if entry_of n e then (n @ ''='' @ v) # es else e # env_put n v es)"

definition setenv :: "string \<Rightarrow> string \<Rightarrow> string list \<Rightarrow> int \<times> string list" where
  "setenv n v es = (if env_bad_name n then (- 1, es) else (0, env_put n v es))"

definition unsetenv :: "string \<Rightarrow> string list \<Rightarrow> int \<times> string list" where
  "unsetenv n es = (if env_bad_name n then (- 1, es) else (0, filter (\<lambda>e. \<not> entry_of n e) es))"

definition bad_name :: "string \<Rightarrow> bool" where
  "bad_name s = (s = [] \<or> CHR ''='' \<in> set s \<or> (\<exists>c \<in> set s. \<not> c_isalnum c \<and> c \<noteq> CHR ''_''))"

section \<open>The commands\<close>

definition atoi :: "string \<Rightarrow> int" where
  "atoi t = (case scan_num t of None \<Rightarrow> 0 | Some (neg, v, _) \<Rightarrow> to_int32 (strtol_val neg v))"

definition bi_exit :: "string list \<Rightarrow> bi_result" where
  "bi_exit argv = Exit (if length argv > 1 then atoi (argv ! 1) else 0)"

text \<open>
  The result of \<open>getcwd\<close> is not checked: after a failure the buffer of the old directory holds
  nothing defined, which is read (\<open>None\<close>) once \<open>chdir\<close> has succeeded.
\<close>

definition cd_to :: "system \<Rightarrow> string \<Rightarrow> shell \<Rightarrow> (bi_result \<times> shell) option" where
  "cd_to sys dest s =
     (let cwd_old = getcwd sys PATH_MAX s in
      case sys_chdir sys (sh_cwd s) dest of
        None \<Rightarrow> Some (Ret 1, sh_perror sys ''cd'' s)
      | Some d \<Rightarrow> do {
          cwd_old \<leftarrow> cwd_old;
          Some (Ret 0, s\<lparr>sh_cwd := d, environ := snd (setenv ''OLDPWD'' cwd_old (environ s))\<rparr>)
        })"

definition bi_cd :: "system \<Rightarrow> string list \<Rightarrow> shell \<Rightarrow> (bi_result \<times> shell) option" where
  "bi_cd sys argv s =
     (if length argv = 1 then
        (case getenv ''HOME'' (environ s) of
           None \<Rightarrow> let t = ''cd: HOME environment not set'' @ [NL] in Some (Ret (int (length t)), sh_fputs_err t s)
         | Some dest \<Rightarrow> cd_to sys dest s)
      else if argv ! 1 = ''-'' then
        (case getenv ''OLDPWD'' (environ s) of
           None \<Rightarrow> let t = ''cd: OLDPWD environment not set'' @ [NL] in Some (Ret (int (length t)), sh_fputs_err t s)
         | Some dest \<Rightarrow> cd_to sys dest (sh_puts (dest @ [NL]) s))
      else cd_to sys (argv ! 1) s)"

definition pad_right :: "nat \<Rightarrow> string \<Rightarrow> string" where
  "pad_right n t = t @ replicate (n - length t) (CHR '' '')"

definition bi_help :: "shell \<Rightarrow> bi_result \<times> shell" where
  "bi_help s = (Ret 0, sh_puts (
     [NL] @ ''Built-in commands in the shell:'' @ [NL] @
     concat (map (\<lambda>b. [TAB] @ '' '' @ pad_right 8 (fnname b) @ ''  '' @ desc b @ [NL]) lookup_bifn) @
     ''Type: usage <command> for details'' @ [NL, NL]) s)"

datatype bicmd_enum =
    CMD_EXIT | CMD_CD | CMD_HELP | CMD_USAGE | CMD_ENV | CMD_SETENV | CMD_UNSETENV | CMD_ALIAS | CMD_UNALIAS | CMD_BINS
  | UNKNOWN

definition cmd_lookup :: "string \<Rightarrow> bicmd_enum" where
  "cmd_lookup cmd =
     (if cmd = ''exit'' then CMD_EXIT
      else if cmd = ''cd'' then CMD_CD
      else if cmd = ''help'' then CMD_HELP
      else if cmd = ''usage'' then CMD_USAGE
      else if cmd = ''env'' then CMD_ENV
      else if cmd = ''setenv'' then CMD_SETENV
      else if cmd = ''unsetenv'' then CMD_UNSETENV
      else if cmd = ''alias'' then CMD_ALIAS
      else if cmd = ''unalias'' then CMD_UNALIAS
      else if cmd = ''bins'' then CMD_BINS
      else UNKNOWN)"

definition usage_general :: string where
  "usage_general = concat
     [[NL] @ ''SpeedrunShell usage:'' @ [NL],
      [TAB] @ ''  help                        list of built-in commands'' @ [NL],
      [TAB] @ ''  usage <builtin>             detailed help for command'' @ [NL],
      [TAB] @ ''  <builtin>    [args...]      run a command from help'' @ [NL],
      [TAB] @ ''  <extern-cmd> [args...]      run a program from $PATH'' @ [NL],
      [TAB] @ ''  sys                         neofetch lightweight implement'' @ [NL],
      [TAB] @ ''  backup                      tarball path in BIN path'' @ [NL],
      [TAB] @ ''  dspawn                      spawn regular daemon'' @ [NL],
      [TAB] @ ''  dcheck                      check on logged daemons'' @ [NL],
      [TAB] @ ''  dkill        [args...]      kill active daemons'' @ [NL],
      [TAB] @ ''  dplant <plant name>         spawn a plant daemon'' @ [NL],
      [TAB] @ ''  dplant <plant name> water   water plant daemon'' @ [NL],
      [TAB] @ ''  dplant <plant name> stats   statcheck plant daemon'' @ [NL, NL]]"

fun usage_text :: "bicmd_enum \<Rightarrow> string option" where
  "usage_text CMD_EXIT = Some ([NL, TAB] @ ''exit:'' @ [NL] @ ''      '' @ [TAB] @ ''Exit the shell'' @ [NL])"
| "usage_text CMD_CD = Some ([NL, TAB] @ ''cd [path/to/directory]'' @ [NL, TAB] @ ''cd -'' @ [NL] @
       ''      '' @ [TAB, TAB] @ ''Change the working directory.'' @ [NL] @ ''      '' @ [TAB, TAB] @
       ''Defaults to $HOME with no path.'' @ [NL] @ ''      '' @ [NL, TAB, TAB] @
       ''cd - switch to $OLDPWD and prints working directory.'' @ [NL, NL])"
| "usage_text CMD_HELP = Some ([NL, TAB] @ ''help'' @ [NL] @ ''      '' @ [TAB, TAB] @
       ''Lists all built-in commands with a short description.'' @ [NL, NL])"
| "usage_text CMD_USAGE = Some ([NL, TAB] @ ''usage [built-in cmd]'' @ [NL, TAB] @ ''usage'' @ [NL] @
       ''      '' @ [TAB, TAB] @ ''Show usage of built-in command listed in help.'' @ [NL, NL])"
| "usage_text CMD_ENV = Some ([NL, TAB] @ ''env'' @ [NL, TAB] @ ''env [$PATH]...      '' @ [TAB, TAB] @
       ''Prints all environment variables of this shell.'' @ [NL] @ ''      '' @ [TAB, TAB] @
       ''Prints specified environment variable(s) of this shell if they exist'' @ [NL, NL])"
| "usage_text CMD_SETENV = Some ([NL, TAB] @ ''setenv [ENV] = [value]'' @ [NL] @ ''       '' @
       [TAB, TAB] @ ''Adds to list of process'' @ [CHR 0x27] @ '' environment variables'' @ [NL, NL])"
| "usage_text CMD_UNSETENV = Some ([NL, TAB] @ ''unsetenv [ENV]...'' @ [NL] @ ''      '' @ [TAB, TAB] @
       ''Deletes any environment variable whose KEY matches any environment variables      '' @
       [NL, TAB] @ ''Does nothing if KEY does not exist'' @ [NL, NL])"
| "usage_text CMD_ALIAS = Some ([NL, TAB] @ ''alias [name]='' @ [CHR 0x22] @ ''value'' @ [CHR 0x22, NL] @
       ''       '' @ [TAB, TAB] @ ''Adds alias of value to name variable'' @ [NL, NL])"
| "usage_text CMD_UNALIAS = Some ([NL, TAB] @ ''unsetenv [name]'' @ [NL] @ ''      '' @ [TAB, TAB] @
       ''Deletes any alias variable whose KEY matches the name field      '' @ [NL, TAB] @
       ''Does nothing if alias does not exist'' @ [NL, NL])"
| "usage_text CMD_BINS = Some ([NL, TAB] @ ''bins'' @ [NL] @ ''       '' @ [TAB, TAB] @
       ''Lists down the compiled binaries that can be used in the shell'' @ [NL, NL])"
| "usage_text UNKNOWN = None"

definition bi_usage :: "string list \<Rightarrow> shell \<Rightarrow> bi_result \<times> shell" where
  "bi_usage argv s =
     (if length argv = 1 then (Ret 0, sh_puts usage_general s)
      else case usage_text (cmd_lookup (argv ! 1)) of
        Some t \<Rightarrow> (Ret 0, sh_puts t s)
      | None \<Rightarrow> (Ret 1, sh_fputs_err (''usage: no such built-in: '' @ argv ! 1 @ [NL]) s))"

definition env_show :: "string \<Rightarrow> shell \<Rightarrow> shell" where
  "env_show name s =
     (case find (entry_of name) (environ s) of
        Some e \<Rightarrow> sh_puts (e @ [NL]) s
      | None \<Rightarrow> sh_fputs_err (''env: '' @ name @ '' not found'' @ [NL]) s)"

definition bi_env :: "string list \<Rightarrow> shell \<Rightarrow> bi_result \<times> shell" where
  "bi_env argv s =
     (Ret 0,
      if length argv = 1 then sh_puts (concat (map (\<lambda>e. e @ [NL]) (environ s))) s
      else fold env_show (tl argv) s)"

definition strip_quotes :: "string \<Rightarrow> string" where
  "strip_quotes v =
     (if length v > 1 \<and> (hd v = DQUOTE \<or> hd v = QUOTE) \<and> hd v = last v then butlast (tl v) else v)"

fun setenv_args :: "system \<Rightarrow> string list \<Rightarrow> shell \<Rightarrow> bi_result \<times> shell" where
  "setenv_args sys [] s = (Ret 0, s)"
| "setenv_args sys (a # as) s =
     (case strchr_split (CHR ''='') a of
        None \<Rightarrow> (Ret 1, sh_fputs_err (''setenv: invalid format, expected NAME=VALUE'' @ [NL]) s)
      | Some (name, value) \<Rightarrow>
          if bad_name name then (Ret 1, sh_fputs_err (''setenv: invalid name format '' @ name @ [NL]) s)
          else
            let value = strip_quotes value;
                s = sh_puts (''Setting name for '' @ name @ '' '' @ value @ [NL]) s;
                (r, es) = setenv name value (environ s)
            in if r = - 1 then (Ret 1, sh_perror sys ''setenv'' s)
               else setenv_args sys as (s\<lparr>environ := es\<rparr>))"

definition bi_setenv :: "system \<Rightarrow> string list \<Rightarrow> shell \<Rightarrow> bi_result \<times> shell" where
  "bi_setenv sys argv s =
     (if length argv < 2 then (Ret 1, sh_fputs_err (''usage: setenv NAME [VALUE]'' @ [NL]) s)
      else setenv_args sys (tl argv) s)"

fun unsetenv_args :: "system \<Rightarrow> string list \<Rightarrow> shell \<Rightarrow> bi_result \<times> shell" where
  "unsetenv_args sys [] s = (Ret 0, s)"
| "unsetenv_args sys (a # as) s =
     (let (r, es) = unsetenv a (environ s)
      in if r = - 1 then (Ret 1, sh_perror sys ''unsetenv'' s)
         else unsetenv_args sys as (s\<lparr>environ := es\<rparr>))"

definition bi_unsetenv :: "system \<Rightarrow> string list \<Rightarrow> shell \<Rightarrow> bi_result \<times> shell" where
  "bi_unsetenv sys argv s =
     (if length argv < 2 then (Ret 1, sh_fputs_err (''usage: unsetenv NAME [NAME...]'' @ [NL]) s)
      else case find bad_name (tl argv) of
        Some a \<Rightarrow> (Ret 1, sh_fputs_err (''unsetenv: invalid name '' @ a @ [NL]) s)
      | None \<Rightarrow> unsetenv_args sys (tl argv) s)"

section \<open>Aliases\<close>

definition IN_BUFFER :: nat where "IN_BUFFER = 1024"

definition alias_find :: "string \<Rightarrow> alias_rec list \<Rightarrow> alias_rec option" where
  "alias_find n as = find (\<lambda>a. a_name a = n) as"

definition alias_lookup :: "string \<Rightarrow> alias_rec list \<Rightarrow> string option" where
  "alias_lookup n as = map_option a_value (alias_find n as)"

definition alias_line :: "alias_rec \<Rightarrow> string" where
  "alias_line a = ''alias '' @ a_name a @ ''='' @ [QUOTE] @ a_value a @ [QUOTE, NL]"

text \<open>A new alias goes to the front, an old one gets its value replaced where it stands.\<close>

fun alias_replace :: "string \<Rightarrow> string \<Rightarrow> alias_rec list \<Rightarrow> alias_rec list" where
  "alias_replace n v [] = []"
| "alias_replace n v (a # as) = (if a_name a = n then a\<lparr>a_value := v\<rparr> # as else a # alias_replace n v as)"

definition alias_set :: "string \<Rightarrow> string \<Rightarrow> alias_rec list \<Rightarrow> alias_rec list" where
  "alias_set n v as =
     (case alias_find n as of
        None \<Rightarrow> \<lparr>a_name = n, a_value = v\<rparr> # as
      | Some _ \<Rightarrow> alias_replace n v as)"

text \<open>
  The arguments up to the one that ends with the quote are joined with single spaces.  The
  last character of an empty argument would be read before its start.
\<close>

datatype quoted = Closed string "string list" | Too_long | Unmatched

fun close_quote :: "char \<Rightarrow> string \<Rightarrow> string list \<Rightarrow> quoted option" where
  "close_quote q rhs [] = Some Unmatched"
| "close_quote q rhs (b # bs) =
     (if length rhs + length b + 2 \<ge> IN_BUFFER then Some Too_long
      else let rhs = rhs @ '' '' @ b in
        if b = [] then None
        else if last b = q then Some (Closed (butlast rhs) bs)
        else close_quote q rhs bs)"

lemma close_quote_length: "close_quote q rhs bs = Some (Closed v rest) \<Longrightarrow> length rest < length bs"
  by (induction q rhs bs rule: close_quote.induct) (auto simp: Let_def split: if_splits)

function alias_args :: "string list \<Rightarrow> shell \<Rightarrow> (bi_result \<times> shell) option" where
  "alias_args [] s = Some (Ret 0, s)"
| "alias_args (a # as) s =
     (case strchr_split (CHR ''='') a of
        None \<Rightarrow>
          alias_args as
            (case alias_find a (alist s) of
               Some al \<Rightarrow> sh_puts (alias_line al) s
             | None \<Rightarrow> sh_fputs_err (''alias: '' @ a @ '' not found'' @ [NL]) s)
      | Some (name, v) \<Rightarrow>
          let rhs = take (IN_BUFFER - 1) v in
          if rhs \<noteq> [] \<and> (hd rhs = QUOTE \<or> hd rhs = DQUOTE) then
            let q = hd rhs; rhs = tl rhs in
            if rhs \<noteq> [] \<and> last rhs = q
            then alias_args as (s\<lparr>alist := alias_set name (butlast rhs) (alist s)\<rparr>)
            else case close_quote q rhs as of
                None \<Rightarrow> None
              | Some Too_long \<Rightarrow> Some (Ret 1, sh_fputs_err (''alias: alias too long'' @ [NL]) s)
              | Some Unmatched \<Rightarrow> Some (Ret 1, sh_fputs_err (''alias: unmatched quote'' @ [NL]) s)
              | Some (Closed v rest) \<Rightarrow> alias_args rest (s\<lparr>alist := alias_set name v (alist s)\<rparr>)
          else alias_args as (s\<lparr>alist := alias_set name rhs (alist s)\<rparr>))"
  by pat_completeness auto
termination
  by (relation "measure (length \<circ> fst)") (auto dest: close_quote_length)

definition bi_alias :: "string list \<Rightarrow> shell \<Rightarrow> (bi_result \<times> shell) option" where
  "bi_alias argv s =
     (if length argv = 1 then Some (Ret 0, sh_puts (concat (map alias_line (alist s))) s)
      else alias_args (tl argv) s)"

fun alias_remove :: "string \<Rightarrow> alias_rec list \<Rightarrow> alias_rec list" where
  "alias_remove n [] = []"
| "alias_remove n (a # as) = (if a_name a = n then as else a # alias_remove n as)"

definition bi_unalias :: "string list \<Rightarrow> shell \<Rightarrow> bi_result \<times> shell" where
  "bi_unalias argv s =
     (if length argv \<noteq> 2 then (Ret 1, sh_fputs_err (''unalias: usage: unalias name'' @ [NL]) s)
      else case alias_find (argv ! 1) (alist s) of
        None \<Rightarrow> (Ret 1, sh_fputs_err (''unalias: '' @ argv ! 1 @ '': error not found'' @ [NL]) s)
      | Some _ \<Rightarrow> (Ret 0, s\<lparr>alist := alias_remove (argv ! 1) (alist s)\<rparr>))"

definition bi_bins :: "system \<Rightarrow> shell \<Rightarrow> bi_result \<times> shell" where
  "bi_bins sys s =
     (case sys_bin sys (sh_cwd s) of
        None \<Rightarrow> (Ret 1, sh_perror sys ''bins: failed to open ./bin'' s)
      | Some es \<Rightarrow>
          (Ret 0, fold (\<lambda>e s.
             if prefix ''.'' e then s
             else if sys_exec sys (sh_cwd s) (take (PATH_MAX - 1) (''./bin/'' @ e)) then sh_puts (e @ [NL]) s else s) es s))"

section \<open>The dispatcher\<close>

definition bi_run :: "system \<Rightarrow> bi_func \<Rightarrow> string list \<Rightarrow> shell \<Rightarrow> (bi_result \<times> shell) option" where
  "bi_run sys f argv s =
     (case f of
        Bi_exit \<Rightarrow> Some (bi_exit argv, s)
      | Bi_cd \<Rightarrow> bi_cd sys argv s
      | Bi_help \<Rightarrow> Some (bi_help s)
      | Bi_usage \<Rightarrow> Some (bi_usage argv s)
      | Bi_env \<Rightarrow> Some (bi_env argv s)
      | Bi_setenv \<Rightarrow> Some (bi_setenv sys argv s)
      | Bi_unsetenv \<Rightarrow> Some (bi_unsetenv sys argv s)
      | Bi_alias \<Rightarrow> bi_alias argv s
      | Bi_unalias \<Rightarrow> Some (bi_unalias argv s)
      | Bi_bins \<Rightarrow> Some (bi_bins sys s))"

definition bi_call :: "system \<Rightarrow> string list \<Rightarrow> shell \<Rightarrow> (bi_result \<times> shell) option" where
  "bi_call sys argv s =
     (if argv = [] then Some (Ret (- 1), s)
      else case find (\<lambda>b. hd argv = fnname b) lookup_bifn of
        Some b \<Rightarrow> bi_run sys (fn b) argv s
      | None \<Rightarrow> Some (Ret (- 1), s))"

end
