(* ===== verification/History.thy ===== *)
theory History
  imports Prelude
begin

text \<open>
  The command history (\<open>src/tetrish/cmdline.c\<close>: \<open>hist\<close>, \<open>history\<close>, \<open>hist_up\<close>, \<open>hist_down\<close>,
  \<open>hist_free\<close>): a ring of 128 heap strings with a head (the next slot to fill) and a cursor.
  It is related to a plain list of lines, newest first.  A slot is null, a string, or a
  string that was freed; freeing or reading a freed string is undefined.  Allocation is
  assumed to succeed.
\<close>

section \<open>The ring\<close>

datatype slot = Null | Line string | Freed

record history =
  hist :: "slot list"
  hlen :: nat
  hhead :: nat
  hcur :: nat

definition HIST_CAP :: nat where "HIST_CAP = 128"

definition hist_init :: history where
  "hist_init = \<lparr>hist = replicate HIST_CAP Null, hlen = 0, hhead = 0, hcur = 0\<rparr>"

definition c_free :: "slot \<Rightarrow> unit option" where
  "c_free s = (if s = Freed then None else Some ())"

text \<open>What a returned pointer shows: nothing when it is null.\<close>

definition slot_string :: "slot \<Rightarrow> string option option" where
  "slot_string s = (case s of Null \<Rightarrow> Some None | Line l \<Rightarrow> Some (Some l) | Freed \<Rightarrow> None)"

definition history_add :: "string \<Rightarrow> history \<Rightarrow> history option" where
  "history_add line h =
     (if line = [] then Some h
      else do {
        old \<leftarrow> arr_get (hist h) (hhead h);
        _ \<leftarrow> c_free old;
        hs \<leftarrow> arr_set (hist h) (hhead h) (Line line);
        let head = (hhead h + 1) mod HIST_CAP;
        Some \<lparr>hist = hs, hlen = (if hlen h < HIST_CAP then hlen h + 1 else hlen h), hhead = head, hcur = head\<rparr>
      })"

definition hist_up :: "history \<Rightarrow> (string option \<times> history) option" where
  "hist_up h =
     (if hlen h = 0 then Some (None, h)
      else let nxt = (hcur h + (HIST_CAP - 1)) mod HIST_CAP in
        if nxt = hhead h then Some (None, h)
        else do {
          s \<leftarrow> arr_get (hist h) nxt;
          l \<leftarrow> slot_string s;
          Some (l, h\<lparr>hcur := nxt\<rparr>)
        })"

definition hist_down :: "history \<Rightarrow> (string option \<times> history) option" where
  "hist_down h =
     (if hcur h = hhead h then Some (None, h)
      else let cur = (hcur h + 1) mod HIST_CAP in
        if cur = hhead h then Some (Some [], h\<lparr>hcur := cur\<rparr>)
        else do {
          s \<leftarrow> arr_get (hist h) cur;
          l \<leftarrow> slot_string s;
          Some (l, h\<lparr>hcur := cur\<rparr>)
        })"

text \<open>All slots are freed, but keep their dangling pointers.\<close>

definition free_slot :: "slot \<Rightarrow> slot" where
  "free_slot s = (case s of Null \<Rightarrow> Null | _ \<Rightarrow> Freed)"

definition hist_free :: "history \<Rightarrow> history option" where
  "hist_free h = do {
     hs \<leftarrow> for_from 0 HIST_CAP
       (\<lambda>i hs. do {
          s \<leftarrow> arr_get hs i;
          _ \<leftarrow> c_free s;
          arr_set hs i (free_slot s)
        }) (hist h);
     Some \<lparr>hist = hs, hlen = 0, hhead = 0, hcur = 0\<rparr>
   }"

section \<open>The lines it holds\<close>

text \<open>The slot of the \<open>k\<close>-th newest line.\<close>

definition slot_of :: "history \<Rightarrow> nat \<Rightarrow> nat" where
  "slot_of h k = (hhead h + (HIST_CAP - 1 - k)) mod HIST_CAP"

definition line_at :: "slot \<Rightarrow> string" where
  "line_at s = (case s of Line l \<Rightarrow> l | _ \<Rightarrow> [])"

definition hist_lines :: "history \<Rightarrow> string list" where
  "hist_lines h = map (\<lambda>k. line_at (hist h ! slot_of h k)) [0..<hlen h]"

definition hist_ok :: "history \<Rightarrow> bool" where
  "hist_ok h =
     (length (hist h) = HIST_CAP \<and> hlen h \<le> HIST_CAP \<and> hhead h < HIST_CAP \<and> hcur h < HIST_CAP \<and>
      (\<forall>k < HIST_CAP. if k < hlen h then \<exists>l. hist h ! slot_of h k = Line l \<and> l \<noteq> []
         else hist h ! slot_of h k = Null))"

lemma hist_init_ok: "hist_ok hist_init"
  by (simp add: hist_ok_def hist_init_def slot_of_def HIST_CAP_def)

text \<open>Positions on the ring.\<close>

lemma slot_of_less [simp]: "slot_of h k < 128"
  by (simp add: slot_of_def HIST_CAP_def)

lemma slot_of_cases:
  assumes "hhead h < 128" and "k < 128"
  shows "slot_of h k = (if k < hhead h then hhead h - 1 - k else hhead h + 127 - k)"
  using mod_wrap [of "hhead h" 128 "127 - k"] assms by (auto simp: slot_of_def HIST_CAP_def)

lemma slot_of_inj:
  assumes "hhead h < 128" and "j < 128" and "k < 128" and "slot_of h j = slot_of h k"
  shows "j = k"
  using assms by (auto simp: slot_of_cases split: if_splits)

lemma slot_of_oldest: "hhead h < 128 \<Longrightarrow> slot_of h 127 = hhead h"
  by (simp add: slot_of_cases)

lemma next_head:
  fixes a :: nat
  assumes "a < 128"
  shows "(a + 1) mod 128 = (if a = 127 then 0 else a + 1)"
  using assms by simp

lemma slot_of_shift:
  assumes "hhead h < 128" and "hhead h' = (hhead h + 1) mod 128" and "k < 128"
  shows "slot_of h' k = (if k = 0 then hhead h else slot_of h (k - 1))"
proof -
  have "hhead h' < 128" using assms(2) by simp
  then show ?thesis
    using assms next_head [OF assms(1)]
    by (cases k) (auto simp: slot_of_cases split: if_splits)
qed

section \<open>Adding a line\<close>

lemma history_add_effect:
  assumes "hist_ok h" and "line \<noteq> []"
  shows "\<exists>h'. history_add line h = Some h' \<and> hist_ok h' \<and> hcur h' = hhead h' \<and>
    hlen h' = min 128 (Suc (hlen h)) \<and> hist_lines h' = take 128 (line # hist_lines h)"
proof -
  have ok: "length (hist h) = 128" "hlen h \<le> 128" "hhead h < 128"
    "\<And>k. k < 128 \<Longrightarrow> if k < hlen h then \<exists>l. hist h ! slot_of h k = Line l \<and> l \<noteq> [] else hist h ! slot_of h k = Null"
    using assms(1) by (auto simp: hist_ok_def HIST_CAP_def)
  let ?hd = "(hhead h + 1) mod 128"
  let ?h = "\<lparr>hist = (hist h)[hhead h := Line line], hlen = (if hlen h < 128 then hlen h + 1 else hlen h),
    hhead = ?hd, hcur = ?hd\<rparr>"
  have "hist h ! hhead h \<noteq> Freed"
    using ok(4) [of 127] slot_of_oldest [OF ok(3)] by (auto split: if_splits)
  then have add: "history_add line h = Some ?h"
    using assms(2) ok by (simp add: history_add_def HIST_CAP_def c_free_def Let_def)
  have slot: "slot_of ?h k = (if k = 0 then hhead h else slot_of h (k - 1))" if "k < 128" for k
    using slot_of_shift [OF ok(3) _ that, of ?h] by simp
  have fresh: "slot_of h (k - 1) \<noteq> hhead h" if "0 < k" "k < 128" for k
  proof -
    have "k - 1 < 128" "k - 1 \<noteq> 127" using that by auto
    then show ?thesis using slot_of_inj [OF ok(3), of "k - 1" 127] slot_of_oldest [OF ok(3)] by auto
  qed
  have at: "hist ?h ! slot_of ?h k = (if k = 0 then Line line else hist h ! slot_of h (k - 1))" if "k < 128" for k
    using slot [OF that] fresh [of k] that ok(1,3) by (cases "k = 0") simp_all
  have "hist_ok ?h"
    unfolding hist_ok_def
  proof (intro conjI allI impI)
    fix k assume k: "k < HIST_CAP"
    then have k': "k < 128" by (simp add: HIST_CAP_def)
    show "if k < hlen ?h then \<exists>l. hist ?h ! slot_of ?h k = Line l \<and> l \<noteq> [] else hist ?h ! slot_of ?h k = Null"
      using at [OF k'] ok(4) [of "k - 1"] assms(2) k' by (cases k) (auto split: if_splits)
  qed (use ok in \<open>simp_all add: HIST_CAP_def\<close>)
  moreover have "hist_lines ?h = take 128 (line # hist_lines h)"
  proof (rule nth_equalityI)
    show len: "length (hist_lines ?h) = length (take 128 (line # hist_lines h))"
      using ok(2) by (auto simp: hist_lines_def)
    fix k assume "k < length (hist_lines ?h)"
    then have k: "k < hlen ?h" "k < 128" using ok(2) by (auto simp: hist_lines_def split: if_splits)
    then have "hist_lines ?h ! k = line_at (hist ?h ! slot_of ?h k)" by (simp add: hist_lines_def)
    then show "hist_lines ?h ! k = take 128 (line # hist_lines h) ! k"
      using at [OF k(2)] k by (cases k) (auto simp: hist_lines_def line_at_def split: if_splits)
  qed
  moreover have "hlen ?h = min 128 (Suc (hlen h))" using ok(2) by auto
  ultimately show ?thesis using add by auto
qed

section \<open>Browsing\<close>

text \<open>The cursor shows the \<open>k\<close>-th newest slot, or sits at the head.\<close>

definition cursor_at :: "history \<Rightarrow> nat \<Rightarrow> bool" where
  "cursor_at h k = (k \<le> 127 \<and> hcur h = (hhead h + (HIST_CAP - k)) mod HIST_CAP)"

lemma cursor_at_cases:
  assumes "hhead h < 128"
  shows "cursor_at h k \<longleftrightarrow> k \<le> 127 \<and> hcur h = (if k \<le> hhead h then hhead h - k else hhead h + 128 - k)"
proof (cases "k = 0")
  case True
  then show ?thesis using assms by (simp add: cursor_at_def HIST_CAP_def)
next
  case False
  then show ?thesis
    using assms mod_wrap [of "hhead h" 128 "128 - k"] by (auto simp: cursor_at_def HIST_CAP_def)
qed

lemma cursor_at_head: "hhead h < 128 \<Longrightarrow> hcur h = hhead h \<Longrightarrow> cursor_at h 0"
  by (simp add: cursor_at_cases)

text \<open>Every cursor position is reached by some number of steps from the head.\<close>

lemma cursor_at_ex:
  assumes "hhead h < 128" and "hcur h < 128"
  shows "\<exists>k. cursor_at h k"
proof (cases "hcur h \<le> hhead h")
  case True
  then show ?thesis using assms by (intro exI [of _ "hhead h - hcur h"]) (auto simp: cursor_at_cases)
next
  case False
  then show ?thesis using assms by (intro exI [of _ "hhead h + 128 - hcur h"]) (auto simp: cursor_at_cases)
qed

lemma hist_ok_slot:
  assumes "hist_ok h" and "k < 128"
  shows "slot_string (hist h ! slot_of h k) = Some (if k < hlen h then Some (hist_lines h ! k) else None)"
  using assms by (auto simp: hist_ok_def HIST_CAP_def slot_string_def hist_lines_def line_at_def split: if_splits)

lemma hist_up_cases:
  assumes "hist_ok h" and "cursor_at h k"
  shows "hist_up h = Some (if hlen h = 0 \<or> k = 127 then (None, h)
    else (if k < hlen h then Some (hist_lines h ! k) else None, h\<lparr>hcur := slot_of h k\<rparr>))"
proof -
  have ok: "hhead h < 128" "length (hist h) = 128" using assms(1) by (auto simp: hist_ok_def HIST_CAP_def)
  have k: "k \<le> 127" "hcur h = (if k \<le> hhead h then hhead h - k else hhead h + 128 - k)"
    using assms(2) ok(1) by (simp_all add: cursor_at_cases)
  then have "hcur h < 128" using ok(1) by auto
  then have nxt: "(hcur h + 127) mod 128 = slot_of h k"
    using mod_wrap [of "hcur h" 128 127] k ok(1) by (auto simp: slot_of_cases split: if_splits)
  have "slot_of h k = hhead h \<longleftrightarrow> k = 127"
    using k(1) ok(1) slot_of_inj [OF ok(1), of k 127] slot_of_oldest [OF ok(1)] by auto
  with nxt ok(2) hist_ok_slot [OF assms(1), of k] k(1) show ?thesis
    by (simp add: hist_up_def HIST_CAP_def Let_def)
qed

lemma hist_up_cursor:
  assumes "hist_ok h" and "cursor_at h k" and "k < 127"
  shows "cursor_at (h\<lparr>hcur := slot_of h k\<rparr>) (Suc k)"
  using assms by (auto simp: cursor_at_cases slot_of_cases hist_ok_def HIST_CAP_def)

lemma slot_of_cursor [simp]: "slot_of (h\<lparr>hcur := c\<rparr>) k = slot_of h k"
  by (simp add: slot_of_def)

lemma hist_ok_cursor: "hist_ok h \<Longrightarrow> c < 128 \<Longrightarrow> hist_ok (h\<lparr>hcur := c\<rparr>)"
  by (simp add: hist_ok_def HIST_CAP_def)

lemma hist_lines_cursor [simp]: "hist_lines (h\<lparr>hcur := c\<rparr>) = hist_lines h"
  by (simp add: hist_lines_def)

lemma hist_down_cases:
  assumes "hist_ok h" and "cursor_at h k"
  shows "hist_down h = Some (if k = 0 then (None, h)
    else if k = 1 then (Some [], h\<lparr>hcur := hhead h\<rparr>)
    else (if k - 2 < hlen h then Some (hist_lines h ! (k - 2)) else None, h\<lparr>hcur := slot_of h (k - 2)\<rparr>))"
proof -
  have ok: "hhead h < 128" "length (hist h) = 128" using assms(1) by (auto simp: hist_ok_def HIST_CAP_def)
  have k: "k \<le> 127" "hcur h = (if k \<le> hhead h then hhead h - k else hhead h + 128 - k)"
    using assms(2) ok(1) by (simp_all add: cursor_at_cases)
  then have less: "hcur h < 128" using ok(1) by auto
  have zero: "hcur h = hhead h \<longleftrightarrow> k = 0" using k ok(1) by auto
  have nxt: "(hcur h + 1) mod 128 = (if k = 1 then hhead h else slot_of h (k - 2))" if "k \<noteq> 0"
    using next_head [OF less] k ok(1) that by (auto simp: slot_of_cases split: if_splits)
  have "slot_of h (k - 2) \<noteq> hhead h" if "k \<noteq> 0" "k \<noteq> 1"
    using k(1) ok(1) that by (auto simp: slot_of_cases)
  with zero nxt ok(2) hist_ok_slot [OF assms(1), of "k - 2"] k(1) show ?thesis
    by (auto simp: hist_down_def HIST_CAP_def Let_def)
qed

text \<open>\<open>k\<close> presses of the up key, and what the last one returned.\<close>

fun up_keys :: "nat \<Rightarrow> history \<Rightarrow> (string option \<times> history) option" where
  "up_keys 0 h = Some (None, h)"
| "up_keys (Suc k) h = do { (_, h') \<leftarrow> up_keys k h; hist_up h' }"

lemma up_keys_cursor:
  assumes "hist_ok h" and "hcur h = hhead h" and "0 < hlen h" and "k \<le> 127"
  shows "\<exists>l c. up_keys k h = Some (l, h\<lparr>hcur := c\<rparr>) \<and> cursor_at (h\<lparr>hcur := c\<rparr>) k \<and> c < 128 \<and>
    (0 < k \<longrightarrow> l = (if k \<le> hlen h then Some (hist_lines h ! (k - 1)) else None))"
  using assms(4)
proof (induction k)
  case 0
  have "hhead h < 128" using assms(1) by (simp add: hist_ok_def HIST_CAP_def)
  then show ?case using assms(2) by (intro exI [of _ None] exI [of _ "hhead h"]) (auto simp: cursor_at_head)
next
  case (Suc k)
  then obtain l c where u: "up_keys k h = Some (l, h\<lparr>hcur := c\<rparr>)" and at: "cursor_at (h\<lparr>hcur := c\<rparr>) k" and c: "c < 128"
    by auto
  let ?h = "h\<lparr>hcur := c\<rparr>"
  have ok: "hist_ok ?h" by (rule hist_ok_cursor [OF assms(1) c])
  have k: "k < 127" using Suc.prems by simp
  have "hist_up ?h = Some (if k < hlen h then Some (hist_lines h ! k) else None, h\<lparr>hcur := slot_of h k\<rparr>)"
    using hist_up_cases [OF ok at] k assms(3) by simp
  moreover have "cursor_at (h\<lparr>hcur := slot_of h k\<rparr>) (Suc k)"
    using hist_up_cursor [OF ok at k] by simp
  ultimately show ?case using u by auto
qed

section \<open>Freeing\<close>

lemma hist_free_effect:
  assumes "hist_ok h"
  shows "hist_free h = Some \<lparr>hist = map free_slot (hist h), hlen = 0, hhead = 0, hcur = 0\<rparr>"
proof -
  have ok: "length (hist h) = 128" "hhead h < 128" using assms by (auto simp: hist_ok_def HIST_CAP_def)
  let ?body = "\<lambda>i hs. do { s \<leftarrow> arr_get hs i; _ \<leftarrow> c_free s; arr_set hs i (free_slot s) }"
  let ?P = "\<lambda>i hs. hs = map free_slot (take i (hist h)) @ drop i (hist h)"
  have "\<exists>t. for_from 0 128 ?body (hist h) = Some t \<and> ?P 128 t"
  proof (rule for_from_rule [where P = ?P])
    fix i hs assume i: "0 \<le> i" "i < (128 :: nat)" and P: "?P i hs"
    obtain k where k: "k < 128" "slot_of h k = i"
    proof
      let ?k = "if i < hhead h then hhead h - 1 - i else hhead h + 127 - i"
      show "?k < 128" using ok(2) i by auto
      then show "slot_of h ?k = i" using ok(2) i by (auto simp: slot_of_cases)
    qed
    then have "hist h ! i \<noteq> Freed"
      using assms by (auto simp: hist_ok_def HIST_CAP_def split: if_splits)
    moreover have "hs ! i = hist h ! i" "length hs = 128" using P i ok(1) by (auto simp: nth_append)
    moreover have "hs[i := free_slot (hist h ! i)] = map free_slot (take (Suc i) (hist h)) @ drop (Suc i) (hist h)"
      using P i ok(1) by (simp add: list_update_append take_Suc_conv_app_nth upd_conv_take_nth_drop)
    ultimately show "\<exists>t'. ?body i hs = Some t' \<and> ?P (Suc i) t'"
      using i by (auto simp: c_free_def)
  qed (use ok in simp_all)
  then show ?thesis using ok(1) by (auto simp: hist_free_def HIST_CAP_def)
qed

section \<open>What the line editor relies on\<close>

text \<open>
  Browsing keeps the history and its lines, and shows nothing, an empty line or a line of it.
\<close>

locale browsing =
  fixes browse :: "history \<Rightarrow> (string option \<times> history) option"
  assumes browse_ok: "hist_ok h \<Longrightarrow> \<exists>l h'. browse h = Some (l, h') \<and> hist_ok h' \<and>
    hist_lines h' = hist_lines h \<and> (\<forall>t. l = Some t \<longrightarrow> t = [] \<or> t \<in> set (hist_lines h))"

lemma hist_lines_nth: "k < hlen h \<Longrightarrow> hist_lines h ! k \<in> set (hist_lines h)"
  by (simp add: hist_lines_def)

lemma hist_ok_cursor_ex: "hist_ok h \<Longrightarrow> \<exists>k. cursor_at h k"
  by (rule cursor_at_ex) (simp_all add: hist_ok_def HIST_CAP_def)

lemma hist_ok_head: "hist_ok h \<Longrightarrow> hhead h < 128"
  by (simp add: hist_ok_def HIST_CAP_def)

interpretation up: browsing hist_up
proof
  fix h assume h: "hist_ok h"
  with hist_ok_cursor_ex obtain k where "cursor_at h k" by blast
  from hist_up_cases [OF h this] h show "\<exists>l h'. hist_up h = Some (l, h') \<and> hist_ok h' \<and>
      hist_lines h' = hist_lines h \<and> (\<forall>t. l = Some t \<longrightarrow> t = [] \<or> t \<in> set (hist_lines h))"
    by (auto simp: hist_ok_cursor hist_lines_nth)
qed

interpretation down: browsing hist_down
proof
  fix h assume h: "hist_ok h"
  with hist_ok_cursor_ex obtain k where "cursor_at h k" by blast
  from hist_down_cases [OF h this] h show "\<exists>l h'. hist_down h = Some (l, h') \<and> hist_ok h' \<and>
      hist_lines h' = hist_lines h \<and> (\<forall>t. l = Some t \<longrightarrow> t = [] \<or> t \<in> set (hist_lines h))"
    by (auto simp: hist_ok_cursor hist_ok_head hist_lines_nth)
qed

section \<open>Properties\<close>

text \<open>The lines read so far, each handed to the history.\<close>

fun enter_lines :: "string list \<Rightarrow> history \<Rightarrow> history option" where
  "enter_lines [] h = Some h"
| "enter_lines (l # ls) h = do { h' \<leftarrow> history_add l h; enter_lines ls h' }"

lemma history_add_empty [simp]: "history_add [] h = Some h"
  by (simp add: history_add_def)

lemma hist_lines_length: "hist_ok h \<Longrightarrow> length (hist_lines h) = hlen h"
  by (simp add: hist_lines_def)

lemma take_append_take: "take n (xs @ take n ys) = take n (xs @ ys)"
  by (simp add: min_def)

text \<open>A history of one line, as a concrete case.\<close>

definition one_line :: history where
  "one_line = \<lparr>hist = (replicate 128 Null)[0 := Line ''ls''], hlen = 1, hhead = 1, hcur = 1\<rparr>"

lemma one_line_ok: "hist_ok one_line"
proof -
  have "history_add ''ls'' hist_init = Some one_line"
    by (simp add: history_add_def hist_init_def one_line_def HIST_CAP_def c_free_def Let_def)
  with history_add_effect [OF hist_init_ok, of "''ls''"] show ?thesis by auto
qed

lemma enter_lines_effect:
  assumes "hist_ok h" and "hcur h = hhead h"
  shows "\<exists>h'. enter_lines ls h = Some h' \<and> hist_ok h' \<and> hcur h' = hhead h' \<and>
    hist_lines h' = take 128 (rev (filter (\<lambda>l. l \<noteq> []) ls) @ hist_lines h)"
  using assms
proof (induction ls arbitrary: h)
  case Nil
  then have "length (hist_lines h) \<le> 128" by (simp add: hist_lines_length hist_ok_def HIST_CAP_def)
  with Nil show ?case by simp
next
  case (Cons l ls)
  show ?case
  proof (cases "l = []")
    case True
    then show ?thesis using Cons by simp
  next
    case False
    from history_add_effect [OF Cons.prems(1) this] obtain h1 where
      1: "history_add l h = Some h1" "hist_ok h1" "hcur h1 = hhead h1" "hist_lines h1 = take 128 (l # hist_lines h)"
      by blast
    have "take 128 (rev (filter (\<lambda>l. l \<noteq> []) ls) @ hist_lines h1) =
        take 128 (rev (filter (\<lambda>l. l \<noteq> []) (l # ls)) @ hist_lines h)"
      using False by (simp only: 1(4) take_append_take) simp
    with Cons.IH [OF 1(2,3)] 1(1) show ?thesis by (auto simp del: take_append)
  qed
qed

text \<open>
  C26.  The up key recalls the lines that were entered, newest first: after any lines, the
  \<open>k\<close>-th press (up to the 127th) returns the \<open>k\<close>-th newest non-empty line, whatever the number
  of lines, so also after the ring of 128 slots has wrapped around.
\<close>

theorem up_recalls_entered_lines:
  assumes "0 < k" and "k \<le> 127" and "k \<le> length (filter (\<lambda>l. l \<noteq> []) ls)"
  shows "\<exists>h h'. enter_lines ls hist_init = Some h \<and>
    up_keys k h = Some (Some (rev (filter (\<lambda>l. l \<noteq> []) ls) ! (k - 1)), h')"
proof -
  have "hcur hist_init = hhead hist_init" "hist_lines hist_init = []"
    by (simp_all add: hist_init_def hist_lines_def)
  with enter_lines_effect [OF hist_init_ok, of ls] obtain h where
    h: "enter_lines ls hist_init = Some h" "hist_ok h" "hcur h = hhead h"
      "hist_lines h = take 128 (rev (filter (\<lambda>l. l \<noteq> []) ls))"
    by auto
  have "hlen h = min 128 (length (filter (\<lambda>l. l \<noteq> []) ls))"
    using hist_lines_length [OF h(2)] h(4) by simp
  then have "0 < hlen h" "k \<le> hlen h" using assms by auto
  from up_keys_cursor [OF h(2,3) this(1) assms(2)] this(2) assms(1,2) h(1,4) show ?thesis by auto
qed

theorem up_recalls_entered_lines_witness:
  "\<exists>h h'. enter_lines [''ls'', '''', ''pwd''] hist_init = Some h \<and>
    up_keys 2 h = Some (Some (rev (filter (\<lambda>l. l \<noteq> []) [''ls'', '''', ''pwd'']) ! (2 - 1)), h')"
  by (rule up_recalls_entered_lines) simp_all

text \<open>
  The down key undoes the up key: whenever the up key moved the cursor, the down key
  brings the whole history state back.
\<close>

theorem down_undoes_up:
  assumes "hist_ok h" and "hist_up h = Some (l, h')" and "h' \<noteq> h"
  shows "\<exists>l'. hist_down h' = Some (l', h)"
proof -
  have less: "hhead h < 128" "hcur h < 128" using assms(1) by (simp_all add: hist_ok_def HIST_CAP_def)
  from cursor_at_ex [OF this] obtain k where at: "cursor_at h k" ..
  then have k: "k < 127" "h' = h\<lparr>hcur := slot_of h k\<rparr>"
    using hist_up_cases [OF assms(1) at] assms(2,3) by (auto simp: cursor_at_def split: if_splits)
  have "hist_ok h'" unfolding k(2) by (rule hist_ok_cursor [OF assms(1)]) simp
  moreover have "cursor_at h' (Suc k)" using hist_up_cursor [OF assms(1) at k(1)] k(2) by simp
  ultimately have "\<exists>l'. hist_down h' = Some (l', h'\<lparr>hcur := if k = 0 then hhead h else slot_of h (k - 1)\<rparr>)"
    using hist_down_cases [of h' "Suc k"] k by auto
  moreover have "(if k = 0 then hhead h else slot_of h (k - 1)) = hcur h"
    using at less(1) k(1) by (auto simp: cursor_at_cases slot_of_cases)
  ultimately show ?thesis using k(2) by (auto split: if_splits)
qed

theorem down_undoes_up_witness: "\<exists>l'. hist_down (one_line\<lparr>hcur := 0\<rparr>) = Some (l', one_line)"
proof (rule down_undoes_up [OF one_line_ok])
  show "hist_up one_line = Some (Some ''ls'', one_line\<lparr>hcur := 0\<rparr>)"
    by (simp add: one_line_def hist_up_def HIST_CAP_def Let_def slot_string_def)
  show "one_line\<lparr>hcur := 0\<rparr> \<noteq> one_line"
    by (simp add: one_line_def)
qed

text \<open>
  While the ring is not full the up key does not stop at the oldest line: further presses
  show nothing but still move the cursor, so the next press of the down key shows nothing
  either, instead of the line after the oldest one.
\<close>

theorem up_runs_past_oldest:
  assumes "hist_ok h" and "hcur h = hhead h" and "0 < hlen h" and "hlen h + 2 \<le> k" and "k \<le> 127"
  shows "\<exists>h' h''. up_keys k h = Some (None, h') \<and> hist_down h' = Some (None, h'')"
proof -
  from up_keys_cursor [OF assms(1-3,5)] obtain c where
    c: "up_keys k h = Some (None, h\<lparr>hcur := c\<rparr>)" "cursor_at (h\<lparr>hcur := c\<rparr>) k" "c < 128"
    using assms(4) by auto
  from hist_down_cases [OF hist_ok_cursor [OF assms(1) c(3)] c(2)] assms(4) c(1)
  show ?thesis by auto
qed

theorem up_runs_past_oldest_witness:
  "\<exists>h' h''. up_keys 3 one_line = Some (None, h') \<and> hist_down h' = Some (None, h'')"
  by (rule up_runs_past_oldest [OF one_line_ok]) (simp_all add: one_line_def)

end
