(* ===== verification/Cmdline.thy ===== *)
theory Cmdline
  imports Builtin History
begin

text \<open>
  The line editor of the shell (\<open>src/tetrish/cmdline.c\<close>): the keys of \<open>line_read\<close>, the
  completion of \<open>tab_complete\<close> and the history it shares with \<open>History\<close>.  The input is the
  finite list of bytes \<open>getchar\<close> delivers before end of file; every round of the loop takes
  at least one, which is why \<open>line_read\<close> ends.  The terminal is the text written so far.

  The buffer is an array of \<open>cap\<close> characters with checked access.  The sizes of the source
  (\<open>len\<close>, \<open>pos\<close>) are natural numbers: they never exceed the length of the buffer or of a
  string in memory.
\<close>

section \<open>State\<close>

record line_state =
  lbuf :: string
  llen :: nat
  lpos :: nat
  lhist :: history
  ltty :: string

abbreviation ESC :: char where "ESC \<equiv> CHR 0x1B"
abbreviation BEL :: char where "BEL \<equiv> CHR 0x07"
abbreviation CR :: char where "CR \<equiv> CHR 0x0D"
abbreviation BS :: char where "BS \<equiv> CHR 0x08"
abbreviation DEL :: char where "DEL \<equiv> CHR 0x7F"
abbreviation EOT :: char where "EOT \<equiv> CHR 0x04"

definition put :: "string \<Rightarrow> line_state \<Rightarrow> line_state" where
  "put t s = s\<lparr>ltty := ltty s @ t\<rparr>"

text \<open>The prompt is a null pointer or a string.\<close>

definition redraw :: "string option \<Rightarrow> line_state \<Rightarrow> line_state option" where
  "redraw p s =
     (case p of None \<Rightarrow> Some s
      | Some prompt \<Rightarrow> do {
          t \<leftarrow> printf_prec (lbuf s) (llen s);
          Some (put ([CR, ESC] @ ''[K'' @ prompt @ t @
            (if lpos s < llen s then [ESC, CHR ''[''] @ dec (llen s - lpos s) @ ''D'' else [])) s)
        })"

section \<open>Keys\<close>

definition key_insert :: "string option \<Rightarrow> char \<Rightarrow> line_state \<Rightarrow> line_state option" where
  "key_insert p c s =
     (if llen s < length (lbuf s) - 1
      then do {
        b \<leftarrow> memmove (lbuf s) (lpos s + 1) (lpos s) (llen s - lpos s);
        b \<leftarrow> arr_set b (lpos s) c;
        b \<leftarrow> arr_set b (llen s + 1) NUL;
        redraw p (s\<lparr>lbuf := b, llen := llen s + 1, lpos := lpos s + 1\<rparr>)
      }
      else Some s)"

definition key_backspace :: "string option \<Rightarrow> line_state \<Rightarrow> line_state option" where
  "key_backspace p s = do {
     b \<leftarrow> memmove (lbuf s) (lpos s - 1) (lpos s) (llen s - lpos s);
     redraw p (s\<lparr>lbuf := b, llen := llen s - 1, lpos := lpos s - 1\<rparr>)
   }"

definition key_delete :: "string option \<Rightarrow> line_state \<Rightarrow> line_state option" where
  "key_delete p s =
     (if lpos s < llen s
      then do {
        b \<leftarrow> memmove (lbuf s) (lpos s) (lpos s + 1) (llen s - lpos s - 1);
        b \<leftarrow> arr_set b (llen s - 1) NUL;
        redraw p (s\<lparr>lbuf := b, llen := llen s - 1\<rparr>)
      }
      else Some s)"

definition key_right :: "string option \<Rightarrow> line_state \<Rightarrow> line_state option" where
  "key_right p s = (if lpos s < llen s then redraw p (s\<lparr>lpos := lpos s + 1\<rparr>) else Some s)"

definition key_left :: "string option \<Rightarrow> line_state \<Rightarrow> line_state option" where
  "key_left p s = (if 0 < lpos s then redraw p (s\<lparr>lpos := lpos s - 1\<rparr>) else Some s)"

text \<open>\<open>while (pos < len && q(buf[pos])) ++pos\<close> and \<open>while (pos > 0 && q(buf[pos - 1])) --pos\<close>.\<close>

function skip_right :: "(char \<Rightarrow> bool) \<Rightarrow> string \<Rightarrow> nat \<Rightarrow> nat \<Rightarrow> nat option" where
  "skip_right q b pos len =
     (if pos < len
      then do { c \<leftarrow> arr_get b pos; if q c then skip_right q b (pos + 1) len else Some pos }
      else Some pos)"
  by pat_completeness auto
termination
  by (relation "measure (\<lambda>(_, _, pos, len). len - pos)") auto

declare skip_right.simps [simp del]

fun skip_left :: "(char \<Rightarrow> bool) \<Rightarrow> string \<Rightarrow> nat \<Rightarrow> nat option" where
  "skip_left q b 0 = Some 0"
| "skip_left q b (Suc k) = do { c \<leftarrow> arr_get b k; if q c then skip_left q b k else Some (Suc k) }"

definition key_word_right :: "string option \<Rightarrow> line_state \<Rightarrow> line_state option" where
  "key_word_right p s = do {
     i \<leftarrow> skip_right c_isalnum (lbuf s) (lpos s) (llen s);
     j \<leftarrow> skip_right (\<lambda>c. \<not> c_isalnum c) (lbuf s) i (llen s);
     redraw p (s\<lparr>lpos := j\<rparr>)
   }"

definition key_word_left :: "string option \<Rightarrow> line_state \<Rightarrow> line_state option" where
  "key_word_left p s = do {
     i \<leftarrow> skip_left c_isalnum (lbuf s) (lpos s - 1);
     j \<leftarrow> skip_left (\<lambda>c. \<not> c_isalnum c) (lbuf s) i;
     redraw p (s\<lparr>lpos := j\<rparr>)
   }"

text \<open>A line of the history replaces the text; the length is the one \<open>snprintf\<close> returns.\<close>

definition key_recall :: "string option \<Rightarrow> (history \<Rightarrow> (string option \<times> history) option) \<Rightarrow>
  line_state \<Rightarrow> line_state option" where
  "key_recall p browse s = do {
     (l, h) \<leftarrow> browse (lhist s);
     let s = s\<lparr>lhist := h\<rparr>;
     case l of None \<Rightarrow> Some s
     | Some t \<Rightarrow>
         let (b, n) = snprintf (lbuf s) t in redraw p (s\<lparr>lbuf := b, llen := n, lpos := n\<rparr>)
   }"

section \<open>Completion\<close>

text \<open>
  What completion asks the system: \<open>PATH\<close>, the directory of the shell's own programs, the
  entries of a directory in the order \<open>readdir\<close> gives them (\<open>None\<close> when it cannot be opened)
  and whether a path is a directory.
\<close>

record completion_env =
  path_env :: "string option"
  project_bin :: string
  opendir :: "string \<Rightarrow> string list option"
  is_dir :: "string \<Rightarrow> bool"

definition BUF_MAX :: nat where "BUF_MAX = 512"
definition MAX_MATCHES :: nat where "MAX_MATCHES = 64"

text \<open>\<open>strncpy\<close> into a row of the matches, always terminated.\<close>

definition match_row :: "string \<Rightarrow> string" where
  "match_row s = take (BUF_MAX - 1) s"

definition hidden :: "string \<Rightarrow> bool" where
  "hidden e = (e = ''.'' \<or> e = ''..'')"

text \<open>A loop over names that stops when the matches are full; \<open>use\<close> gives the row to add.\<close>

fun collect :: "(string list \<Rightarrow> string \<Rightarrow> string option) \<Rightarrow> string list \<Rightarrow> string list \<Rightarrow> string list" where
  "collect use [] ms = ms"
| "collect use (e # es) ms =
     (if length ms < MAX_MATCHES
      then collect use es (case use ms e of None \<Rightarrow> ms | Some m \<Rightarrow> ms @ [m])
      else ms)"

definition builtin_row :: "string \<Rightarrow> string list \<Rightarrow> string \<Rightarrow> string option" where
  "builtin_row token ms b = (if prefix token b then Some (match_row b) else None)"

definition path_row :: "string \<Rightarrow> string list \<Rightarrow> string \<Rightarrow> string option" where
  "path_row token ms e = (if prefix token e \<and> e \<notin> set ms then Some (match_row e) else None)"

definition bin_row :: "string \<Rightarrow> string list \<Rightarrow> string \<Rightarrow> string option" where
  "bin_row token ms e = (if hidden e then None else if prefix token e then Some (match_row e) else None)"

definition dir_row :: "string option \<Rightarrow> string \<Rightarrow> string list \<Rightarrow> string \<Rightarrow> string option" where
  "dir_row dir base ms e =
     (if hidden e then None
      else if prefix base e
        then let m = (case dir of Some d \<Rightarrow> d @ e | None \<Rightarrow> e)
          in if length m \<ge> BUF_MAX then None else Some m
      else None)"

definition dir_entries :: "completion_env \<Rightarrow> string \<Rightarrow> string list" where
  "dir_entries env d = (case opendir env d of None \<Rightarrow> [] | Some es \<Rightarrow> es)"

fun path_matches :: "completion_env \<Rightarrow> string \<Rightarrow> string list \<Rightarrow> string list \<Rightarrow> string list" where
  "path_matches env token [] ms = ms"
| "path_matches env token (d # ds) ms =
     (if length ms < MAX_MATCHES
      then path_matches env token ds (collect (path_row token) (dir_entries env d) ms) else ms)"

definition add_dir_matches :: "completion_env \<Rightarrow> string list \<Rightarrow> string \<Rightarrow> string list" where
  "add_dir_matches env ms token =
     (case strrchr_split (CHR ''/'') token of
        Some (dir, base) \<Rightarrow>
          if length dir \<ge> BUF_MAX then ms
          else collect (dir_row (Some dir) (take (BUF_MAX - 1) base)) (dir_entries env dir) ms
      | None \<Rightarrow> collect (dir_row None (take (BUF_MAX - 1) token)) (dir_entries env ''.'') ms)"

definition find_matches :: "completion_env \<Rightarrow> bool \<Rightarrow> string \<Rightarrow> string list" where
  "find_matches env is_first_word token =
     (if is_first_word
      then let ms = collect (builtin_row token) builtins [];
               ms = (case path_env env of None \<Rightarrow> ms
                     | Some path \<Rightarrow> path_matches env token (strtok_all (\<lambda>c. c = CHR '':'') path) ms)
           in if length ms < MAX_MATCHES \<and> project_bin env \<noteq> []
              then collect (bin_row token) (dir_entries env (project_bin env)) ms else ms
      else add_dir_matches env [] token)"

text \<open>\<open>qsort\<close> and the loop that keeps the first of each run of equal rows.\<close>

definition drop_duplicates :: "string list \<Rightarrow> string list" where
  "drop_duplicates ms =
     (case ms of [] \<Rightarrow> []
      | m # rest \<Rightarrow> fold (\<lambda>x us. if x \<noteq> last us then us @ [x] else us) rest [m])"

definition unique_matches :: "completion_env \<Rightarrow> bool \<Rightarrow> string \<Rightarrow> string list" where
  "unique_matches env is_first_word token = drop_duplicates (sort (find_matches env is_first_word token))"

definition complete_single :: "completion_env \<Rightarrow> string option \<Rightarrow> string \<Rightarrow> string \<Rightarrow> line_state \<Rightarrow>
  (bool \<times> line_state) option" where
  "complete_single env p token m s =
     (let completion = drop (length token) m;
          slash = (if is_dir env m then ''/'' else []);
          extra = length completion + length slash
      in if llen s + extra \<ge> length (lbuf s) then Some (False, put [BEL] s)
         else do {
           b \<leftarrow> memmove (lbuf s) (lpos s + extra) (lpos s) (llen s - lpos s);
           b \<leftarrow> memcpy b (lpos s) completion;
           b \<leftarrow> memcpy b (lpos s + length completion) slash;
           b \<leftarrow> arr_set b (llen s + extra) NUL;
           s \<leftarrow> redraw p (s\<lparr>lbuf := b, llen := llen s + extra, lpos := lpos s + extra\<rparr>);
           Some (True, s)
         })"

definition list_matches :: "completion_env \<Rightarrow> string list \<Rightarrow> string" where
  "list_matches env ms = [NL] @ concat (map (\<lambda>m. m @ (if is_dir env m then ''/'' else []) @ '' '') ms) @ [NL]"

definition tab_complete :: "completion_env \<Rightarrow> string option \<Rightarrow> line_state \<Rightarrow> line_state option" where
  "tab_complete env p s = do {
     start \<leftarrow> skip_left (\<lambda>c. \<not> c_isspace c) (lbuf s) (lpos s);
     if start > lpos s \<or> lpos s - start \<ge> BUF_MAX then Some s
     else do {
       let token = cstr (take (lpos s - start) (drop start (lbuf s)));
       let is_first_word = (\<forall>c \<in> set (take start (lbuf s)). \<not> c_isspace c);
       let ms = unique_matches env is_first_word token;
       if ms = [] then Some (put [BEL] s)
       else do {
         (go, s) \<leftarrow> (case ms of [m] \<Rightarrow> complete_single env p token m s | _ \<Rightarrow> Some (True, s));
         if go then redraw p (put (list_matches env ms) s) else Some s
       }
     }
   }"

section \<open>Reading a line\<close>

definition getchar :: "string \<Rightarrow> char option \<times> string" where
  "getchar inp = (case inp of [] \<Rightarrow> (None, []) | c # cs \<Rightarrow> (Some c, cs))"

text \<open>What follows the escape character: the key it stands for, and its effect.\<close>

datatype esc_key = K_up | K_down | K_right | K_left | K_delete | K_word_right | K_word_left | K_none

definition read_delete :: "string \<Rightarrow> esc_key \<times> string" where
  "read_delete inp =
     (let (cr_check, inp) = getchar inp in (if cr_check = Some (CHR ''~'') then K_delete else K_none, inp))"

definition read_ctrl_arrow :: "string \<Rightarrow> esc_key \<times> string" where
  "read_ctrl_arrow inp =
     (let (c3, inp) = getchar inp; (c4, inp) = getchar inp; (c5, inp) = getchar inp in
      (if c3 = Some (CHR '';'') \<and> c4 = Some (CHR ''5'')
       then if c5 = Some (CHR ''C'') then K_word_right else if c5 = Some (CHR ''D'') then K_word_left else K_none
       else K_none, inp))"

definition read_escape :: "string \<Rightarrow> esc_key \<times> string" where
  "read_escape inp =
     (let (a, inp) = getchar inp; (b, inp) = getchar inp in
      if a = Some (CHR ''['') \<and> b = Some (CHR ''A'') then (K_up, inp)
      else if a = Some (CHR ''['') \<and> b = Some (CHR ''B'') then (K_down, inp)
      else if a = Some (CHR ''['') \<and> b = Some (CHR ''C'') then (K_right, inp)
      else if a = Some (CHR ''['') \<and> b = Some (CHR ''D'') then (K_left, inp)
      else if a = Some (CHR ''['') \<and> b = Some (CHR ''3'') then read_delete inp
      else if a = Some (CHR ''['') \<and> b = Some (CHR ''1'') then read_ctrl_arrow inp
      else (K_none, tl (dropWhile c_isprint inp)))"

definition escape_key :: "string option \<Rightarrow> esc_key \<Rightarrow> line_state \<Rightarrow> line_state option" where
  "escape_key p k s =
     (case k of
        K_up \<Rightarrow> key_recall p hist_up s
      | K_down \<Rightarrow> key_recall p hist_down s
      | K_right \<Rightarrow> key_right p s
      | K_left \<Rightarrow> key_left p s
      | K_delete \<Rightarrow> key_delete p s
      | K_word_right \<Rightarrow> key_word_right p s
      | K_word_left \<Rightarrow> key_word_left p s
      | K_none \<Rightarrow> Some s)"

text \<open>One round of the loop after \<open>getchar\<close>: the value to return, if any.\<close>

definition line_key :: "completion_env \<Rightarrow> string option \<Rightarrow> char \<Rightarrow> string \<Rightarrow> line_state \<Rightarrow>
  (int option \<times> line_state \<times> string) option" where
  "line_key env p c inp s =
     (if c = NL then do {
        b \<leftarrow> arr_set (lbuf s) (llen s) NUL;
        h \<leftarrow> history_add (cstr b) (lhist s);
        Some (Some (int (llen s)), put [NL] (s\<lparr>lbuf := b, lhist := h\<rparr>), inp)
      }
      else if (c = DEL \<or> c = BS) \<and> lpos s > 0 then do { s \<leftarrow> key_backspace p s; Some (None, s, inp) }
      else if c = EOT then Some (if llen s = 0 then Some (- 1) else None, s, inp)
      else if c = ESC then let (k, inp) = read_escape inp in do { s \<leftarrow> escape_key p k s; Some (None, s, inp) }
      else if c = TAB then do { s \<leftarrow> tab_complete env p s; Some (None, s, inp) }
      else if c_isprint c then do { s \<leftarrow> key_insert p c s; Some (None, s, inp) }
      else Some (None, put [BEL] s, inp))"

lemma getchar_length: "length (snd (getchar inp)) \<le> length inp"
  by (simp add: getchar_def split: list.split)

lemma getchar_le: "getchar i = (c, r) \<Longrightarrow> length r \<le> length i"
  using getchar_length [of i] by simp

lemma read_delete_length: "length (snd (read_delete inp)) \<le> length inp"
  by (auto simp: read_delete_def split: prod.split dest: getchar_le)

lemma read_ctrl_arrow_length: "length (snd (read_ctrl_arrow inp)) \<le> length inp"
  by (auto simp: read_ctrl_arrow_def split: prod.split dest!: getchar_le)

lemma read_escape_length: "length (snd (read_escape inp)) \<le> length inp"
proof -
  obtain a i where a: "getchar inp = (a, i)" by fastforce
  obtain b j where b: "getchar i = (b, j)" by fastforce
  have j: "length j \<le> length inp" using getchar_le [OF a] getchar_le [OF b] by simp
  have "length (tl (dropWhile c_isprint j)) \<le> length j"
    using length_dropWhile_le [of c_isprint j] by simp
  then have "snd (read_escape inp) = j \<or> length (snd (read_escape inp)) \<le> length j"
    by (simp add: read_escape_def a b read_delete_length read_ctrl_arrow_length)
  with j show ?thesis by auto
qed

lemma line_key_length: "line_key env p c inp s = Some (r, s', rest) \<Longrightarrow> length rest \<le> length inp"
  using read_escape_length [of inp]
  by (auto simp: line_key_def split: if_splits bind_splits prod.splits)

function line_loop :: "completion_env \<Rightarrow> string option \<Rightarrow> string \<Rightarrow> line_state \<Rightarrow>
  (int \<times> line_state \<times> string) option" where
  "line_loop env p [] s = Some (- 1, s, [])"
| "line_loop env p (c # cs) s = do {
     (r, s', rest) \<leftarrow> line_key env p c cs s;
     case r of Some v \<Rightarrow> Some (v, s', rest) | None \<Rightarrow> line_loop env p rest s'
   }"
  by pat_completeness auto
termination
  by (relation "measure (\<lambda>(_, _, inp, _). length inp)") (auto dest: line_key_length)

text \<open>
  \<open>out\<close> is the caller's array; its size is \<open>cap\<close>.
\<close>

definition line_read :: "completion_env \<Rightarrow> string option \<Rightarrow> string \<Rightarrow> history \<Rightarrow> string \<Rightarrow>
  (int \<times> line_state \<times> string) option" where
  "line_read env p out h inp =
     (let s = \<lparr>lbuf = out, llen = 0, lpos = 0, lhist = h, ltty = []\<rparr> in
      if out = [] then Some (- 1, s, inp)
      else do { s \<leftarrow> redraw p s; line_loop env p inp s })"

end
