(* ===== verification/Line_Editor.thy ===== *)
theory Line_Editor
  imports Cmdline
begin

text \<open>
  The line editor implements a text with a cursor: a pair of lists, the characters before the
  cursor in reverse and those after it.  Every key of \<open>line_read\<close> is simulated by a step on
  that pair, which gives the safety of the buffer accesses and, for whole key sequences, the
  line that is returned.
\<close>

section \<open>Text with a cursor\<close>

type_synonym zipper = "string \<times> string"

definition zmove_left :: "(char \<Rightarrow> bool) \<Rightarrow> zipper \<Rightarrow> zipper" where
  "zmove_left q = (\<lambda>(l, r). (dropWhile q l, rev (takeWhile q l) @ r))"

definition zmove_right :: "(char \<Rightarrow> bool) \<Rightarrow> zipper \<Rightarrow> zipper" where
  "zmove_right q = (\<lambda>(l, r). (rev (takeWhile q r) @ l, dropWhile q r))"

definition zleft :: "zipper \<Rightarrow> zipper" where
  "zleft = (\<lambda>(l, r). case l of [] \<Rightarrow> (l, r) | c # cs \<Rightarrow> (cs, c # r))"

definition zright :: "zipper \<Rightarrow> zipper" where
  "zright = (\<lambda>(l, r). case r of [] \<Rightarrow> (l, r) | c # cs \<Rightarrow> (c # l, cs))"

datatype ekey = Type char | Backspace | Delete | Left | Right | Word_left | Word_right

fun zstep :: "nat \<Rightarrow> ekey \<Rightarrow> zipper \<Rightarrow> zipper" where
  "zstep mx (Type c) (l, r) = (if length l + length r < mx then (c # l, r) else (l, r))"
| "zstep mx Backspace (l, r) = (tl l, r)"
| "zstep mx Delete (l, r) = (l, tl r)"
| "zstep mx Left z = zleft z"
| "zstep mx Right z = zright z"
| "zstep mx Word_left z = zmove_left (\<lambda>c. \<not> c_isalnum c) (zmove_left c_isalnum (zleft z))"
| "zstep mx Word_right z = zmove_right (\<lambda>c. \<not> c_isalnum c) (zmove_right c_isalnum z)"

definition ztext :: "zipper \<Rightarrow> string" where
  "ztext = (\<lambda>(l, r). rev l @ r)"

section \<open>Simulation\<close>

text \<open>The buffer holds the text, and has room for one more character, the null.\<close>

definition shown :: "nat \<Rightarrow> line_state \<Rightarrow> zipper \<Rightarrow> bool" where
  "shown cap s = (\<lambda>(l, r). \<exists>junk. lbuf s = rev l @ r @ junk \<and> junk \<noteq> [] \<and>
     llen s = length l + length r \<and> lpos s = length l \<and> length (lbuf s) = cap)"

lemma shownI:
  "lbuf s = rev l @ r @ junk \<Longrightarrow> junk \<noteq> [] \<Longrightarrow> llen s = length l + length r \<Longrightarrow> lpos s = length l \<Longrightarrow>
   length (lbuf s) = cap \<Longrightarrow> shown cap s (l, r)"
  by (auto simp: shown_def)

lemma shownE:
  assumes "shown cap s (l, r)"
  obtains junk where "lbuf s = rev l @ r @ junk" "junk \<noteq> []" "llen s = length l + length r"
    "lpos s = length l" "length (lbuf s) = cap"
  using assms by (auto simp: shown_def)

lemma put_fields [simp]:
  "lbuf (put t s) = lbuf s" "llen (put t s) = llen s" "lpos (put t s) = lpos s" "lhist (put t s) = lhist s"
  by (simp_all add: put_def)

lemma shown_put [simp]: "shown cap (put t s) z = shown cap s z"
  by (simp add: shown_def)

text \<open>What a key leaves alone.\<close>

lemma redraw_shown:
  assumes "shown cap s z"
  shows "\<exists>s'. redraw p s = Some s' \<and> shown cap s' z \<and> lhist s' = lhist s"
proof -
  obtain l r where z: "z = (l, r)" by fastforce
  with assms obtain junk where "lbuf s = rev l @ r @ junk" "llen s = length l + length r"
    by (auto elim: shownE)
  then have "llen s \<le> length (lbuf s)" by simp
  then obtain t where "printf_prec (lbuf s) (llen s) = Some t" using printf_prec_defined by blast
  with assms show ?thesis by (cases p) (simp_all add: redraw_def)
qed

lemma key_insert_sim:
  assumes "shown cap s z"
  shows "\<exists>s'. key_insert p c s = Some s' \<and> shown cap s' (zstep (cap - 1) (Type c) z) \<and> lhist s' = lhist s"
proof -
  obtain l r where z: "z = (l, r)" by fastforce
  with assms obtain junk where s: "lbuf s = rev l @ r @ junk" "junk \<noteq> []" "llen s = length l + length r"
    "lpos s = length l" "length (lbuf s) = cap"
    by (auto elim: shownE)
  show ?thesis
  proof (cases "llen s < cap - 1")
    case True
    then obtain x y junk' where j: "junk = x # y # junk'"
      using s by (cases junk; cases "tl junk") auto
    let ?s = "s\<lparr>lbuf := rev l @ c # r @ NUL # junk', llen := llen s + 1, lpos := lpos s + 1\<rparr>"
    have "key_insert p c s = redraw p ?s"
      using True s j by (cases r) (simp_all add: key_insert_def memmove_def list_update_append)
    moreover have "shown cap ?s (c # l, r)"
      using s j by (intro shownI [where junk = "NUL # junk'"]) auto
    ultimately show ?thesis
      using redraw_shown [of cap ?s "(c # l, r)" p] True s z by simp
  next
    case False
    then show ?thesis using s z assms by (simp add: key_insert_def)
  qed
qed

lemma key_backspace_sim:
  assumes "shown cap s z" and "lpos s > 0"
  shows "\<exists>s'. key_backspace p s = Some s' \<and> shown cap s' (zstep mx Backspace z) \<and> lhist s' = lhist s"
proof -
  obtain l r where z: "z = (l, r)" by fastforce
  with assms obtain junk where s: "lbuf s = rev l @ r @ junk" "junk \<noteq> []" "llen s = length l + length r"
    "lpos s = length l" "length (lbuf s) = cap"
    by (auto elim: shownE)
  then obtain c l' where l: "l = c # l'" using assms(2) by (cases l) auto
  obtain junk' where b: "memmove (lbuf s) (lpos s - 1) (lpos s) (llen s - lpos s) = Some (rev l' @ r @ junk')"
    "junk' \<noteq> []"
    using s l by (simp add: memmove_def)
  let ?s = "s\<lparr>lbuf := rev l' @ r @ junk', llen := llen s - 1, lpos := lpos s - 1\<rparr>"
  have "shown cap ?s (l', r)"
    using s l b memmove_length [OF b(1)] by (intro shownI [where junk = junk']) auto
  then show ?thesis using redraw_shown [of cap ?s "(l', r)" p] b z l by (simp add: key_backspace_def)
qed

lemma key_delete_sim:
  assumes "shown cap s z"
  shows "\<exists>s'. key_delete p s = Some s' \<and> shown cap s' (zstep mx Delete z) \<and> lhist s' = lhist s"
proof -
  obtain l r where z: "z = (l, r)" by fastforce
  with assms obtain junk where s: "lbuf s = rev l @ r @ junk" "junk \<noteq> []" "llen s = length l + length r"
    "lpos s = length l" "length (lbuf s) = cap"
    by (auto elim: shownE)
  show ?thesis
  proof (cases r)
    case Nil
    then show ?thesis using s z assms by (simp add: key_delete_def)
  next
    case (Cons c r')
    obtain y junk' where d: "drop (length r') (c # r' @ junk) = y # junk'" "junk' \<noteq> []"
    proof -
      have "length (drop (length r') (c # r' @ junk)) = Suc (length junk)" by simp
      with s(2) show ?thesis
        by (cases "drop (length r') (c # r' @ junk)") (auto intro: that)
    qed
    then have b: "memmove (lbuf s) (lpos s) (lpos s + 1) (llen s - lpos s - 1) = Some (rev l @ r' @ y # junk')"
      using s Cons by (simp add: memmove_def)
    let ?s = "s\<lparr>lbuf := rev l @ r' @ NUL # junk', llen := llen s - 1\<rparr>"
    have "key_delete p s = redraw p ?s"
      using s b d Cons by (simp add: key_delete_def list_update_append)
    moreover have "shown cap ?s (l, r')"
      using s b d Cons memmove_length [OF b] by (intro shownI [where junk = "NUL # junk'"]) auto
    ultimately show ?thesis using redraw_shown [of cap ?s "(l, r')" p] z Cons by simp
  qed
qed

text \<open>Moving the cursor keeps the text.\<close>

lemma ztext_moves [simp]:
  "ztext (zleft z) = ztext z" "ztext (zright z) = ztext z"
  "ztext (zmove_left q z) = ztext z" "ztext (zmove_right q z) = ztext z"
proof -
  obtain l r where z: "z = (l, r)" by fastforce
  show "ztext (zleft z) = ztext z" "ztext (zright z) = ztext z"
    by (auto simp: z ztext_def zleft_def zright_def split: list.split)
  have "rev (dropWhile q l) @ rev (takeWhile q l) = rev l" "takeWhile q r @ dropWhile q r = r"
    by (simp_all flip: rev_append)
  then show "ztext (zmove_left q z) = ztext z" "ztext (zmove_right q z) = ztext z"
    by (simp_all add: z ztext_def zmove_left_def zmove_right_def flip: append_assoc)
       (simp add: append_assoc)
qed

lemma shown_move:
  assumes "shown cap s z" and "ztext z' = ztext z"
  shows "shown cap (s\<lparr>lpos := length (fst z')\<rparr>) z'"
proof -
  obtain l r l' r' where z: "z = (l, r)" "z' = (l', r')" by fastforce
  with assms obtain junk where s: "lbuf s = rev l @ r @ junk" "junk \<noteq> []" "llen s = length l + length r"
    "length (lbuf s) = cap"
    by (auto elim: shownE)
  have t: "rev l' @ r' = rev l @ r" using assms(2) z by (simp add: ztext_def)
  then have "lbuf s = rev l' @ r' @ junk" using s(1) by (metis append_assoc)
  moreover have "length l' + length r' = length l + length r"
    using arg_cong [OF t, of length] by simp
  ultimately have "shown cap (s\<lparr>lpos := length l'\<rparr>) (l', r')"
    using s by (intro shownI [where junk = junk]) simp_all
  then show ?thesis by (simp add: z)
qed

lemma move_sim:
  assumes "shown cap s z" and "ztext z' = ztext z"
  shows "\<exists>s'. redraw p (s\<lparr>lpos := length (fst z')\<rparr>) = Some s' \<and> shown cap s' z' \<and> lhist s' = lhist s"
  using redraw_shown [OF shown_move [OF assms], of p] by simp

lemma shown_sizes: "shown cap s (l, r) \<Longrightarrow> llen s = length l + length r \<and> lpos s = length l"
  by (auto elim: shownE)

lemma key_left_sim:
  assumes "shown cap s z"
  shows "\<exists>s'. key_left p s = Some s' \<and> shown cap s' (zleft z) \<and> lhist s' = lhist s"
  using move_sim [OF assms, of "zleft z" p] shown_sizes [of cap s "fst z" "snd z"] assms
  by (cases z; cases "fst z") (simp_all add: key_left_def zleft_def ztext_def)

lemma key_right_sim:
  assumes "shown cap s z"
  shows "\<exists>s'. key_right p s = Some s' \<and> shown cap s' (zright z) \<and> lhist s' = lhist s"
  using move_sim [OF assms, of "zright z" p] shown_sizes [of cap s "fst z" "snd z"] assms
  by (cases z; cases "snd z") (simp_all add: key_right_def zright_def ztext_def)

lemma skip_left_eq: "skip_left q (rev l @ rest) (length l) = Some (length (dropWhile q l))"
proof (induction l arbitrary: rest)
  case (Cons c l)
  then show ?case using Cons [of "c # rest"] by (simp add: nth_append)
qed simp

lemma skip_right_eq:
  "skip_right q (b @ r @ rest) (length b) (length b + length r) = Some (length b + length (takeWhile q r))"
proof (induction r arbitrary: b)
  case Nil
  then show ?case by (simp add: skip_right.simps)
next
  case (Cons c r)
  then show ?case using Cons [of "b @ [c]"] by (subst skip_right.simps) (simp add: nth_append)
qed

lemma key_word_left_sim:
  assumes "shown cap s z"
  shows "\<exists>s'. key_word_left p s = Some s' \<and> shown cap s' (zstep mx Word_left z) \<and> lhist s' = lhist s"
proof -
  obtain l r where z: "z = (l, r)" by fastforce
  with assms obtain junk where s: "lbuf s = rev l @ r @ junk" "lpos s = length l"
    by (auto elim: shownE)
  obtain l1 r1 where 1: "zleft z = (l1, r1)" by fastforce
  then have l1: "length l - 1 = length l1" "rev l1 @ r1 = rev l @ r"
    using z ztext_moves(1) [of z] by (auto simp: zleft_def ztext_def split: list.splits)
  let ?l2 = "dropWhile c_isalnum l1"
  have b: "lbuf s = rev l1 @ r1 @ junk" "lbuf s = rev ?l2 @ rev (takeWhile c_isalnum l1) @ r1 @ junk"
  proof -
    show "lbuf s = rev l1 @ r1 @ junk" using s(1) l1(2) by (metis append_assoc)
    moreover have "rev l1 = rev ?l2 @ rev (takeWhile c_isalnum l1)" by (simp flip: rev_append)
    ultimately show "lbuf s = rev ?l2 @ rev (takeWhile c_isalnum l1) @ r1 @ junk" by simp
  qed
  have "skip_left c_isalnum (lbuf s) (lpos s - 1) = Some (length ?l2)"
    using skip_left_eq [of c_isalnum l1] s(2) l1(1) b(1) by simp
  moreover have "skip_left (\<lambda>c. \<not> c_isalnum c) (lbuf s) (length ?l2) = Some (length (dropWhile (\<lambda>c. \<not> c_isalnum c) ?l2))"
    using skip_left_eq [of "\<lambda>c. \<not> c_isalnum c" ?l2] b(2) by simp
  moreover have "fst (zstep mx Word_left z) = dropWhile (\<lambda>c. \<not> c_isalnum c) ?l2"
    by (simp add: 1 zmove_left_def)
  ultimately show ?thesis
    using move_sim [OF assms, of "zstep mx Word_left z" p] by (simp add: key_word_left_def)
qed

lemma key_word_right_sim:
  assumes "shown cap s z"
  shows "\<exists>s'. key_word_right p s = Some s' \<and> shown cap s' (zstep mx Word_right z) \<and> lhist s' = lhist s"
proof -
  obtain l r where z: "z = (l, r)" by fastforce
  with assms obtain junk where s: "lbuf s = rev l @ r @ junk" "lpos s = length l" "llen s = length l + length r"
    by (auto elim: shownE)
  let ?a = "takeWhile c_isalnum r" and ?r2 = "dropWhile c_isalnum r"
  have "lbuf s = (rev l @ ?a) @ ?r2 @ junk" using s(1) by (simp flip: append_assoc) (simp add: append_assoc)
  moreover have "llen s = length (rev l @ ?a) + length ?r2"
    using s(3) arg_cong [OF takeWhile_dropWhile_id [of c_isalnum r], of length]
    by (simp only: length_append length_rev)
  ultimately have "skip_right (\<lambda>c. \<not> c_isalnum c) (lbuf s) (length l + length ?a) (llen s) =
      Some (length l + length ?a + length (takeWhile (\<lambda>c. \<not> c_isalnum c) ?r2))"
    using skip_right_eq [of "\<lambda>c. \<not> c_isalnum c" "rev l @ ?a" ?r2 junk] by simp
  moreover have "skip_right c_isalnum (lbuf s) (lpos s) (llen s) = Some (length l + length ?a)"
    using skip_right_eq [of c_isalnum "rev l" r junk] s by simp
  moreover have "length (fst (zstep mx Word_right z)) =
      length l + length ?a + length (takeWhile (\<lambda>c. \<not> c_isalnum c) ?r2)"
    by (simp add: z zmove_right_def)
  ultimately show ?thesis
    using move_sim [OF assms, of "zstep mx Word_right z" p] by (simp add: key_word_right_def)
qed

section \<open>Key sequences\<close>

text \<open>The bytes a terminal sends for a key, and the branch of \<open>line_read\<close> they reach.\<close>

fun encode_key :: "ekey \<Rightarrow> string" where
  "encode_key (Type c) = [c]"
| "encode_key Backspace = [DEL]"
| "encode_key Delete = ESC # ''[3~''"
| "encode_key Left = ESC # ''[D''"
| "encode_key Right = ESC # ''[C''"
| "encode_key Word_left = ESC # ''[1;5D''"
| "encode_key Word_right = ESC # ''[1;5C''"

definition key_ok :: "ekey \<Rightarrow> bool" where
  "key_ok k = (case k of Type c \<Rightarrow> c_isprint c | _ \<Rightarrow> True)"

fun edit_key :: "string option \<Rightarrow> ekey \<Rightarrow> line_state \<Rightarrow> line_state option" where
  "edit_key p (Type c) s = key_insert p c s"
| "edit_key p Backspace s = (if lpos s > 0 then key_backspace p s else Some (put [BEL] s))"
| "edit_key p Delete s = key_delete p s"
| "edit_key p Left s = key_left p s"
| "edit_key p Right s = key_right p s"
| "edit_key p Word_left s = key_word_left p s"
| "edit_key p Word_right s = key_word_right p s"

lemma bind_assoc_None:
  "Option.bind (Option.bind m (\<lambda>s. Some (None, s, rest))) (\<lambda>(r, s, rest). case r of Some v \<Rightarrow> Some (v, s, rest) | None \<Rightarrow> f rest s) =
   Option.bind m (f rest)"
  by (cases m) simp_all

lemma line_loop_key:
  assumes "key_ok k"
  shows "line_loop env p (encode_key k @ rest) s = Option.bind (edit_key p k s) (line_loop env p rest)"
proof (cases k)
  case (Type c)
  then have "c_isprint c" using assms by (simp add: key_ok_def)
  then have "line_key env p c rest s = do { s \<leftarrow> key_insert p c s; Some (None, s, rest) }"
    by (simp add: line_key_def)
  then show ?thesis using Type by (simp add: bind_assoc_None)
next
  case Backspace
  have "\<not> c_isprint DEL" by (simp add: c_isprint_def)
  then show ?thesis using Backspace by (simp add: line_key_def bind_assoc_None)
qed (simp_all add: line_key_def read_escape_def read_delete_def read_ctrl_arrow_def getchar_def
      escape_key_def bind_assoc_None)

interpretation keys: simulation "edit_key p" "zstep (cap - 1)" "\<lambda>s z. shown cap s z \<and> lhist s = h" key_ok for p cap h
proof
  fix s z k assume s: "shown cap s z \<and> lhist s = h"
  then have s': "shown cap s z" by simp
  show "\<exists>s'. edit_key p k s = Some s' \<and> shown cap s' (zstep (cap - 1) k z) \<and> lhist s' = h"
  proof (cases k)
    case Backspace
    show ?thesis
    proof (cases "lpos s > 0")
      case True
      then show ?thesis using key_backspace_sim [OF s' True, of p "cap - 1"] s Backspace by auto
    next
      case False
      then have "zstep (cap - 1) Backspace z = z" using s' by (cases z) (auto dest: shown_sizes)
      then show ?thesis using False s Backspace by simp
    qed
  qed (use s' s key_insert_sim [OF s', of p] key_delete_sim [OF s', of p "cap - 1"] key_left_sim [OF s', of p]
      key_right_sim [OF s', of p] key_word_left_sim [OF s', of p "cap - 1"]
      key_word_right_sim [OF s', of p "cap - 1"] in auto)
qed

lemma line_loop_keys:
  assumes "list_all key_ok ks"
  shows "line_loop env p (concat (map encode_key ks) @ rest) s =
    Option.bind (keys.steps p ks s) (line_loop env p rest)"
  using assms
proof (induction ks arbitrary: s)
  case (Cons k ks)
  then show ?case by (cases "edit_key p k s") (simp_all add: line_loop_key)
qed simp

lemma zstep_chars:
  assumes "key_ok k"
  shows "set (ztext (zstep mx k z)) \<subseteq> set (ztext z) \<union> {c. c_isprint c}"
proof (cases k)
  case (Type c)
  then show ?thesis using assms by (cases z) (auto simp: key_ok_def ztext_def)
next
  case Backspace
  then show ?thesis by (cases z; cases "fst z") (auto simp: ztext_def)
next
  case Delete
  then show ?thesis by (cases z; cases "snd z") (auto simp: ztext_def)
qed simp_all

lemma edited_chars:
  assumes "list_all key_ok ks"
  shows "set (ztext (fold (zstep mx) ks z)) \<subseteq> set (ztext z) \<union> {c. c_isprint c}"
  using assms
proof (induction ks arbitrary: z)
  case (Cons k ks)
  then have "set (ztext (fold (zstep mx) (k # ks) z)) \<subseteq> set (ztext (zstep mx k z)) \<union> {c. c_isprint c}"
    by (simp del: split_paired_All)
  also have "\<dots> \<subseteq> set (ztext z) \<union> {c. c_isprint c}"
    using zstep_chars [of k mx z] Cons.prems by simp
  finally show ?case .
qed simp

lemma enter_key:
  assumes "shown cap s z" and "NUL \<notin> set (ztext z)" and "history_add (ztext z) (lhist s) = Some h"
  shows "\<exists>s'. line_loop env p (NL # rest) s = Some (int (length (ztext z)), s', rest) \<and>
    cstr (lbuf s') = ztext z \<and> lhist s' = h"
proof -
  obtain l r where z: "z = (l, r)" by fastforce
  with assms obtain junk where s: "lbuf s = rev l @ r @ junk" "junk \<noteq> []" "llen s = length l + length r"
    by (auto elim: shownE)
  then obtain x junk' where "junk = x # junk'" by (cases junk) auto
  with s have "arr_set (lbuf s) (llen s) NUL = Some (ztext z @ NUL # junk')"
    by (simp add: z ztext_def list_update_append)
  moreover have "cstr (ztext z @ NUL # junk') = ztext z"
    using assms(2) until_exact(1) [of NUL "ztext z" junk'] by (simp add: cstr_def)
  moreover have "llen s = length (ztext z)" using s(3) z by (simp add: ztext_def)
  ultimately show ?thesis using assms(3) by (simp add: line_key_def)
qed

section \<open>Safety\<close>

text \<open>
  The invariant of the loop: the buffer shows some text, and every line of the history fits
  into it.
\<close>

definition hist_fits :: "nat \<Rightarrow> history \<Rightarrow> bool" where
  "hist_fits cap h = (hist_ok h \<and> (\<forall>l \<in> set (hist_lines h). length l < cap))"

definition ed_ok :: "nat \<Rightarrow> line_state \<Rightarrow> bool" where
  "ed_ok cap s = ((\<exists>z. shown cap s z) \<and> hist_fits cap (lhist s))"

lemma ed_okI: "shown cap s z \<Longrightarrow> hist_fits cap (lhist s) \<Longrightarrow> ed_ok cap s"
  by (cases z) (auto simp: ed_ok_def)

text \<open>A simulated key keeps the invariant.\<close>

lemma sim_ok:
  assumes "\<exists>s'. f = Some s' \<and> shown cap s' z \<and> lhist s' = lhist s" and "hist_fits cap (lhist s)"
  shows "\<exists>s'. f = Some s' \<and> ed_ok cap s'"
  using assms by (metis ed_okI)

lemma ed_ok_put [simp]: "ed_ok cap (put t s) = ed_ok cap s"
  by (simp add: ed_ok_def)

lemma shown_pos: "shown cap s z \<Longrightarrow> 0 < cap"
  by (cases z) (auto elim: shownE)

context browsing
begin

lemma key_recall_ok:
  assumes "ed_ok cap s"
  shows "\<exists>s'. key_recall p browse s = Some s' \<and> ed_ok cap s'"
proof -
  from assms obtain z where z: "shown cap s z" and h: "hist_fits cap (lhist s)"
    by (auto simp: ed_ok_def)
  then obtain l h' where b: "browse (lhist s) = Some (l, h')" "hist_ok h'" "hist_lines h' = hist_lines (lhist s)"
    "\<And>t. l = Some t \<Longrightarrow> t = [] \<or> t \<in> set (hist_lines (lhist s))"
    using browse_ok [of "lhist s"] by (auto simp: hist_fits_def)
  then have h': "hist_fits cap h'" using h by (simp add: hist_fits_def)
  show ?thesis
  proof (cases l)
    case None
    then show ?thesis using b(1) z h' by (auto simp: key_recall_def ed_ok_def shown_def)
  next
    case (Some t)
    have len: "length (lbuf s) = cap" using z by (cases z) (auto elim: shownE)
    then have t: "length t < length (lbuf s)" using b(4) [OF Some] h shown_pos [OF z] by (auto simp: hist_fits_def)
    let ?s = "s\<lparr>lhist := h', lbuf := t @ [NUL] @ drop (Suc (length t)) (lbuf s), llen := length t, lpos := length t\<rparr>"
    have "shown cap ?s (rev t, [])"
      using t len by (intro shownI [where junk = "NUL # drop (Suc (length t)) (lbuf s)"]) auto
    from redraw_shown [OF this, of p] obtain s' where "redraw p ?s = Some s'" "ed_ok cap s'"
      using h' by (auto intro: ed_okI)
    then show ?thesis using b(1) Some by (simp add: key_recall_def snprintf_fits [OF t])
  qed
qed

end

lemma zipper_insert:
  assumes "b = rev l @ r @ junk" and "length xs < length junk"
  shows "\<exists>b1 b2 junk'. memmove b (length l + length xs) (length l) (length r) = Some b1 \<and>
    memcpy b1 (length l) xs = Some b2 \<and> b2 = rev l @ xs @ r @ junk' \<and> junk' \<noteq> [] \<and> length b2 = length b"
proof -
  let ?b1 = "take (length l + length xs) b @ r @ drop (length xs) junk"
  have m: "memmove b (length l + length xs) (length l) (length r) = Some ?b1"
    using assms by (simp add: memmove_def)
  have "memcpy ?b1 (length l) xs = Some (rev l @ xs @ r @ drop (length xs) junk)"
    using assms by (simp add: memcpy_def)
  with m show ?thesis using assms by auto
qed

lemma memcpy_append:
  assumes "memcpy a d (xs @ ys) = Some b"
  shows "\<exists>a'. memcpy a d xs = Some a' \<and> memcpy a' (d + length xs) ys = Some b"
  using assms by (auto simp: memcpy_def add.assoc add.commute add.left_commute split: if_splits)

lemma complete_single_sim:
  assumes "shown cap s (l, r)"
    and xs_def: "xs = drop (length token) m @ (if is_dir env m then ''/'' else [])"
  shows "\<exists>go s'. complete_single env p token m s = Some (go, s') \<and> lhist s' = lhist s \<and>
    (go \<longleftrightarrow> length l + length r + length xs < cap) \<and> shown cap s' (if go then rev xs @ l else l, r)"
proof -
  from assms(1) obtain junk where s: "lbuf s = rev l @ r @ junk" "junk \<noteq> []" "llen s = length l + length r"
    "lpos s = length l" "length (lbuf s) = cap"
    by (auto elim: shownE)
  have extra: "length (drop (length token) m) + length (if is_dir env m then ''/'' else []) = length xs"
    by (simp only: xs_def length_append)
  show ?thesis
  proof (cases "length l + length r + length xs < cap")
    case True
    then have "length xs < length junk" using s by simp
    from zipper_insert [OF s(1) this] obtain b1 b2 junk' where
      b: "memmove (lbuf s) (length l + length xs) (length l) (length r) = Some b1"
        "memcpy b1 (length l) xs = Some b2" "b2 = rev l @ xs @ r @ junk'" "junk' \<noteq> []" "length b2 = cap"
      using s(5) by metis
    from memcpy_append [OF b(2) [unfolded xs_def]] obtain b1' where
      c: "memcpy b1 (length l) (drop (length token) m) = Some b1'"
        "memcpy b1' (length l + length (drop (length token) m)) (if is_dir env m then ''/'' else []) = Some b2"
      by blast
    obtain x junk2 where x: "junk' = x # junk2" using b(4) by (cases junk') auto
    have n: "arr_set b2 (llen s + length xs) NUL = Some (rev (rev xs @ l) @ r @ NUL # junk2)"
      using b(3) s(3) x by (simp add: list_update_append)
    let ?s = "s\<lparr>lbuf := rev (rev xs @ l) @ r @ NUL # junk2, llen := llen s + length xs, lpos := lpos s + length xs\<rparr>"
    have "shown cap ?s (rev xs @ l, r)"
      using s(3,4) b(3,5) x by (intro shownI [where junk = "NUL # junk2"]) auto
    from redraw_shown [OF this, of p] obtain s' where
      r: "redraw p ?s = Some s'" "shown cap s' (rev xs @ l, r)" "lhist s' = lhist s" by auto
    have "complete_single env p token m s = Some (True, s')"
      unfolding complete_single_def Let_def extra
      using True s(3-5) b(1) c n r(1) by (simp add: s(3-5))
    then show ?thesis using r True by (intro exI [of _ True]) simp
  next
    case False
    then have "complete_single env p token m s = Some (False, put [BEL] s)"
      unfolding complete_single_def Let_def extra using s(3,5) by simp
    then show ?thesis using False assms(1) by (intro exI [of _ False]) simp
  qed
qed

lemma skip_left_le: "n \<le> length b \<Longrightarrow> \<exists>k \<le> n. skip_left q b n = Some k"
proof (induction n)
  case (Suc n)
  then show ?case by (cases "q (b ! n)") (auto intro: le_SucI)
qed simp

lemma tab_complete_ok:
  assumes "ed_ok cap s"
  shows "\<exists>s'. tab_complete env p s = Some s' \<and> ed_ok cap s'"
proof -
  from assms obtain l r where z: "shown cap s (l, r)" and h: "hist_fits cap (lhist s)"
    by (auto simp: ed_ok_def)
  then have "lpos s \<le> length (lbuf s)" by (auto elim: shownE)
  then obtain start where st: "start \<le> lpos s" "skip_left (\<lambda>c. \<not> c_isspace c) (lbuf s) (lpos s) = Some start"
    using skip_left_le by blast
  let ?token = "cstr (take (lpos s - start) (drop start (lbuf s)))"
  let ?ms = "unique_matches env (\<forall>c \<in> set (take start (lbuf s)). \<not> c_isspace c) ?token"
  have "\<exists>go s' z'. (case ?ms of [m] \<Rightarrow> complete_single env p ?token m s | _ \<Rightarrow> Some (True, s)) = Some (go, s') \<and>
      shown cap s' z' \<and> lhist s' = lhist s"
  proof (cases "\<exists>m. ?ms = [m]")
    case True
    then obtain m where m: "?ms = [m]" ..
    from complete_single_sim [OF z refl, of env p ?token m] m show ?thesis by fastforce
  next
    case False
    then show ?thesis using z by (auto split: list.split)
  qed
  then obtain go s' z' where s': "(case ?ms of [m] \<Rightarrow> complete_single env p ?token m s | _ \<Rightarrow> Some (True, s)) = Some (go, s')"
    "shown cap s' z'" "hist_fits cap (lhist s')"
    using h by metis
  from s'(2) redraw_shown [of cap "put (list_matches env ?ms) s'" z' p] obtain s'' where
    r: "redraw p (put (list_matches env ?ms) s') = Some s''" "shown cap s'' z'" "lhist s'' = lhist s'"
    by auto
  have "ed_ok cap s'" "ed_ok cap s''" using s' r by (auto intro: ed_okI)
  then show ?thesis
    unfolding tab_complete_def Let_def st(2) using s'(1) r(1) assms by auto
qed

lemma escape_key_ok:
  assumes "ed_ok cap s"
  shows "\<exists>s'. escape_key p k s = Some s' \<and> ed_ok cap s'"
proof -
  from assms obtain z where z: "shown cap s z" and h: "hist_fits cap (lhist s)"
    by (auto simp: ed_ok_def)
  show ?thesis
    using up.key_recall_ok [OF assms, of p] down.key_recall_ok [OF assms, of p]
      sim_ok [OF key_delete_sim [OF z, of p cap] h] sim_ok [OF key_left_sim [OF z, of p] h]
      sim_ok [OF key_right_sim [OF z, of p] h] sim_ok [OF key_word_left_sim [OF z, of p cap] h]
      sim_ok [OF key_word_right_sim [OF z, of p cap] h] assms
    by (cases k) (simp_all add: escape_key_def)
qed

text \<open>What \<open>line_read\<close> returns: a failure, or the length of a line that fits.\<close>

definition read_result :: "nat \<Rightarrow> int \<Rightarrow> line_state \<Rightarrow> bool" where
  "read_result cap v s =
     (length (lbuf s) = cap \<and> hist_fits cap (lhist s) \<and>
      (v = - 1 \<or> (0 \<le> v \<and> v < int cap \<and> lbuf s ! nat v = NUL)))"

lemma enter_ok:
  assumes "ed_ok cap s"
  shows "\<exists>v s'. line_key env p NL inp s = Some (Some v, s', inp) \<and> read_result cap v s'"
proof -
  from assms have h: "hist_ok (lhist s)" "\<forall>l \<in> set (hist_lines (lhist s)). length l < cap"
    and len: "llen s < length (lbuf s)" "length (lbuf s) = cap"
    by (auto simp: ed_ok_def hist_fits_def elim!: shownE)
  let ?b = "(lbuf s)[llen s := NUL]"
  have "NUL \<in> set ?b" using len(1) by (simp add: set_update_memI)
  then obtain xs ys where "?b = xs @ NUL # ys" "NUL \<notin> set xs" by (metis split_list_first)
  then have "length (cstr ?b) < length ?b" by (simp add: cstr_def until_exact)
  then have c: "length (cstr ?b) < cap" using len(2) by simp
  obtain h' where h': "history_add (cstr ?b) (lhist s) = Some h'" "hist_fits cap h'"
  proof (cases "cstr ?b = []")
    case True
    then show ?thesis using h that by (auto simp: hist_fits_def)
  next
    case False
    from history_add_effect [OF h(1) this] obtain h' where
      "history_add (cstr ?b) (lhist s) = Some h'" "hist_ok h'" "hist_lines h' = take 128 (cstr ?b # hist_lines (lhist s))"
      by blast
    then show ?thesis using h(2) c that by (auto simp: hist_fits_def dest: in_set_takeD)
  qed
  then show ?thesis using len by (simp add: line_key_def read_result_def)
qed

lemma line_key_ok:
  assumes "ed_ok cap s"
  shows "\<exists>v s' rest. line_key env p c inp s = Some (v, s', rest) \<and>
    (case v of None \<Rightarrow> ed_ok cap s' | Some v \<Rightarrow> read_result cap v s')"
proof -
  from assms obtain z where z: "shown cap s z" and h: "hist_fits cap (lhist s)" by (auto simp: ed_ok_def)
  have len: "length (lbuf s) = cap" using z by (cases z) (auto elim: shownE)
  consider (nl) "c = NL" | (bs) "c \<noteq> NL" "(c = DEL \<or> c = BS) \<and> lpos s > 0" | (other) "c \<noteq> NL" "\<not> ((c = DEL \<or> c = BS) \<and> lpos s > 0)"
    by blast
  then show ?thesis
  proof cases
    case nl
    then show ?thesis using enter_ok [OF assms, of env p inp] by auto
  next
    case bs
    then obtain s' where "key_backspace p s = Some s'" "ed_ok cap s'"
      using sim_ok [OF key_backspace_sim [OF z, of p cap] h] by blast
    with bs show ?thesis by (simp add: line_key_def)
  next
    case other
    obtain k rest where k: "read_escape inp = (k, rest)" by fastforce
    obtain s1 where 1: "key_insert p c s = Some s1" "ed_ok cap s1"
      using sim_ok [OF key_insert_sim [OF z, of p c] h] by blast
    obtain s2 where 2: "tab_complete env p s = Some s2" "ed_ok cap s2" using tab_complete_ok [OF assms] by blast
    obtain s3 where 3: "escape_key p k s = Some s3" "ed_ok cap s3" using escape_key_ok [OF assms] by blast
    consider (eot) "c = EOT" | (esc) "c = ESC" | (tab) "c = TAB" | (char) "c \<noteq> EOT" "c \<noteq> ESC" "c \<noteq> TAB"
      by blast
    then show ?thesis
    proof cases
      case eot
      then show ?thesis using assms h len by (simp add: line_key_def read_result_def)
    next
      case esc
      then show ?thesis using k 3 by (simp add: line_key_def)
    next
      case tab
      then show ?thesis using 2 by (simp add: line_key_def)
    next
      case char
      then have "line_key env p c inp s = Some (None, if c_isprint c then s1 else put [BEL] s, inp)"
        unfolding line_key_def using other 1(1) by (simp only: if_False) simp
      then show ?thesis using 1(2) assms by simp
    qed
  qed
qed

lemma line_loop_ok:
  assumes "ed_ok cap s"
  shows "\<exists>v s' rest. line_loop env p inp s = Some (v, s', rest) \<and> read_result cap v s'"
  using assms
proof (induction env p inp s rule: line_loop.induct)
  case (1 env p s)
  then show ?case by (auto simp: ed_ok_def read_result_def elim!: shownE)
next
  case (2 env p c cs s)
  from line_key_ok [OF "2.prems", of env p c cs] obtain v s' rest where
    k: "line_key env p c cs s = Some (v, s', rest)" "case v of None \<Rightarrow> ed_ok cap s' | Some v \<Rightarrow> read_result cap v s'"
    by blast
  show ?case
  proof (cases v)
    case None
    then show ?thesis using "2.IH" [OF k(1) refl refl None] k by simp
  qed (use k in simp)
qed

section \<open>Properties\<close>

lemma ztext_empty: "ztext ([], []) = []"
  by (simp add: ztext_def)

lemma line_read_start:
  assumes "out \<noteq> []"
  shows "\<exists>s. line_read env p out h inp = line_loop env p inp s \<and> shown (length out) s ([], []) \<and> lhist s = h"
proof -
  let ?s = "\<lparr>lbuf = out, llen = 0, lpos = 0, lhist = h, ltty = []\<rparr>"
  have "shown (length out) ?s ([], [])" using assms by (simp add: shown_def)
  from redraw_shown [OF this, of p] assms show ?thesis by (auto simp: line_read_def)
qed

lemma line_read_ok:
  assumes "hist_fits (length out) h"
  shows "\<exists>v s rest. line_read env p out h inp = Some (v, s, rest) \<and> read_result (length out) v s"
proof (cases "out = []")
  case True
  then show ?thesis using assms by (simp add: line_read_def read_result_def)
next
  case False
  from line_read_start [OF this, of env p h inp] obtain s where
    s: "line_read env p out h inp = line_loop env p inp s" "shown (length out) s ([], [])" "lhist s = h" by blast
  then have "ed_ok (length out) s" using assms by (auto intro: ed_okI)
  from line_loop_ok [OF this, of env p inp] s(1) show ?thesis by simp
qed

text \<open>
  C14.  \<open>line_read\<close> always returns, on any input and any directory contents, without
  touching memory outside its buffer, provided every line of the history fits the buffer; it
  returns \<open>-1\<close> or the length of a null-terminated line, and leaves the same guarantee for
  the next call.
\<close>

theorem line_read_safe:
  assumes "hist_fits (length out) h"
  shows "\<exists>v s rest. line_read env p out h inp = Some (v, s, rest) \<and> read_result (length out) v s"
  using assms by (rule line_read_ok)

definition no_files :: completion_env where
  "no_files = \<lparr>path_env = None, project_bin = [], opendir = (\<lambda>_. None), is_dir = (\<lambda>_. False)\<rparr>"

lemma hist_init_fits: "hist_fits cap hist_init"
  by (simp add: hist_fits_def hist_init_ok) (simp add: hist_lines_def hist_init_def)

theorem line_read_safe_witness:
  "\<exists>v s rest. line_read no_files None ''xxxx'' hist_init (''abcdef'' @ [TAB, NL]) = Some (v, s, rest) \<and>
    read_result (length ''xxxx'') v s"
  by (rule line_read_safe) (rule hist_init_fits)

lemma read_keys:
  assumes "out \<noteq> []" and "list_all key_ok ks" and "hist_ok h"
    and "t = ztext (fold (zstep (length out - 1)) ks ([], []))"
  shows "\<exists>s. line_read env p out h (concat (map encode_key ks) @ NL # rest) = Some (int (length t), s, rest) \<and>
    cstr (lbuf s) = t \<and> history_add t h = Some (lhist s)"
proof -
  from line_read_start [OF assms(1)] obtain s0 where
    s0: "line_read env p out h (concat (map encode_key ks) @ NL # rest) =
        line_loop env p (concat (map encode_key ks) @ NL # rest) s0"
      "shown (length out) s0 ([], [])" "lhist s0 = h"
    by blast
  from keys.steps_sim [of "length out" s0 "([], [])" h ks p] s0 assms(2) obtain s1 where
    s1: "keys.steps p ks s0 = Some s1" "shown (length out) s1 (fold (zstep (length out - 1)) ks ([], []))" "lhist s1 = h"
    by auto
  have "NUL \<notin> set t"
  proof -
    have "set t \<subseteq> {c. c_isprint c}"
      using edited_chars [OF assms(2), of "length out - 1" "([], [])"] assms(4) ztext_empty by simp
    then show ?thesis using NUL_not_print by blast
  qed
  moreover obtain h' where "history_add t h = Some h'"
    using history_add_effect [OF assms(3), of t] by (cases "t = []") auto
  ultimately show ?thesis
    using enter_key [OF s1(2), of h' env p rest] s0(1) s1 assms(4) line_loop_keys [OF assms(2), of env p "NL # rest" s0]
    by auto
qed

text \<open>
  C9.  Editing: whatever keys are pressed before Enter (typing, backspace, delete, the
  arrows, the word jumps), the line returned is the one the same keys produce on a text with
  a cursor that holds at most \<open>cap - 1\<close> characters, and it is added to the history.
\<close>

theorem line_read_edits:
  assumes "out \<noteq> []" and "list_all key_ok ks" and "hist_ok h"
    and "t = ztext (fold (zstep (length out - 1)) ks ([], []))"
  shows "\<exists>s. line_read env p out h (concat (map encode_key ks) @ NL # rest) = Some (int (length t), s, rest) \<and>
    cstr (lbuf s) = t \<and> history_add t h = Some (lhist s)"
  using assms by (rule read_keys)

theorem line_read_edits_witness:
  "\<exists>s. line_read no_files None ''xxxxxx'' hist_init
      (concat (map encode_key [Type CHR ''l'', Type CHR ''x'', Left, Delete, Type CHR ''s'']) @ NL # []) =
      Some (int (length ''ls''), s, []) \<and>
    cstr (lbuf s) = ''ls'' \<and> history_add ''ls'' hist_init = Some (lhist s)"
  by (rule line_read_edits)
     (simp_all add: hist_init_ok key_ok_def c_isprint_def zleft_def ztext_def)

lemma typed_text:
  assumes "length l + length t \<le> mx"
  shows "fold (zstep mx) (map Type t) (l, []) = (rev t @ l, [])"
  using assms by (induction t arbitrary: l) auto

text \<open>
  A line typed and entered is offered again by the up key in the next call: pressing up
  and Enter returns the same line.
\<close>

theorem typed_line_recalled:
  assumes "t \<noteq> []" and "length t < length out" and "list_all c_isprint t" and "hist_ok h"
  shows "\<exists>v s s'. line_read env p out h (t @ NL # rest) = Some (v, s, rest) \<and>
    line_read env p out (lhist s) (ESC # ''[A'' @ NL # rest') = Some (v, s', rest') \<and> cstr (lbuf s') = t"
proof -
  have ne: "out \<noteq> []" using assms(2) by auto
  have ks: "list_all key_ok (map Type t)" "concat (map encode_key (map Type t)) = t"
    using assms(3) by (induction t) (auto simp: key_ok_def)
  have "t = ztext (fold (zstep (length out - 1)) (map Type t) ([], []))"
    using typed_text [of "[]" t "length out - 1"] assms(2) by (simp add: ztext_def)
  from read_keys [OF ne ks(1) assms(4) this, of env p rest] obtain s where
    s: "line_read env p out h (t @ NL # rest) = Some (int (length t), s, rest)" "history_add t h = Some (lhist s)"
    using ks(2) by auto
  from history_add_effect [OF assms(4,1)] s(2) have
    h: "hist_ok (lhist s)" "hcur (lhist s) = hhead (lhist s)" "0 < hlen (lhist s)" "hist_lines (lhist s) ! 0 = t"
    by auto
  let ?h = "(lhist s)\<lparr>hcur := slot_of (lhist s) 0\<rparr>"
  have up: "hist_up (lhist s) = Some (Some t, ?h)"
    using hist_up_cases [OF h(1) cursor_at_head] hist_ok_head [OF h(1)] h(2-4) by simp
  from line_read_start [OF ne] obtain s1 where
    s1: "line_read env p out (lhist s) (ESC # ''[A'' @ NL # rest') = line_loop env p (ESC # ''[A'' @ NL # rest') s1"
      "shown (length out) s1 ([], [])" "lhist s1 = lhist s"
    by blast
  then have len: "length (lbuf s1) = length out" by (auto elim: shownE)
  let ?s = "s1\<lparr>lhist := ?h, lbuf := t @ [NUL] @ drop (Suc (length t)) (lbuf s1), llen := length t, lpos := length t\<rparr>"
  have "shown (length out) ?s (rev t, [])"
    using assms(2) len by (intro shownI [where junk = "NUL # drop (Suc (length t)) (lbuf s1)"]) auto
  from redraw_shown [OF this, of p] obtain s2 where
    s2: "redraw p ?s = Some s2" "shown (length out) s2 (rev t, [])" "lhist s2 = ?h" by auto
  have "line_loop env p (ESC # ''[A'' @ NL # rest') s1 = line_loop env p (NL # rest') s2"
    using up s1(3) s2(1) assms(2) len
    by (simp add: line_key_def read_escape_def getchar_def escape_key_def key_recall_def snprintf_fits)
  moreover have "NUL \<notin> set (ztext (rev t, []))"
    using assms(3) NUL_not_print by (auto simp: ztext_def list_all_iff simp del: NUL_not_print)
  moreover obtain h' where "history_add (ztext (rev t, [])) ?h = Some h'"
    using history_add_effect [OF hist_ok_cursor [OF h(1)], of "slot_of (lhist s) 0" t] assms(1) by (auto simp: ztext_def)
  ultimately show ?thesis
    using enter_key [OF s2(2), of h' env p rest'] s(1) s1(1) s2(3) by (auto simp: ztext_def)
qed

theorem typed_line_recalled_witness:
  "\<exists>v s s'. line_read no_files None ''xxxxxx'' hist_init (''pwd'' @ NL # []) = Some (v, s, []) \<and>
    line_read no_files None ''xxxxxx'' (lhist s) (ESC # ''[A'' @ NL # []) = Some (v, s', []) \<and> cstr (lbuf s') = ''pwd''"
  by (rule typed_line_recalled) (simp_all add: hist_init_ok c_isprint_def)

end
