(* ===== verification/Completion.thy ===== *)
theory Completion
  imports Line_Editor
begin

text \<open>
  What the tab key offers and inserts: the matches of \<open>tab_complete\<close> are the sorted set of
  the candidates found, all of them extend the word before the cursor, and a single match is
  inserted at the cursor.
\<close>

section \<open>Sorting and duplicates\<close>

lemma drop_duplicates_fold:
  "fold (\<lambda>x us. if x \<noteq> last us then us @ [x] else us) xs (us @ [m]) = us @ remdups_adj (m # xs)"
proof (induction xs arbitrary: us m)
  case (Cons x xs)
  then show ?case using Cons [of us m] Cons [of "us @ [m]" x] by simp
qed simp

lemma drop_duplicates_eq: "drop_duplicates ms = remdups_adj ms"
  by (cases ms) (simp_all add: drop_duplicates_def drop_duplicates_fold [where us = "[]", simplified])

lemma sorted_remdups_adj_distinct: "sorted ms \<Longrightarrow> distinct (remdups_adj ms)"
proof (induction ms rule: remdups_adj.induct)
  case (3 x y xs)
  show ?case
  proof (cases "x = y")
    case False
    with "3.prems" have "\<forall>z \<in> set (y # xs). x < z" by (auto simp: less_le)
    then show ?thesis using "3.IH"(2) False "3.prems" by auto
  qed (use 3 in simp)
qed simp_all

section \<open>Candidates\<close>

lemma collect_all:
  assumes "\<And>ms e m. use ms e = Some m \<Longrightarrow> P m"
  shows "list_all P ms \<Longrightarrow> list_all P (collect use es ms)"
proof (induction es arbitrary: ms)
  case (Cons e es)
  then show ?case using assms by (cases "use ms e") simp_all
qed simp

lemma collect_mono: "set ms \<subseteq> set (collect use es ms)"
proof (induction es arbitrary: ms)
  case (Cons e es)
  show ?case using Cons [of ms] Cons [of "ms @ [the (use ms e)]"] by (cases "use ms e") auto
qed simp

lemma collect_limit: "length ms \<le> MAX_MATCHES \<Longrightarrow> length (collect use es ms) \<le> MAX_MATCHES"
  by (induction es arbitrary: ms) (auto split: option.split)

lemma collect_complete:
  assumes "e \<in> set es" and "\<And>ms. use ms e = Some m" and "length (collect use es ms) < MAX_MATCHES"
  shows "m \<in> set (collect use es ms)"
  using assms(1,3)
proof (induction es arbitrary: ms)
  case (Cons x es)
  then have room: "length ms < MAX_MATCHES" by (auto split: if_splits)
  show ?case
  proof (cases "x = e")
    case True
    then show ?thesis using assms(2) [of ms] room collect_mono [of "ms @ [m]" use es] by auto
  next
    case False
    then show ?thesis using Cons room by auto
  qed
qed simp

lemma prefix_match_row: "prefix token e \<Longrightarrow> length token < BUF_MAX \<Longrightarrow> prefix token (match_row e)"
  by (auto simp: prefix_def match_row_def BUF_MAX_def)

lemma row_extends:
  assumes "length token < BUF_MAX"
  shows "builtin_row token ms e = Some m \<Longrightarrow> prefix token m"
    and "path_row token ms e = Some m \<Longrightarrow> prefix token m"
    and "bin_row token ms e = Some m \<Longrightarrow> prefix token m"
  using assms by (auto simp: builtin_row_def path_row_def bin_row_def prefix_match_row split: if_splits)

lemma path_matches_all:
  assumes "\<And>ms e m. path_row token ms e = Some m \<Longrightarrow> P m"
  shows "list_all P ms \<Longrightarrow> list_all P (path_matches env token ds ms)"
proof (induction ds arbitrary: ms)
  case (Cons d ds)
  then show ?case using collect_all [where P = P, OF assms] by simp
qed simp

lemma dir_row_extends:
  "dir_row (Some dir) base ms e = Some m \<Longrightarrow> prefix (dir @ base) m"
  "dir_row None base ms e = Some m \<Longrightarrow> prefix base m"
  by (auto simp: dir_row_def prefix_def Let_def split: if_splits)

lemma find_matches_extend:
  assumes "length token < BUF_MAX"
  shows "list_all (prefix token) (find_matches env first token)"
proof (cases first)
  case True
  let ?b = "collect (builtin_row token) builtins []"
  let ?p = "case path_env env of None \<Rightarrow> ?b
    | Some path \<Rightarrow> path_matches env token (strtok_all (\<lambda>c. c = CHR '':'') path) ?b"
  have "list_all (prefix token) ?b"
    by (rule collect_all [OF row_extends(1) [OF assms]]) simp_all
  then have p: "list_all (prefix token) ?p"
    using path_matches_all [OF row_extends(2) [OF assms]] by (simp split: option.split)
  then have "list_all (prefix token) (collect (bin_row token) (dir_entries env (project_bin env)) ?p)"
    by (rule collect_all [OF row_extends(3) [OF assms], rotated]) simp_all
  with p True show ?thesis by (simp add: find_matches_def Let_def)
next
  case False
  have t: "take (BUF_MAX - 1) token = token" using assms by simp
  show ?thesis
  proof (cases "strrchr_split (CHR ''/'') token")
    case None
    have "list_all (prefix token) (collect (dir_row None token) (dir_entries env ''.'') [])"
      by (rule collect_all [OF dir_row_extends(2)]) simp_all
    with None False t show ?thesis by (simp add: find_matches_def add_dir_matches_def)
  next
    case (Some db)
    then obtain dir base where db: "strrchr_split (CHR ''/'') token = Some (dir, base)" "token = dir @ base"
      by (cases db) (auto dest: strrchr_split_Some)
    then have b: "take (BUF_MAX - 1) base = base" using assms by simp
    have "list_all (prefix token) (collect (dir_row (Some dir) base) (dir_entries env dir) [])"
      unfolding db(2) by (rule collect_all [OF dir_row_extends(1)]) simp_all
    with db(1) b False show ?thesis by (simp add: find_matches_def add_dir_matches_def)
  qed
qed

section \<open>Properties\<close>

text \<open>
  Sorting the candidates and dropping adjacent duplicates gives exactly the sorted list
  of the set of candidates: each once, in the order of \<open>strcmp\<close>.
\<close>

theorem matches_sorted_once:
  "unique_matches env first token = sorted_list_of_set (set (find_matches env first token))"
proof -
  let ?ms = "find_matches env first token"
  have "sorted (remdups_adj (sort ?ms))" "distinct (remdups_adj (sort ?ms))"
    by (simp_all add: sorted_remdups_adj sorted_remdups_adj_distinct)
  then show ?thesis
    by (simp add: unique_matches_def drop_duplicates_eq sorted_distinct_set_unique)
qed

text \<open>The word before the cursor, and whether white space precedes it.\<close>

definition word_before :: "zipper \<Rightarrow> string" where
  "word_before = (\<lambda>(l, r). rev (takeWhile (\<lambda>c. \<not> c_isspace c) l))"

definition first_word :: "zipper \<Rightarrow> bool" where
  "first_word = (\<lambda>(l, r). list_all (\<lambda>c. \<not> c_isspace c) l)"

lemma tab_word:
  assumes "shown cap s (l, r)" and "NUL \<notin> set l"
  shows "\<exists>start. skip_left (\<lambda>c. \<not> c_isspace c) (lbuf s) (lpos s) = Some start \<and> start \<le> lpos s \<and>
    lpos s - start = length (word_before (l, r)) \<and>
    cstr (take (lpos s - start) (drop start (lbuf s))) = word_before (l, r) \<and>
    (\<forall>c \<in> set (take start (lbuf s)). \<not> c_isspace c) = first_word (l, r)"
proof -
  let ?q = "\<lambda>c. \<not> c_isspace c"
  from assms(1) obtain junk where s: "lbuf s = rev l @ r @ junk" "lpos s = length l" by (auto elim: shownE)
  let ?a = "dropWhile ?q l" and ?w = "takeWhile ?q l"
  have l: "rev l = rev ?a @ rev ?w" by (simp flip: rev_append)
  have len: "length l = length ?a + length ?w"
    using arg_cong [OF takeWhile_dropWhile_id [of ?q l], of length] by (simp only: length_append add.commute)
  have b: "take (length ?a) (lbuf s) = rev ?a" "take (length ?w) (drop (length ?a) (lbuf s)) = rev ?w"
    by (simp_all add: s(1) l)
  have "NUL \<notin> set (rev ?w)" using assms(2) by (auto dest: set_takeWhileD)
  moreover have "(\<forall>c \<in> set ?a. ?q c) = list_all ?q l"
  proof (cases ?a)
    case Nil
    then have "list_all ?q l" by (simp add: dropWhile_eq_Nil_conv list_all_iff)
    then show ?thesis by (simp add: Nil)
  next
    case (Cons c cs)
    then have "c_isspace c" "c \<in> set l" by (metis dropWhile_eq_Cons_conv, metis list.set_intros(1) set_dropWhileD)
    then show ?thesis using Cons by (auto simp: list_all_iff)
  qed
  ultimately show ?thesis
    using skip_left_eq [of ?q l "r @ junk"] s len b by (simp add: word_before_def first_word_def)
qed

text \<open>
  C32.  When exactly one candidate \<open>m\<close> extends the word before the cursor and the rest of it
  fits, the tab key inserts that rest at the cursor, and a slash after a directory: the word
  becomes \<open>m\<close> and the text around it is unchanged.
\<close>

theorem tab_completes_unique:
  assumes "shown cap s (l, r)" and "NUL \<notin> set l"
    and "length (word_before (l, r)) < BUF_MAX"
    and "unique_matches env (first_word (l, r)) (word_before (l, r)) = [m]"
    and "ending = drop (length (word_before (l, r))) m @ (if is_dir env m then ''/'' else [])"
    and "length l + length r + length ending < cap"
  shows "\<exists>s'. tab_complete env p s = Some s' \<and> shown cap s' (rev ending @ l, r) \<and>
    word_before (l, r) @ drop (length (word_before (l, r))) m = m"
proof -
  let ?w = "word_before (l, r)"
  from tab_word [OF assms(1,2)] obtain start where
    st: "skip_left (\<lambda>c. \<not> c_isspace c) (lbuf s) (lpos s) = Some start" "start \<le> lpos s"
      "lpos s - start = length ?w" "cstr (take (lpos s - start) (drop start (lbuf s))) = ?w"
      "(\<forall>c \<in> set (take start (lbuf s)). \<not> c_isspace c) = first_word (l, r)"
    by blast
  from complete_single_sim [OF assms(1,5), of p] assms(6) obtain s1 where
    s1: "complete_single env p ?w m s = Some (True, s1)" "shown cap s1 (rev ending @ l, r)"
    by auto
  from redraw_shown [of cap "put (list_matches env [m]) s1" "(rev ending @ l, r)" p] s1(2) obtain s2 where
    s2: "redraw p (put (list_matches env [m]) s1) = Some s2" "shown cap s2 (rev ending @ l, r)"
    by auto
  have "tab_complete env p s = Some s2"
    unfolding tab_complete_def Let_def st(1)
    using st(2-5) assms(3,4) s1(1) s2(1) by simp
  moreover have "m \<in> set (find_matches env (first_word (l, r)) ?w)"
  proof -
    have "set (unique_matches env (first_word (l, r)) ?w) = set (find_matches env (first_word (l, r)) ?w)"
      by (simp add: unique_matches_def drop_duplicates_eq)
    then show ?thesis using assms(4) by auto
  qed
  then have "prefix ?w m" using find_matches_extend [OF assms(3)] by (auto simp: list_all_iff)
  then have "?w @ drop (length ?w) m = m" by (auto simp: prefix_def)
  ultimately show ?thesis using s2(2) by blast
qed

definition one_file :: completion_env where
  "one_file = \<lparr>path_env = None, project_bin = [], opendir = (\<lambda>d. if d = ''.'' then Some [''.'', ''notes.txt''] else None), is_dir = (\<lambda>_. False)\<rparr>"

theorem tab_completes_unique_witness:
  "\<exists>s'. tab_complete one_file None
      \<lparr>lbuf = ''ls no'' @ replicate 15 NUL, llen = 5, lpos = 5, lhist = hist_init, ltty = []\<rparr> = Some s' \<and>
    shown 20 s' (rev ''tes.txt'' @ ''on sl'', []) \<and>
    word_before (''on sl'', []) @ drop (length (word_before (''on sl'', []))) ''notes.txt'' = ''notes.txt''"
proof (rule tab_completes_unique)
  show "shown 20 \<lparr>lbuf = ''ls no'' @ replicate 15 NUL, llen = 5, lpos = 5, lhist = hist_init, ltty = []\<rparr> (''on sl'', [])"
    by (simp add: shown_def)
  have w: "word_before (''on sl'', []) = ''no''" "\<not> first_word (''on sl'', [])"
    by (simp_all add: word_before_def first_word_def c_isspace_def)
  then show "length (word_before (''on sl'', [])) < BUF_MAX" by (simp add: BUF_MAX_def)
  show "unique_matches one_file (first_word (''on sl'', [])) (word_before (''on sl'', [])) = [''notes.txt'']"
    using w by (simp add: unique_matches_def find_matches_def add_dir_matches_def strrchr_split_def dir_entries_def
        one_file_def MAX_MATCHES_def BUF_MAX_def dir_row_def hidden_def drop_duplicates_def)
  show "''tes.txt'' = drop (length (word_before (''on sl'', []))) ''notes.txt'' @ (if is_dir one_file ''notes.txt'' then ''/'' else [])"
    using w by (simp add: one_file_def)
qed simp_all

end
