(* ===== verification/Shell.thy ===== *)
theory Shell
  imports Line_Editor
begin

text \<open>
  The shell's main loop (\<open>src/tetrish/shell.c\<close>): splitting a line into arguments, expanding
  an alias, the start-up file, and the loop that reads a line and runs a built-in or a child.
  Starting a child is recorded with its arguments; what the child does is outside the model.
  Each call of \<open>line_read\<close> has its own input, the bytes that arrive while it runs.
\<close>

section \<open>Arguments\<close>

definition MAX_ARGS :: nat where "MAX_ARGS = 128"

definition is_blank :: "char \<Rightarrow> bool" where
  "is_blank c = (c = CHR '' '' \<or> c = TAB)"

text \<open>The arguments; the null that ends them in \<open>argv\<close> is the end of the list.\<close>

definition tokenise :: "string \<Rightarrow> nat \<Rightarrow> string list" where
  "tokenise line cap = take (cap - 1) (strtok_all is_blank line)"

record session =
  shell_st :: shell
  hist_st :: history
  linebuff :: string
  children :: "string list list"
  live_args :: nat  \<comment> \<open>strings of expanded arguments that were not freed\<close>

text \<open>
  The result of \<open>expand_alias\<close>: the arguments and the flag \<open>argv_allocated\<close>; no arguments
  when the expansion is too long.
\<close>

definition expand_alias :: "string list \<Rightarrow> nat \<Rightarrow> shell \<Rightarrow> (string list \<times> bool) \<times> shell" where
  "expand_alias argv cap s =
     (case alias_lookup (hd argv) (alist s) of
        None \<Rightarrow> ((argv, False), s)
      | Some ex \<Rightarrow>
          let v = tokenise (take (IN_BUFFER - 1) ex) MAX_ARGS in
          if length v + length argv - 1 \<ge> cap \<or> length v \<ge> MAX_ARGS - 1
          then (([], False), sh_fputs_err (''alias expansion too long'' @ [NL]) s)
          else ((v @ tl argv, True), s))"

section \<open>Prompt and path\<close>

definition type_prompt :: "system \<Rightarrow> shell \<Rightarrow> nat \<Rightarrow> string" where
  "type_prompt sys s cap =
     (let dst = (case getcwd sys cap s of Some cwd \<Rightarrow> cwd | None \<Rightarrow> take (cap - 1) ''speedrunshell'')
      in dst @ take (cap - length dst - 1) ''> '')"

definition add_bin_topath :: "string \<Rightarrow> shell \<Rightarrow> shell" where
  "add_bin_topath bin s =
     (let old = (case getenv ''PATH'' (environ s) of None \<Rightarrow> [] | Some p \<Rightarrow> p)
      in s\<lparr>environ := snd (setenv ''PATH'' (take (PATH_MAX * 2 - 1) (bin @ '':'' @ old)) (environ s))\<rparr>)"

section \<open>The start-up file\<close>

text \<open>The lines \<open>getline\<close> delivers, without their newline.\<close>

lemma tl_shorter: "length d \<le> length t \<Longrightarrow> t \<noteq> [] \<Longrightarrow> length (tl d) < length t"
  by (cases d; cases t) auto

function getlines :: "string \<Rightarrow> string list" where
  "getlines t =
     (if t = [] then [] else takeWhile (\<lambda>c. c \<noteq> NL) t # getlines (tl (dropWhile (\<lambda>c. c \<noteq> NL) t)))"
  by pat_completeness auto
termination
proof (relation "measure length")
  fix t :: string
  assume "t \<noteq> []"
  with tl_shorter [OF length_dropWhile_le] show "(tl (dropWhile (\<lambda>c. c \<noteq> NL) t), t) \<in> measure length"
    unfolding in_measure .
qed simp

declare getlines.simps [simp del]

definition rc_command :: "string \<Rightarrow> string list" where
  "rc_command line =
     (let t = dropWhile is_blank (cstr line)
      in if t = [] \<or> hd t = CHR ''#'' then [] else tokenise t MAX_ARGS)"

text \<open>
  \<open>exit\<close> ends the program; otherwise the flag says that the file goes on.
\<close>

fun run_rc :: "system \<Rightarrow> string list \<Rightarrow> session \<Rightarrow> (bool \<times> session) option" where
  "run_rc sys [] s = Some (True, s)"
| "run_rc sys (line # lines) s =
     (let argv = rc_command line in
      if argv = [] then run_rc sys lines s
      else do {
        (r, sh) \<leftarrow> bi_call sys argv (shell_st s);
        let s = s\<lparr>shell_st := sh\<rparr>;
        case r of
          Exit _ \<Rightarrow> Some (False, s)
        | Ret v \<Rightarrow>
            if v \<ge> 0 then run_rc sys lines s
            else run_rc sys lines (s\<lparr>children := children s @ [argv]\<rparr>)
      })"

text \<open>The file is the one of the repository, else the one of the home directory.\<close>

definition rc_path :: "string \<Rightarrow> string" where
  "rc_path dir = dir @ ''/.tetrishrc''"

definition empty_rc :: string where
  "empty_rc = ''# tetrish start-up file'' @ [NL] @
     ''# Add one command per line; blank lines and # comments are ignored.'' @ [NL, NL]"

definition source_rc :: "system \<Rightarrow> string \<Rightarrow> (string \<rightharpoonup> string) \<Rightarrow> session \<Rightarrow> (bool \<times> (string \<rightharpoonup> string) \<times> session) option" where
  "source_rc sys root fs s =
     (if length (rc_path root) \<ge> PATH_MAX
      then Some (True, fs, s\<lparr>shell_st := sh_fputs_err (''rc path too long'' @ [NL]) (shell_st s)\<rparr>)
      else
        let home = (case getenv ''HOME'' (environ (shell_st s)) of
                      Some h \<Rightarrow> if length (rc_path h) \<ge> PATH_MAX then None else Some (rc_path h)
                    | None \<Rightarrow> None)
        in case fs (rc_path root) of
             Some t \<Rightarrow> do { (go, s) \<leftarrow> run_rc sys (getlines t) s; Some (go, fs, s) }
           | None \<Rightarrow>
               (case Option.bind home fs of
                  Some t \<Rightarrow> do { (go, s) \<leftarrow> run_rc sys (getlines t) s; Some (go, fs, s) }
                | None \<Rightarrow> Some (True, fs(rc_path root \<mapsto> empty_rc), s)))"

section \<open>The main loop\<close>

text \<open>
  One command line.  The strings of an expansion are freed after a child has run, but not
  after a built-in.
\<close>

definition run_line :: "system \<Rightarrow> string \<Rightarrow> session \<Rightarrow> (bool \<times> session) option" where
  "run_line sys line s =
     (let argv = tokenise line MAX_ARGS in
      if argv = [] then Some (True, s)
      else
        let ((argv, allocated), sh) = expand_alias argv MAX_ARGS (shell_st s);
            s = s\<lparr>shell_st := sh, live_args := live_args s + (if allocated then length argv else 0)\<rparr>
        in if argv = [] then Some (True, s)
           else do {
             (r, sh) \<leftarrow> bi_call sys argv (shell_st s);
             let s = s\<lparr>shell_st := sh\<rparr>;
             case r of
               Exit _ \<Rightarrow> Some (False, s)
             | Ret v \<Rightarrow>
                 if v \<ge> 0 then Some (True, s)
                 else Some (True, s\<lparr>children := children s @ [argv],
                   live_args := live_args s - (if allocated then length argv else 0)\<rparr>)
           })"

definition session_env :: "completion_env \<Rightarrow> session \<Rightarrow> completion_env" where
  "session_env env s = env\<lparr>path_env := getenv ''PATH'' (environ (shell_st s))\<rparr>"

text \<open>
  Each round has the answers of the system while it runs and the bytes typed.  The flag is
  \<open>False\<close> when the loop was left by end of file, with the last message of the program, or \<open>exit\<close>.
\<close>

fun shell_loop :: "(system \<times> completion_env \<times> string) list \<Rightarrow> session \<Rightarrow> (bool \<times> session) option" where
  "shell_loop [] s = Some (True, s)"
| "shell_loop ((sys, env, inp) # rounds) s = do {
     (v, ed, _) \<leftarrow> line_read (session_env env s) (Some (type_prompt sys (shell_st s) IN_BUFFER))
       (linebuff s) (hist_st s) inp;
     let s = s\<lparr>hist_st := lhist ed, linebuff := lbuf ed, shell_st := sh_puts (ltty ed) (shell_st s)\<rparr>;
     if v = - 1 then Some (False, s\<lparr>shell_st := sh_puts (''Ending tetrish'' @ [NL]) (shell_st s)\<rparr>)
     else do {
       (go, s) \<leftarrow> run_line sys (cstr (linebuff s)) s;
       if go then shell_loop rounds s else Some (False, s)
     }
   }"

end
