(* ===== verification/Builtin_Laws.thy ===== *)
theory Builtin_Laws
  imports Builtin
begin

text \<open>
  The environment and the aliases of the shell are maps from names to values: the laws of
  such a store as a locale, its interpretations on the environment and on the list of
  aliases, and the effect of the commands that change them.
\<close>

section \<open>Stores\<close>

datatype ('k, 'v) store_op = Put 'k 'v | Del 'k

fun map_op :: "('k, 'v) store_op \<Rightarrow> ('k \<rightharpoonup> 'v) \<Rightarrow> ('k \<rightharpoonup> 'v)" where
  "map_op (Put k v) m = m(k \<mapsto> v)"
| "map_op (Del k) m = m(k := None)"

fun op_key :: "('k, 'v) store_op \<Rightarrow> 'k" where
  "op_key (Put k v) = k"
| "op_key (Del k) = k"

locale keyed_store =
  fixes get :: "'k \<Rightarrow> 's \<Rightarrow> 'v option"
    and put :: "'k \<Rightarrow> 'v \<Rightarrow> 's \<Rightarrow> 's"
    and del :: "'k \<Rightarrow> 's \<Rightarrow> 's"
    and inv :: "'s \<Rightarrow> bool"
    and key_ok :: "'k \<Rightarrow> bool"
  assumes get_put: "inv s \<Longrightarrow> key_ok j \<Longrightarrow> key_ok k \<Longrightarrow> get j (put k v s) = (if j = k then Some v else get j s)"
    and get_del: "inv s \<Longrightarrow> key_ok j \<Longrightarrow> key_ok k \<Longrightarrow> get j (del k s) = (if j = k then None else get j s)"
    and inv_put: "inv s \<Longrightarrow> inv (put k v s)"
    and inv_del: "inv s \<Longrightarrow> inv (del k s)"
begin

fun run_op :: "('k, 'v) store_op \<Rightarrow> 's \<Rightarrow> 's" where
  "run_op (Put k v) s = put k v s"
| "run_op (Del k) s = del k s"

definition models :: "'s \<Rightarrow> ('k \<rightharpoonup> 'v) \<Rightarrow> bool" where
  "models s m = (inv s \<and> (\<forall>k. key_ok k \<longrightarrow> get k s = m k))"

lemma models_run_op: "models s m \<Longrightarrow> key_ok (op_key x) \<Longrightarrow> models (run_op x s) (map_op x m)"
  by (cases x) (auto simp: models_def get_put get_del inv_put inv_del)

end

section \<open>The environment\<close>

definition name_ok :: "string \<Rightarrow> bool" where
  "name_ok n = (n \<noteq> [] \<and> CHR ''='' \<notin> set n)"

lemma entry_of_name:
  assumes "name_ok j" and "name_ok k"
  shows "entry_of j (k @ ''='' @ v) \<longleftrightarrow> j = k"
proof
  assume "entry_of j (k @ ''='' @ v)"
  then obtain w where "k @ CHR ''='' # v = j @ CHR ''='' # w" by (auto simp: entry_of_def prefix_def)
  then have "strchr_split (CHR ''='') (k @ CHR ''='' # v) = strchr_split (CHR ''='') (j @ CHR ''='' # w)" by simp
  then show "j = k" using assms by (simp add: strchr_split_exact name_ok_def)
qed (simp add: entry_of_def)

lemma entry_of_inj:
  assumes "name_ok j" and "name_ok k" and "entry_of j e" and "entry_of k e"
  shows "j = k"
proof -
  obtain w where "e = k @ ''='' @ w" using assms(4) by (auto simp: entry_of_def prefix_def)
  then show ?thesis using assms(1-3) entry_of_name by blast
qed

lemma getenv_put:
  assumes "name_ok j" and "name_ok k"
  shows "getenv j (env_put k v es) = (if j = k then Some v else getenv j es)"
proof (induction es)
  case Nil
  then show ?case using entry_of_name [OF assms] by auto
next
  case (Cons e es)
  then show ?case using entry_of_name [OF assms] entry_of_inj [OF assms, of e] by auto
qed

lemma getenv_del:
  assumes "name_ok j" and "name_ok k"
  shows "getenv j (filter (\<lambda>e. \<not> entry_of k e) es) = (if j = k then None else getenv j es)"
proof (cases "j = k")
  case True
  then show ?thesis by (induction es) auto
next
  case False
  then have "\<not> (entry_of j e \<and> entry_of k e)" for e using entry_of_inj [OF assms] by blast
  with False show ?thesis by (induction es) auto
qed

interpretation env_store: keyed_store getenv env_put "\<lambda>n es. filter (\<lambda>e. \<not> entry_of n e) es" "\<lambda>_. True" name_ok
  by unfold_locales (simp_all add: getenv_put getenv_del)

lemma good_name_ok: "\<not> bad_name n \<Longrightarrow> name_ok n"
  by (auto simp: bad_name_def name_ok_def)

lemma good_name_env: "\<not> bad_name n \<Longrightarrow> \<not> env_bad_name n"
  by (auto simp: bad_name_def env_bad_name_def)

section \<open>The aliases\<close>

definition names_distinct :: "alias_rec list \<Rightarrow> bool" where
  "names_distinct as = distinct (map a_name as)"

lemma alias_find_None: "alias_find n as = None \<longleftrightarrow> n \<notin> set (map a_name as)"
  by (auto simp: alias_find_def find_None_iff)

lemma alias_lookup_Cons: "alias_lookup n (a # as) = (if a_name a = n then Some (a_value a) else alias_lookup n as)"
  by (simp add: alias_lookup_def alias_find_def)

lemma alias_lookup_Nil [simp]: "alias_lookup n [] = None"
  by (simp add: alias_lookup_def alias_find_def)

lemma alias_lookup_None: "alias_lookup n as = None \<longleftrightarrow> n \<notin> set (map a_name as)"
  by (simp add: alias_lookup_def alias_find_None)

lemma alias_replace_names [simp]: "map a_name (alias_replace n v as) = map a_name as"
  by (induction as) auto

lemma alias_lookup_replace:
  "n \<in> set (map a_name as) \<Longrightarrow> alias_lookup j (alias_replace n v as) = (if j = n then Some v else alias_lookup j as)"
  by (induction as) (auto simp: alias_lookup_Cons)

lemma alias_lookup_set: "alias_lookup j (alias_set n v as) = (if j = n then Some v else alias_lookup j as)"
proof (cases "alias_find n as")
  case None
  then show ?thesis by (auto simp: alias_set_def alias_lookup_Cons)
next
  case (Some a)
  then have "n \<in> set (map a_name as)" using alias_find_None [of n as] by auto
  then show ?thesis using Some by (simp add: alias_set_def alias_lookup_replace)
qed

lemma alias_remove_names: "set (map a_name (alias_remove n as)) \<subseteq> set (map a_name as)"
  by (induction as) auto

lemma names_distinct_remove: "names_distinct as \<Longrightarrow> names_distinct (alias_remove n as)"
proof (induction as)
  case (Cons a as)
  then show ?case using alias_remove_names [of n as] by (auto simp: names_distinct_def)
qed simp

lemma alias_lookup_remove:
  "names_distinct as \<Longrightarrow> alias_lookup j (alias_remove n as) = (if j = n then None else alias_lookup j as)"
proof (induction as)
  case (Cons a as)
  have "alias_lookup n as = None" if "a_name a = n"
    using Cons.prems that by (auto simp: names_distinct_def alias_lookup_None)
  then show ?case using Cons by (auto simp: alias_lookup_Cons names_distinct_def)
qed simp

lemma names_distinct_set: "names_distinct as \<Longrightarrow> names_distinct (alias_set n v as)"
  using alias_find_None [of n as] by (auto simp: names_distinct_def alias_set_def split: option.split)

interpretation alias_store: keyed_store alias_lookup alias_set alias_remove names_distinct "\<lambda>_. True"
  by unfold_locales (simp_all add: alias_lookup_set alias_lookup_remove names_distinct_set names_distinct_remove)

section \<open>The commands that change them\<close>

text \<open>The form of a command that performs an operation of the store.\<close>

fun alias_command :: "(string, string) store_op \<Rightarrow> string list" where
  "alias_command (Put n v) = [''alias'', n @ ''='' @ v]"
| "alias_command (Del n) = [''unalias'', n]"

definition unquoted :: "string \<Rightarrow> bool" where
  "unquoted v = (length v < IN_BUFFER \<and> (v = [] \<or> hd v \<noteq> QUOTE \<and> hd v \<noteq> DQUOTE))"

fun alias_op_ok :: "(string, string) store_op \<Rightarrow> bool" where
  "alias_op_ok (Put n v) = (CHR ''='' \<notin> set n \<and> unquoted v)"
| "alias_op_ok (Del n) = True"

definition call_state :: "system \<Rightarrow> string list \<Rightarrow> shell \<Rightarrow> shell option" where
  "call_state sys argv s = map_option snd (bi_call sys argv s)"

lemma bi_call_alias: "bi_call sys (''alias'' # as) s = bi_alias (''alias'' # as) s"
  by (simp add: bi_call_def lookup_bifn_def bi_run_def)

lemma bi_call_unalias: "bi_call sys (''unalias'' # as) s = Some (bi_unalias (''unalias'' # as) s)"
  by (simp add: bi_call_def lookup_bifn_def bi_run_def)

lemma bi_call_setenv: "bi_call sys (''setenv'' # as) s = Some (bi_setenv sys (''setenv'' # as) s)"
  by (simp add: bi_call_def lookup_bifn_def bi_run_def)

lemma sh_fields [simp]:
  "environ (sh_puts t s) = environ s" "alist (sh_puts t s) = alist s"
  "environ (sh_fputs_err t s) = environ s" "alist (sh_fputs_err t s) = alist s"
  "sh_cwd (sh_puts t s) = sh_cwd s" "sh_cwd (sh_fputs_err t s) = sh_cwd s"
  by (simp_all add: sh_puts_def sh_fputs_err_def)

lemma alias_args_define:
  assumes "strchr_split (CHR ''='') a = Some (n, v)" and "rhs = take (IN_BUFFER - 1) v"
  shows "alias_args (a # as) s =
    (if rhs \<noteq> [] \<and> (hd rhs = QUOTE \<or> hd rhs = DQUOTE)
     then if tl rhs \<noteq> [] \<and> last (tl rhs) = hd rhs
       then alias_args as (s\<lparr>alist := alias_set n (butlast (tl rhs)) (alist s)\<rparr>)
       else case close_quote (hd rhs) (tl rhs) as of
           None \<Rightarrow> None
         | Some Too_long \<Rightarrow> Some (Ret 1, sh_fputs_err (''alias: alias too long'' @ [NL]) s)
         | Some Unmatched \<Rightarrow> Some (Ret 1, sh_fputs_err (''alias: unmatched quote'' @ [NL]) s)
         | Some (Closed v rest) \<Rightarrow> alias_args rest (s\<lparr>alist := alias_set n v (alist s)\<rparr>)
     else alias_args as (s\<lparr>alist := alias_set n rhs (alist s)\<rparr>))"
  by (simp only: alias_args.simps assms option.case prod.case Let_def)

lemma alias_args_plain:
  assumes "CHR ''='' \<notin> set n" and "unquoted v"
  shows "alias_args ((n @ ''='' @ v) # as) s = alias_args as (s\<lparr>alist := alias_set n v (alist s)\<rparr>)"
proof -
  have "take (IN_BUFFER - 1) v = v" using assms(2) by (auto simp: unquoted_def)
  then show ?thesis
    using assms by (cases v) (simp_all add: strchr_split_exact unquoted_def Let_def)
qed

lemma alias_remove_absent: "alias_find n as = None \<Longrightarrow> alias_remove n as = as"
  by (induction as) (auto simp: alias_find_def split: if_splits)

interpretation alias_cmds: simulation "\<lambda>x. call_state sys (alias_command x)" map_op
  "\<lambda>s m. alias_store.models (alist s) m" alias_op_ok for sys
proof
  fix s :: shell and m and x :: "(string, string) store_op"
  assume m: "alias_store.models (alist s) m" and x: "alias_op_ok x"
  have "\<exists>s'. call_state sys (alias_command x) s = Some s' \<and> alist s' = alias_store.run_op x (alist s)"
  proof (cases x)
    case (Put n v)
    then show ?thesis
      using x alias_args_plain [of n v "[]" s] by (simp add: call_state_def bi_call_alias bi_alias_def)
  next
    case (Del n)
    then show ?thesis
      by (auto simp: call_state_def bi_call_unalias bi_unalias_def alias_remove_absent split: option.split)
  qed
  then show "\<exists>s'. call_state sys (alias_command x) s = Some s' \<and> alias_store.models (alist s') (map_op x m)"
    using alias_store.models_run_op [OF m, of x] by auto
qed

section \<open>Properties\<close>

text \<open>
  C25.  Aliases are a map: any sequence of definitions \<open>alias name=value\<close> and removals
  \<open>unalias name\<close>, run through the dispatcher, leaves lookups as the same updates of a map
  from names to values, and never reaches undefined behaviour.
\<close>

theorem alias_commands_refine_map:
  assumes "names_distinct (alist s)" and "list_all alias_op_ok ops"
  shows "\<exists>s'. alias_cmds.steps sys ops s = Some s' \<and>
    (\<forall>n. alias_lookup n (alist s') = fold map_op ops (\<lambda>n. alias_lookup n (alist s)) n)"
proof -
  have "alias_store.models (alist s) (\<lambda>n. alias_lookup n (alist s))"
    using assms(1) by (simp add: alias_store.models_def)
  from alias_cmds.steps_sim [OF this assms(2), of sys] show ?thesis
    by (auto simp: alias_store.models_def)
qed

definition no_system :: system where
  "no_system = \<lparr>sys_getcwd = (\<lambda>_. True), sys_chdir = (\<lambda>_ _. None), sys_bin = (\<lambda>_. None), sys_exec = (\<lambda>_ _. False), sys_errmsg = ''failed''\<rparr>"

definition empty_shell :: shell where
  "empty_shell = \<lparr>environ = [], sh_cwd = ''/'', alist = [], sh_out = [], sh_err = []\<rparr>"

theorem alias_commands_refine_map_witness:
  "\<exists>s'. alias_cmds.steps no_system [Put ''ll'' ''ls'', Put ''x'' ''pwd'', Del ''ll''] empty_shell = Some s' \<and>
    (\<forall>n. alias_lookup n (alist s') =
      fold map_op [Put ''ll'' ''ls'', Put ''x'' ''pwd'', Del ''ll''] (\<lambda>n. alias_lookup n (alist empty_shell)) n)"
  by (rule alias_commands_refine_map)
     (simp_all add: names_distinct_def empty_shell_def unquoted_def IN_BUFFER_def)

text \<open>
  \<open>setenv NAME=VALUE\<close> succeeds for a name of letters, digits and underscores; afterwards
  the variable has the value without its surrounding quotes, and every other variable is as
  before.
\<close>

theorem setenv_then_getenv:
  assumes "\<not> bad_name n" and "name_ok k"
  shows "\<exists>s'. bi_call sys [''setenv'', n @ ''='' @ v] s = Some (Ret 0, s') \<and>
    getenv k (environ s') = (if k = n then Some (strip_quotes v) else getenv k (environ s))"
proof -
  have "CHR ''='' \<notin> set n" using assms(1) by (auto simp: bad_name_def)
  then have "strchr_split (CHR ''='') (n @ ''='' @ v) = Some (n, v)"
    using strchr_split_exact [of "CHR ''=''" n v] by simp
  then have "\<exists>s'. bi_call sys [''setenv'', n @ ''='' @ v] s = Some (Ret 0, s') \<and>
      environ s' = env_put n (strip_quotes v) (environ s)"
    using assms(1) good_name_env [OF assms(1)]
    by (simp add: bi_call_setenv bi_setenv_def setenv_def Let_def)
  then show ?thesis using getenv_put [OF assms(2) good_name_ok [OF assms(1)]] by auto
qed

theorem setenv_then_getenv_witness:
  "\<exists>s'. bi_call no_system [''setenv'', ''EDITOR'' @ ''='' @ ''vi''] empty_shell = Some (Ret 0, s') \<and>
    getenv ''EDITOR'' (environ s') = (if ''EDITOR'' = ''EDITOR'' then Some (strip_quotes ''vi'') else getenv ''EDITOR'' (environ empty_shell))"
  by (rule setenv_then_getenv) (simp_all add: bad_name_def name_ok_def c_isalnum_def)

text \<open>
  The form \<open>setenv NAME VALUE\<close> that the command's own usage message gives is refused:
  an argument without an equals sign ends the command with an error and changes no variable.
\<close>

theorem setenv_usage_form_refused:
  assumes "CHR ''='' \<notin> set n"
  shows "\<exists>s'. bi_call sys [''setenv'', n, v] s = Some (Ret 1, s') \<and> environ s' = environ s"
  using assms by (simp add: bi_call_setenv bi_setenv_def strchr_split_def)

theorem setenv_usage_form_refused_witness:
  "\<exists>s'. bi_call no_system [''setenv'', ''EDITOR'', ''vi''] empty_shell = Some (Ret 1, s') \<and> environ s' = environ empty_shell"
  by (rule setenv_usage_form_refused) simp

lemma find_bad_none: "find bad_name ns = None \<longleftrightarrow> list_all (\<lambda>n. \<not> bad_name n) ns"
  by (auto simp: find_None_iff list_all_iff)

lemma unsetenv_args_env:
  assumes "list_all (\<lambda>n. \<not> bad_name n) ns"
  shows "\<exists>s'. unsetenv_args sys ns s = (Ret 0, s') \<and>
    environ s' = filter (\<lambda>e. \<forall>n \<in> set ns. \<not> entry_of n e) (environ s)"
  using assms
proof (induction ns arbitrary: s)
  case (Cons n ns)
  then have "\<not> env_bad_name n" using good_name_env by simp
  then have "unsetenv_args sys (n # ns) s = unsetenv_args sys ns (s\<lparr>environ := filter (\<lambda>e. \<not> entry_of n e) (environ s)\<rparr>)"
    by (simp add: unsetenv_def)
  then show ?case
    using Cons.IH [of "s\<lparr>environ := filter (\<lambda>e. \<not> entry_of n e) (environ s)\<rparr>"] Cons.prems
    by (auto simp: conj_commute)
qed simp

lemma getenv_filter:
  assumes "name_ok k" and "\<And>n. n \<in> N \<Longrightarrow> name_ok n"
  shows "getenv k (filter (\<lambda>e. \<forall>n \<in> N. \<not> entry_of n e) es) = (if k \<in> N then None else getenv k es)"
proof (induction es)
  case (Cons e es)
  then show ?case using entry_of_inj [OF assms(1,2)] by auto
qed simp

text \<open>
  C33.  \<open>unsetenv\<close> is all or nothing over its names: when one of them is not a proper name no
  variable is removed, otherwise exactly the named variables are gone.
\<close>

theorem unsetenv_all_or_nothing:
  assumes "ns \<noteq> []" and "name_ok k"
  shows "\<exists>r s'. bi_call sys (''unsetenv'' # ns) s = Some (r, s') \<and>
    getenv k (environ s') = (if list_all (\<lambda>n. \<not> bad_name n) ns \<and> k \<in> set ns then None else getenv k (environ s))"
proof (cases "list_all (\<lambda>n. \<not> bad_name n) ns")
  case True
  with unsetenv_args_env [OF this, of sys s] find_bad_none [of ns] assms(1) obtain s' where
    s': "bi_call sys (''unsetenv'' # ns) s = Some (Ret 0, s')"
      "environ s' = filter (\<lambda>e. \<forall>n \<in> set ns. \<not> entry_of n e) (environ s)"
    by (cases ns) (auto simp: bi_call_def lookup_bifn_def bi_run_def bi_unsetenv_def)
  have "name_ok n" if "n \<in> set ns" for n using True that good_name_ok by (auto simp: list_all_iff)
  with s' show ?thesis using getenv_filter [OF assms(2), of "set ns" "environ s"] True by auto
next
  case False
  then obtain a where "find bad_name ns = Some a" using find_bad_none [of ns] by auto
  with False assms(1) show ?thesis
    by (cases ns) (auto simp: bi_call_def lookup_bifn_def bi_run_def bi_unsetenv_def)
qed

theorem unsetenv_all_or_nothing_witness:
  "\<exists>r s'. bi_call no_system (''unsetenv'' # [''A'', ''B-C'']) (empty_shell\<lparr>environ := [''A=1'']\<rparr>) = Some (r, s') \<and>
    getenv ''A'' (environ s') = (if list_all (\<lambda>n. \<not> bad_name n) [''A'', ''B-C''] \<and> ''A'' \<in> set [''A'', ''B-C''] then None
      else getenv ''A'' (environ (empty_shell\<lparr>environ := [''A=1'']\<rparr>)))"
  by (rule unsetenv_all_or_nothing) (simp_all add: name_ok_def)

text \<open>
  The three tables of built-ins agree: the names offered for completion are those the
  dispatcher knows, in the same order, and \<open>usage\<close> has a text for exactly these names.
\<close>

theorem builtin_tables_agree:
  "builtins = map fnname lookup_bifn \<and> (usage_text (cmd_lookup n) \<noteq> None \<longleftrightarrow> n \<in> set builtins)"
proof
  show "builtins = map fnname lookup_bifn" by (simp add: builtins_def lookup_bifn_def)
  have "usage_text c \<noteq> None \<longleftrightarrow> c \<noteq> UNKNOWN" for c by (cases c) simp_all
  moreover have "cmd_lookup n \<noteq> UNKNOWN \<longleftrightarrow> n \<in> set builtins"
    by (simp add: cmd_lookup_def builtins_def)
  ultimately show "usage_text (cmd_lookup n) \<noteq> None \<longleftrightarrow> n \<in> set builtins" by simp
qed

end
