(* ===== verification/Shell_Laws.thy ===== *)
theory Shell_Laws
  imports Shell Builtin_Laws
begin

text \<open>
  Properties of the main loop: no line makes the shell leave its arrays or read a missing
  argument, expanded arguments fit the argument vector, a quoted alias runs the words it was
  given, and what happens to the strings of an expansion.
\<close>

section \<open>Arguments\<close>

lemma tokenise_words: "a \<in> set (tokenise line cap) \<Longrightarrow> a \<noteq> []"
  by (auto simp: tokenise_def dest!: in_set_takeD strtok_all_sound)

lemma tokenise_length: "0 < cap \<Longrightarrow> length (tokenise line cap) < cap"
  by (auto simp: tokenise_def)

lemma tokenise_join:
  assumes "\<And>w. w \<in> set ws \<Longrightarrow> w \<noteq> [] \<and> list_all (\<lambda>c. \<not> is_blank c) w" and "length ws < cap"
  shows "tokenise (join (CHR '' '') ws) cap = ws"
proof -
  have "strtok_all is_blank (join (CHR '' '') ws) = ws"
    by (rule strtok_all_join) (use assms(1) in \<open>auto simp: list_all_iff is_blank_def\<close>)
  then show ?thesis using assms(2) by (simp add: tokenise_def)
qed

lemma expand_alias_cases:
  assumes "expand_alias argv cap s = ((argv', allocated), s')"
  obtains "argv' = argv" "\<not> allocated" "s' = s"
    | "argv' = []" "\<not> allocated" "s' = sh_fputs_err (''alias expansion too long'' @ [NL]) s"
    | v where "argv' = v @ tl argv" "allocated" "s' = s" "\<forall>a \<in> set v. a \<noteq> []" "length v + length argv - 1 < cap"
      "length v < MAX_ARGS - 1"
  using assms tokenise_words
  by (auto simp: expand_alias_def Let_def not_le split: option.splits if_splits)

text \<open>
  However an alias is defined, the arguments after expansion leave room for the null
  that ends them in an argument vector of the same size.
\<close>

theorem expanded_arguments_fit:
  assumes "argv = tokenise line MAX_ARGS"
  shows "length (fst (fst (expand_alias argv MAX_ARGS s))) < MAX_ARGS"
proof -
  obtain argv' al s' where e: "expand_alias argv MAX_ARGS s = ((argv', al), s')" by (metis prod.exhaust)
  from e show ?thesis
  proof (cases rule: expand_alias_cases)
    case 1
    then show ?thesis using e assms tokenise_length [of MAX_ARGS] by (simp add: MAX_ARGS_def)
  next
    case 2
    then show ?thesis using e by (simp add: MAX_ARGS_def)
  next
    case (3 v)
    then show ?thesis using e by (cases argv) (auto simp: MAX_ARGS_def)
  qed
qed

theorem expanded_arguments_fit_witness:
  "length (fst (fst (expand_alias (tokenise ''ll -a'' MAX_ARGS) MAX_ARGS
    (empty_shell\<lparr>alist := [\<lparr>a_name = ''ll'', a_value = ''ls -l''\<rparr>]\<rparr>)))) < MAX_ARGS"
  by (rule expanded_arguments_fit) (rule refl)

section \<open>Safety\<close>

lemma close_quote_defined:
  "list_all (\<lambda>b. b \<noteq> []) bs \<Longrightarrow>
   \<exists>x. close_quote q rhs bs = Some x \<and> (\<forall>v rest. x = Closed v rest \<longrightarrow> list_all (\<lambda>b. b \<noteq> []) rest)"
  by (induction q rhs bs rule: close_quote.induct) (auto simp: Let_def)

lemma alias_args_defined:
  "list_all (\<lambda>b. b \<noteq> []) as \<Longrightarrow> names_distinct (alist s) \<Longrightarrow>
   \<exists>v s'. alias_args as s = Some (Ret v, s') \<and> 0 \<le> v \<and> names_distinct (alist s')"
proof (induction as s rule: alias_args.induct)
  case (2 a as s)
  show ?case
  proof (cases "strchr_split (CHR ''='') a")
    case None
    then show ?thesis using 2 by (simp split: option.split)
  next
    case (Some nv)
    then obtain n v where nv: "strchr_split (CHR ''='') a = Some (n, v)" by (cases nv) auto
    define rhs where "rhs = take (IN_BUFFER - 1) v"
    note step = alias_args_define [OF nv rhs_def, of as s]
    obtain x where x: "close_quote (hd rhs) (tl rhs) as = Some x" "\<And>v rest. x = Closed v rest \<Longrightarrow> list_all (\<lambda>b. b \<noteq> []) rest"
      using close_quote_defined [of as "hd rhs" "tl rhs"] "2.prems" by auto
    have as: "list_all (\<lambda>b. b \<noteq> []) as" using "2.prems" by simp
    have d: "names_distinct (alist (s\<lparr>alist := alias_set n w (alist s)\<rparr>))" for w
      using "2.prems"(2) names_distinct_set by simp
    show ?thesis
    proof (cases "rhs \<noteq> [] \<and> (hd rhs = QUOTE \<or> hd rhs = DQUOTE)")
      case q: True
      show ?thesis
      proof (cases "tl rhs \<noteq> [] \<and> last (tl rhs) = hd rhs")
        case True
        from "2.IH"(2) [OF nv refl rhs_def q refl refl True as d] show ?thesis unfolding step if_P [OF q] if_P [OF True] .
      next
        case False
        then show ?thesis
          using "2.IH"(3) [OF nv refl rhs_def q refl refl False x(1)] x q d "2.prems"(2) unfolding step if_P [OF q] if_not_P [OF False] by (cases x) simp_all
      qed
    next
      case False
      from "2.IH"(4) [OF nv refl rhs_def False as d] show ?thesis unfolding step if_not_P [OF False] .
    qed
  qed
qed simp


text \<open>Most commands leave the aliases and the working directory alone.\<close>

definition calm :: "shell \<Rightarrow> shell \<Rightarrow> bool" where
  "calm s s' = (alist s' = alist s \<and> sh_cwd s' = sh_cwd s)"

lemma calm_simps [simp]:
  "calm s s" "calm s (sh_puts t s)" "calm s (sh_fputs_err t s)" "calm s (sh_perror sys t s)" "calm s (s\<lparr>environ := es\<rparr>)"
  by (simp_all add: calm_def sh_perror_def)

lemma calm_trans: "calm s s' \<Longrightarrow> calm s' s'' \<Longrightarrow> calm s s''"
  by (simp add: calm_def)

lemma calm_fold: "(\<And>e s. calm s (f e s)) \<Longrightarrow> calm s (fold f es s)"
  by (induction es arbitrary: s) (auto intro: calm_trans)

lemma setenv_args_calm: "calm s (snd (setenv_args sys as s))"
  by (induction sys as s rule: setenv_args.induct)
     (auto simp: calm_def sh_perror_def Let_def split: option.split prod.split)

lemma unsetenv_args_calm: "calm s (snd (unsetenv_args sys as s))"
  by (induction sys as s rule: unsetenv_args.induct) (auto simp: calm_def sh_perror_def split: prod.split)

lemma commands_calm:
  "calm s (snd (bi_usage argv s))" "calm s (snd (bi_env argv s))" "calm s (snd (bi_setenv sys argv s))"
  "calm s (snd (bi_unsetenv sys argv s))" "calm s (snd (bi_bins sys s))" "calm s (snd (bi_help s))"
  using setenv_args_calm unsetenv_args_calm
  by (auto simp: bi_usage_def bi_env_def env_show_def bi_setenv_def bi_unsetenv_def bi_bins_def bi_help_def
      split: option.split intro!: calm_fold)

lemma alias_args_cwd: "alias_args as s = Some (r, s') \<Longrightarrow> sh_cwd s' = sh_cwd s"
  by (induction as s rule: alias_args.induct)
     (auto simp: Let_def split: option.splits prod.splits if_splits quoted.splits)

text \<open>
  The invariant of the shell: no alias is defined twice, and the path of the working directory
  fits its buffer.  A system keeps the latter when its directories have short paths and still
  exist.
\<close>

definition shell_ok :: "shell \<Rightarrow> bool" where
  "shell_ok s = (names_distinct (alist s) \<and> length (sh_cwd s) < PATH_MAX)"

definition system_ok :: "system \<Rightarrow> bool" where
  "system_ok sys = ((\<forall>d. sys_getcwd sys d) \<and> (\<forall>d p d'. sys_chdir sys d p = Some d' \<longrightarrow> length d' < PATH_MAX))"

lemma shell_ok_calm: "calm s s' \<Longrightarrow> shell_ok s' = shell_ok s"
  by (simp add: calm_def shell_ok_def)

lemma bi_run_defined:
  assumes "list_all (\<lambda>b. b \<noteq> []) argv" and "names_distinct (alist s)"
    and "f = Bi_cd \<Longrightarrow> getcwd sys PATH_MAX s \<noteq> None"
  shows "\<exists>r s'. bi_run sys f argv s = Some (r, s') \<and> names_distinct (alist s') \<and>
    (sh_cwd s' = sh_cwd s \<or> (\<exists>p. sys_chdir sys (sh_cwd s) p = Some (sh_cwd s')))"
proof -
  consider (aliasing) "f = Bi_alias" | (cd) "f = Bi_cd" | (other) "f \<noteq> Bi_alias" "f \<noteq> Bi_cd" by blast
  then show ?thesis
  proof cases
    case aliasing
    show ?thesis
    proof (cases "length argv = 1")
      case True
      then show ?thesis using aliasing assms(2) by (simp add: bi_run_def bi_alias_def)
    next
      case False
      have "list_all (\<lambda>b. b \<noteq> []) (tl argv)" using assms(1) by (cases argv) auto
      from alias_args_defined [OF this assms(2)] False show ?thesis
        by (auto simp: aliasing bi_run_def bi_alias_def dest: alias_args_cwd)
    qed
  next
    case cd
    then obtain d where "getcwd sys PATH_MAX s = Some d" using assms(3) by auto
    moreover from this have "getcwd sys PATH_MAX (sh_puts t s) = Some d" for t by (simp add: getcwd_def split: if_splits)
    ultimately show ?thesis
      using assms(2) by (auto simp: cd bi_run_def bi_cd_def cd_to_def sh_perror_def Let_def split: option.split)
  next
    case other
    have u: "alist (snd (bi_unalias argv s)) = alist s \<or> alist (snd (bi_unalias argv s)) = alias_remove (argv ! 1) (alist s)"
      "sh_cwd (snd (bi_unalias argv s)) = sh_cwd s"
      by (simp_all add: bi_unalias_def split: option.split)
    then have "names_distinct (alist (snd (bi_unalias argv s)))"
      using assms(2) by (auto simp: names_distinct_remove)
    then show ?thesis
      using other assms(2) commands_calm u(2) unfolding calm_def by (cases f) (auto simp: bi_run_def prod_eq_iff)
  qed
qed

lemma bi_call_defined:
  assumes "list_all (\<lambda>b. b \<noteq> []) argv" and "names_distinct (alist s)"
    and "argv \<noteq> [] \<Longrightarrow> hd argv = ''cd'' \<Longrightarrow> getcwd sys PATH_MAX s \<noteq> None"
  shows "\<exists>r s'. bi_call sys argv s = Some (r, s') \<and> names_distinct (alist s') \<and>
    (sh_cwd s' = sh_cwd s \<or> (\<exists>p. sys_chdir sys (sh_cwd s) p = Some (sh_cwd s')))"
proof (cases "argv = [] \<or> find (\<lambda>b. hd argv = fnname b) lookup_bifn = None")
  case True
  then show ?thesis using assms(2) by (auto simp: bi_call_def)
next
  case False
  then obtain b where b: "find (\<lambda>b. hd argv = fnname b) lookup_bifn = Some b" by blast
  then have "b \<in> set lookup_bifn" "hd argv = fnname b" by (auto simp: find_Some_iff in_set_conv_nth)
  then have "fn b = Bi_cd \<Longrightarrow> hd argv = ''cd''" by (auto simp: lookup_bifn_def)
  then show ?thesis
    using bi_run_defined [OF assms(1,2), of "fn b" sys] assms(3) False b by (simp add: bi_call_def)
qed

lemma bi_call_ok:
  assumes "system_ok sys" and "list_all (\<lambda>b. b \<noteq> []) argv" and "shell_ok s"
  shows "\<exists>r s'. bi_call sys argv s = Some (r, s') \<and> shell_ok s'"
proof -
  have "getcwd sys PATH_MAX s \<noteq> None" using assms(1,3) by (simp add: getcwd_def system_ok_def shell_ok_def)
  with bi_call_defined [OF assms(2), of s sys] assms(1,3) show ?thesis
    by (auto simp: shell_ok_def system_ok_def)
qed

text \<open>The invariant of the session.\<close>

definition session_ok :: "session \<Rightarrow> bool" where
  "session_ok s =
     (hist_fits IN_BUFFER (hist_st s) \<and> length (linebuff s) = IN_BUFFER \<and> shell_ok (shell_st s))"

lemma expand_alias_words:
  assumes "list_all (\<lambda>b. b \<noteq> []) argv" and "expand_alias argv cap s = ((argv', al), s')"
  shows "list_all (\<lambda>b. b \<noteq> []) argv' \<and> calm s s'"
  using assms(2)
proof (cases rule: expand_alias_cases)
  case (3 v)
  then show ?thesis using assms(1) by (cases argv) (auto simp: list_all_iff)
qed (use assms(1) in auto)

lemma run_line_ok:
  assumes "system_ok sys" and "session_ok s"
  shows "\<exists>go s'. run_line sys line s = Some (go, s') \<and> session_ok s'"
proof -
  let ?argv = "tokenise line MAX_ARGS"
  obtain argv al sh where e: "expand_alias ?argv MAX_ARGS (shell_st s) = ((argv, al), sh)" by (metis prod.exhaust)
  have "list_all (\<lambda>b. b \<noteq> []) ?argv" using tokenise_words by (auto simp: list_all_iff)
  from expand_alias_words [OF this e] assms(2) have
    w: "list_all (\<lambda>b. b \<noteq> []) argv" "shell_ok sh" by (auto simp: session_ok_def shell_ok_calm)
  from bi_call_ok [OF assms(1) w] obtain r sh' where "bi_call sys argv sh = Some (r, sh')" "shell_ok sh'"
    by blast
  then show ?thesis
    using assms(2) w(2) e by (cases r) (auto simp: run_line_def Let_def session_ok_def)
qed

lemma run_rc_ok:
  assumes "system_ok sys" and "session_ok s"
  shows "\<exists>go s'. run_rc sys lines s = Some (go, s') \<and> session_ok s'"
  using assms(2)
proof (induction lines arbitrary: s)
  case (Cons line lines)
  let ?argv = "rc_command line"
  have "list_all (\<lambda>b. b \<noteq> []) ?argv"
    using tokenise_words by (auto simp: rc_command_def Let_def list_all_iff)
  from bi_call_ok [OF assms(1) this, of "shell_st s"] Cons.prems obtain r sh where
    "bi_call sys ?argv (shell_st s) = Some (r, sh)" "shell_ok sh" by (auto simp: session_ok_def)
  then show ?case
    using Cons.prems Cons.IH [of s] Cons.IH [of "s\<lparr>shell_st := sh\<rparr>"]
      Cons.IH [of "s\<lparr>shell_st := sh, children := children s @ [?argv]\<rparr>"]
    by (cases r) (auto simp: Let_def session_ok_def)
qed auto

lemma source_rc_ok:
  assumes "system_ok sys" and "session_ok s"
  shows "\<exists>go fs' s'. source_rc sys root fs s = Some (go, fs', s') \<and> session_ok s'"
proof -
  have rc: "\<exists>go fs' s'. Option.bind (run_rc sys lines s) (\<lambda>(go, s). Some (go, fs, s)) = Some (go, fs', s') \<and> session_ok s'" for lines
    using run_rc_ok [OF assms, of lines] by (metis (no_types, lifting) bind.bind_lunit case_prod_conv)
  have "session_ok (s\<lparr>shell_st := sh_fputs_err t (shell_st s)\<rparr>)" for t
    using assms(2) by (simp add: session_ok_def shell_ok_def)
  then show ?thesis
    using assms(2) unfolding source_rc_def Let_def by (auto simp: rc split: option.split)
qed

lemma shell_loop_ok:
  assumes "\<forall>round \<in> set rounds. system_ok (fst round)" and "session_ok s"
  shows "\<exists>go s'. shell_loop rounds s = Some (go, s') \<and> session_ok s'"
  using assms
proof (induction rounds s rule: shell_loop.induct)
  case (1 s)
  then show ?case by auto
next
  case (2 sys env inp rounds s)
  let ?r = "line_read (session_env env s) (Some (type_prompt sys (shell_st s) IN_BUFFER)) (linebuff s) (hist_st s) inp"
  have "hist_fits (length (linebuff s)) (hist_st s)" using "2.prems"(2) by (simp add: session_ok_def)
  from line_read_ok [OF this] obtain v ed rest where
    r: "?r = Some (v, ed, rest)" "read_result (length (linebuff s)) v ed" by blast
  let ?s = "s\<lparr>hist_st := lhist ed, linebuff := lbuf ed, shell_st := sh_puts (ltty ed) (shell_st s)\<rparr>"
  have ok: "session_ok ?s" using r(2) "2.prems"(2) by (simp add: session_ok_def shell_ok_def read_result_def)
  from "2.prems"(1) have "system_ok sys" by simp
  from run_line_ok [OF this ok, of "cstr (linebuff ?s)"] obtain go s' where
    l: "run_line sys (cstr (linebuff ?s)) ?s = Some (go, s')" "session_ok s'" by blast
  show ?case
  proof (cases "v = - 1 \<or> \<not> go")
    case True
    then show ?thesis using r(1) l ok by (cases "v = - 1") (auto simp: Let_def session_ok_def shell_ok_def)
  next
    case False
    then have "\<exists>go s''. shell_loop rounds s' = Some (go, s'') \<and> session_ok s''"
      using "2.IH" [OF r(1) refl refl refl _ l(1) refl] l(2) "2.prems"(1) by simp
    then show ?thesis using r(1) l False by (simp add: Let_def)
  qed
qed


section \<open>Quoted aliases\<close>

text \<open>The last word carries the closing quote.\<close>

fun close_last :: "string list \<Rightarrow> string list" where
  "close_last [] = []"
| "close_last [w] = [w @ [QUOTE]]"
| "close_last (w # ws) = w # close_last ws"

definition plain_word :: "string \<Rightarrow> bool" where
  "plain_word w = (w \<noteq> [] \<and> list_all (\<lambda>c. \<not> is_blank c) w \<and> QUOTE \<notin> set w)"

lemma join_close_last: "ws \<noteq> [] \<Longrightarrow> join c (close_last ws) = join c ws @ [QUOTE]"
proof (induction ws rule: close_last.induct)
  case (3 w v ws)
  then show ?case by (cases ws) simp_all
qed simp_all

lemma join_prepend: "join c ((p @ w) # ws) = p @ join c (w # ws)"
  by (cases ws) simp_all

lemma close_last_words: "list_all plain_word ws \<Longrightarrow> w \<in> set (close_last ws) \<Longrightarrow> w \<noteq> [] \<and> list_all (\<lambda>c. \<not> is_blank c) w"
  by (induction ws rule: close_last.induct) (auto simp: plain_word_def is_blank_def)

lemma close_last_length [simp]: "length (close_last ws) = length ws"
  by (induction ws rule: close_last.induct) simp_all

lemma close_quote_words:
  assumes "ws \<noteq> []" and "list_all plain_word ws" and "length (join (CHR '' '') (rhs # ws)) + 2 < IN_BUFFER"
  shows "close_quote QUOTE rhs (close_last ws) = Some (Closed (join (CHR '' '') (rhs # ws)) [])"
  using assms
proof (induction ws arbitrary: rhs rule: close_last.induct)
  case (2 w)
  then show ?case by (simp add: butlast_append)
next
  case (3 w v ws)
  have j: "join (CHR '' '') ((rhs @ CHR '' '' # w) # v # ws) = join (CHR '' '') (rhs # w # v # ws)"
    by simp
  have "w \<noteq> []" "QUOTE \<notin> set w" using "3.prems"(2) by (simp_all add: plain_word_def)
  then have "last w \<noteq> QUOTE" using last_in_set by metis
  moreover have "\<not> IN_BUFFER \<le> length rhs + length w + 2" using "3.prems"(3) by simp
  moreover have "close_quote QUOTE (rhs @ CHR '' '' # w) (close_last (v # ws)) =
      Some (Closed (join (CHR '' '') ((rhs @ CHR '' '' # w) # v # ws)) [])"
    by (rule "3.IH") (use "3.prems" in \<open>simp_all add: j\<close>)
  ultimately show ?case using \<open>w \<noteq> []\<close> by (simp add: j)
qed simp

lemma alias_args_quoted:
  assumes "ws \<noteq> []" and "list_all plain_word ws" and "length (join (CHR '' '') ws) + 2 < IN_BUFFER"
    and "CHR ''='' \<notin> set n"
  shows "alias_args ((n @ ''='' @ [QUOTE] @ hd (close_last ws)) # tl (close_last ws)) s =
    Some (Ret 0, s\<lparr>alist := alias_set n (join (CHR '' '') ws) (alist s)\<rparr>)"
proof -
  obtain w vs where ws: "ws = w # vs" using assms(1) by (cases ws) auto
  let ?h = "hd (close_last ws)"
  have "w \<noteq> []" "QUOTE \<notin> set w" using assms(2) ws by (simp_all add: plain_word_def)
  then have w: "w \<noteq> []" "last w \<noteq> QUOTE" using last_in_set [of w] by metis+
  have "length w \<le> length (join (CHR '' '') ws)" by (cases vs) (simp_all add: ws)
  then have "length ?h + 1 < IN_BUFFER" using assms(3) by (cases vs) (simp_all add: ws)
  then have rhs: "QUOTE # ?h = take (IN_BUFFER - 1) (QUOTE # ?h)" by simp
  have split: "strchr_split (CHR ''='') (n @ ''='' @ [QUOTE] @ ?h) = Some (n, QUOTE # ?h)"
    using strchr_split_exact [OF assms(4)] by simp
  show ?thesis
  proof (cases vs)
    case Nil
    then show ?thesis using w unfolding alias_args_define [OF split rhs] by (simp add: ws)
  next
    case (Cons v vs')
    then have "close_quote QUOTE w (close_last vs) = Some (Closed (join (CHR '' '') ws) [])"
      using close_quote_words [of vs w] assms(2,3) ws by simp
    then show ?thesis using w Cons unfolding alias_args_define [OF split rhs] by (simp add: ws)
  qed
qed

section \<open>Built-ins and children\<close>

definition handled :: "bi_result \<Rightarrow> bool" where
  "handled r = (case r of Ret v \<Rightarrow> 0 \<le> v | Exit _ \<Rightarrow> True)"

lemma setenv_args_handled: "handled (fst (setenv_args sys as s))"
  by (induction sys as s rule: setenv_args.induct) (auto simp: handled_def Let_def split: option.split prod.split)

lemma unsetenv_args_handled: "handled (fst (unsetenv_args sys as s))"
  by (induction sys as s rule: unsetenv_args.induct) (auto simp: handled_def split: prod.split)

lemma alias_args_handled:
  assumes "list_all (\<lambda>b. b \<noteq> []) as" and "names_distinct (alist s)" and "alias_args as s = Some (r, s')"
  shows "handled r"
  using alias_args_defined [OF assms(1,2)] assms(3) by (auto simp: handled_def)

lemma bi_run_handled:
  assumes "list_all (\<lambda>b. b \<noteq> []) argv" and "names_distinct (alist s)" and "bi_run sys f argv s = Some (r, s')"
  shows "handled r"
proof (cases "f = Bi_alias")
  case True
  have "list_all (\<lambda>b. b \<noteq> []) (tl argv)" using assms(1) by (cases argv) auto
  then show ?thesis
    using assms(2,3) True alias_args_handled by (auto simp: bi_run_def bi_alias_def handled_def split: if_splits)
next
  case False
  have "bi_cd sys argv s = Some (r, s') \<Longrightarrow> handled r"
    by (auto simp: bi_cd_def cd_to_def handled_def Let_def bind_eq_Some_conv split: option.split_asm if_split_asm)
  moreover have "handled (bi_exit argv)" "handled (fst (bi_usage argv s))" "handled (fst (bi_env argv s))"
    "handled (fst (bi_setenv sys argv s))" "handled (fst (bi_unsetenv sys argv s))"
    "handled (fst (bi_unalias argv s))" "handled (fst (bi_bins sys s))" "handled (fst (bi_help s))"
    using setenv_args_handled [of sys "tl argv" s] unsetenv_args_handled [of sys "tl argv" s]
    by (simp_all add: bi_exit_def bi_usage_def bi_env_def bi_setenv_def bi_unsetenv_def bi_unalias_def bi_bins_def
        bi_help_def handled_def split: option.split)
  ultimately show ?thesis using False assms(3) by (cases f) (auto simp: bi_run_def)
qed

lemma bi_call_handled:
  assumes "argv \<noteq> []" and "list_all (\<lambda>b. b \<noteq> []) argv" and "names_distinct (alist s)"
    and "bi_call sys argv s = Some (r, s')"
  shows "if hd argv \<in> set builtins then handled r else r = Ret (- 1) \<and> s' = s"
proof (cases "find (\<lambda>b. hd argv = fnname b) lookup_bifn")
  case None
  then have "hd argv \<notin> set builtins" by (auto simp: find_None_iff builtins_def lookup_bifn_def)
  then show ?thesis using None assms(1,4) by (simp add: bi_call_def)
next
  case (Some b)
  then have "b \<in> set lookup_bifn" "hd argv = fnname b" by (auto simp: find_Some_iff in_set_conv_nth)
  then have "hd argv \<in> set builtins" by (auto simp: builtins_def lookup_bifn_def)
  then show ?thesis
    using bi_run_handled [OF assms(2,3)] Some assms(1,4) by (simp add: bi_call_def)
qed

lemma run_line_effect:
  assumes "session_ok s" and "tokenise line MAX_ARGS \<noteq> []"
    and "expand_alias (tokenise line MAX_ARGS) MAX_ARGS (shell_st s) = ((argv, al), sh)" and "argv \<noteq> []"
    and "hd argv = ''cd'' \<longrightarrow> sys_getcwd sys (sh_cwd (shell_st s))"
  shows "\<exists>go s'. run_line sys line s = Some (go, s') \<and>
    children s' = (if hd argv \<in> set builtins then children s else children s @ [argv]) \<and>
    live_args s' = live_args s + (if hd argv \<in> set builtins \<and> al then length argv else 0)"
proof -
  have "list_all (\<lambda>b. b \<noteq> []) (tokenise line MAX_ARGS)" using tokenise_words by (auto simp: list_all_iff)
  from expand_alias_words [OF this assms(3)] assms(1) have
    w: "list_all (\<lambda>b. b \<noteq> []) argv" "names_distinct (alist sh)" and c: "calm (shell_st s) sh" "shell_ok (shell_st s)"
    by (auto simp: session_ok_def calm_def shell_ok_def)
  have "getcwd sys PATH_MAX sh \<noteq> None" if "hd argv = ''cd''"
    using c assms(5) that by (simp add: getcwd_def calm_def shell_ok_def)
  with bi_call_defined [OF w] obtain r sh' where b: "bi_call sys argv sh = Some (r, sh')" by blast
  from bi_call_handled [OF assms(4) w b] b assms(2-4) show ?thesis
    by (cases r) (auto simp: run_line_def Let_def handled_def split: if_splits)
qed

section \<open>Properties\<close>

text \<open>
  The shell never reaches undefined behaviour: whatever is typed, and whatever the
  system answers as long as the working directory keeps a path, every round of the main loop is defined, the history lines still fit the
  line buffer and no alias is defined twice.
\<close>

theorem shell_never_undefined:
  assumes "\<forall>round \<in> set rounds. system_ok (fst round)" and "session_ok s"
  shows "\<exists>go s'. shell_loop rounds s = Some (go, s') \<and> session_ok s'"
  using assms by (rule shell_loop_ok)

definition new_session :: session where
  "new_session = \<lparr>shell_st = empty_shell, hist_st = hist_init, linebuff = replicate IN_BUFFER NUL, children = [], live_args = 0\<rparr>"

lemma new_session_ok: "session_ok new_session"
  by (simp add: session_ok_def new_session_def hist_init_fits shell_ok_def names_distinct_def empty_shell_def PATH_MAX_def)

lemma no_system_ok: "system_ok no_system"
  by (simp add: system_ok_def no_system_def)

theorem shell_never_undefined_witness:
  "\<exists>go s'. shell_loop [(no_system, no_files, ''alias x='' @ [QUOTE] @ ''cd /'' @ [QUOTE, NL]), (no_system, no_files, ''x'' @ [NL])] new_session =
    Some (go, s') \<and> session_ok s'"
  by (rule shell_never_undefined) (simp_all add: new_session_ok no_system_ok)

text \<open>
  The start-up file runs without undefined behaviour whatever it contains, and leaves
  the session ready for the main loop.
\<close>

theorem startup_file_safe:
  assumes "system_ok sys" and "session_ok s"
  shows "\<exists>go fs' s'. source_rc sys root fs s = Some (go, fs', s') \<and> session_ok s'"
  using assms by (rule source_rc_ok)

theorem startup_file_safe_witness:
  "\<exists>go fs' s'. source_rc no_system ''/repo'' Map.empty new_session = Some (go, fs', s') \<and> session_ok s'"
  by (rule startup_file_safe [OF no_system_ok new_session_ok])

text \<open>
  In a directory that was removed \<open>getcwd\<close> fails, and \<open>cd\<close> to a directory that exists stores
  the contents of an uninitialised buffer in the environment.
\<close>

theorem cd_from_removed_directory:
  assumes "\<not> sys_getcwd sys (sh_cwd s)" and "sys_chdir sys (sh_cwd s) p = Some d" and "p \<noteq> ''-''"
  shows "bi_call sys [''cd'', p] s = None"
  using assms by (simp add: bi_call_def lookup_bifn_def bi_run_def bi_cd_def cd_to_def getcwd_def)

theorem cd_from_removed_directory_witness:
  "bi_call (no_system\<lparr>sys_getcwd := (\<lambda>_. False), sys_chdir := (\<lambda>_ p. Some p)\<rparr>) [''cd'', ''/tmp''] empty_shell = None"
  by (rule cd_from_removed_directory) (simp_all add: no_system_def)

text \<open>
  C24.  An alias defined by a line \<open>alias n='w1 ... wk'\<close> with words separated by single
  blanks expands \<open>n\<close> to exactly these words, followed by the arguments given with it.
\<close>

theorem quoted_alias_expands:
  assumes "n \<noteq> []" and "list_all (\<lambda>c. \<not> is_blank c) n" and "CHR ''='' \<notin> set n"
    and "ws \<noteq> []" and "list_all plain_word ws" and "length (join (CHR '' '') ws) + 2 < IN_BUFFER"
    and "length ws + length args < MAX_ARGS - 1"
  shows "\<exists>s'. bi_call sys (tokenise (''alias '' @ n @ ''='' @ [QUOTE] @ join (CHR '' '') ws @ [QUOTE]) MAX_ARGS) s = Some (Ret 0, s') \<and>
    fst (expand_alias (n # args) MAX_ARGS s') = (ws @ args, True)"
proof -
  let ?j = "join (CHR '' '') ws"
  obtain h t where c: "close_last ws = h # t" using assms(4) close_last_length [of ws] by (cases "close_last ws") auto
  let ?argv = "''alias'' # (n @ ''='' @ [QUOTE] @ h) # t"
  have "join (CHR '' '') ?argv = ''alias '' @ n @ ''='' @ [QUOTE] @ join (CHR '' '') (close_last ws)"
    using join_prepend [of "CHR '' ''" "n @ ''='' @ [QUOTE]" h t] c by simp
  then have line: "join (CHR '' '') ?argv = ''alias '' @ n @ ''='' @ [QUOTE] @ ?j @ [QUOTE]"
    using join_close_last [OF assms(4)] by simp
  have len: "length ?argv < MAX_ARGS" using assms(7) close_last_length [of ws] c by simp
  have words: "w \<noteq> [] \<and> list_all (\<lambda>c. \<not> is_blank c) w" if "w \<in> set ?argv" for w
  proof -
    have h: "list_all (\<lambda>c. \<not> is_blank c) h" using close_last_words [OF assms(5), of h] c by simp
    from that consider "w = ''alias''" | "w = n @ ''='' @ [QUOTE] @ h" | "w \<in> set t" by auto
    then show ?thesis
    proof cases
      case 3
      then show ?thesis using close_last_words [OF assms(5), of w] c by simp
    qed (use assms(2) h in \<open>simp_all add: is_blank_def\<close>)
  qed
  have "tokenise (join (CHR '' '') ?argv) MAX_ARGS = ?argv" by (rule tokenise_join [OF words len])
  then have tok: "tokenise (''alias '' @ n @ ''='' @ [QUOTE] @ ?j @ [QUOTE]) MAX_ARGS = ?argv"
    unfolding line .
  let ?s = "s\<lparr>alist := alias_set n ?j (alist s)\<rparr>"
  have call: "bi_call sys ?argv s = Some (Ret 0, ?s)"
    using alias_args_quoted [OF assms(4-6,3), of s] c by (simp add: bi_call_alias bi_alias_def)
  have "tokenise ?j MAX_ARGS = ws"
    by (rule tokenise_join) (use assms(5,7) in \<open>auto simp: list_all_iff plain_word_def\<close>)
  moreover have "take (IN_BUFFER - 1) ?j = ?j" using assms(6) by simp
  ultimately have "fst (expand_alias (n # args) MAX_ARGS ?s) = (ws @ args, True)"
    using assms(7) by (simp add: expand_alias_def alias_lookup_set)
  with call tok show ?thesis by auto
qed

theorem quoted_alias_expands_witness:
  "\<exists>s'. bi_call no_system (tokenise (''alias '' @ ''ll'' @ ''='' @ [QUOTE] @ join (CHR '' '') [''ls'', ''-l''] @ [QUOTE]) MAX_ARGS) empty_shell =
      Some (Ret 0, s') \<and>
    fst (expand_alias (''ll'' # [''src'']) MAX_ARGS s') = ([''ls'', ''-l''] @ [''src''], True)"
  by (rule quoted_alias_expands) (simp_all add: is_blank_def plain_word_def IN_BUFFER_def MAX_ARGS_def)


text \<open>
  C34.  A command line whose expanded first word is not a built-in starts one child with
  exactly the expanded arguments; a built-in starts none.  A \<open>cd\<close> needs a working directory
  that still has a path.
\<close>

theorem line_starts_child:
  assumes "session_ok s" and "tokenise line MAX_ARGS \<noteq> []"
    and "expand_alias (tokenise line MAX_ARGS) MAX_ARGS (shell_st s) = ((argv, al), sh)" and "argv \<noteq> []"
    and "hd argv = ''cd'' \<longrightarrow> sys_getcwd sys (sh_cwd (shell_st s))"
  shows "\<exists>go s'. run_line sys line s = Some (go, s') \<and>
    children s' = (if hd argv \<in> set builtins then children s else children s @ [argv])"
  using run_line_effect [OF assms] by blast

theorem line_starts_child_witness:
  "\<exists>go s'. run_line no_system ''sleep 5'' new_session = Some (go, s') \<and>
    children s' = (if hd [''sleep'', ''5''] \<in> set builtins then children new_session else children new_session @ [[''sleep'', ''5'']])"
proof (rule line_starts_child)
  have t: "tokenise ''sleep 5'' MAX_ARGS = [''sleep'', ''5'']"
  proof -
    have "tokenise (join (CHR '' '') [''sleep'', ''5'']) MAX_ARGS = [''sleep'', ''5'']"
      by (rule tokenise_join) (auto simp: is_blank_def MAX_ARGS_def)
    then show ?thesis by simp
  qed
  show "session_ok new_session" by (rule new_session_ok)
  show "tokenise ''sleep 5'' MAX_ARGS \<noteq> []" using t by simp
  show "expand_alias (tokenise ''sleep 5'' MAX_ARGS) MAX_ARGS (shell_st new_session) = (([''sleep'', ''5''], False), empty_shell)"
    unfolding t by (simp add: expand_alias_def new_session_def empty_shell_def)
qed simp_all

text \<open>
  The strings of an alias expansion are freed after a child, but leaked by every
  built-in: running a built-in through an alias leaves all its arguments allocated.
\<close>

theorem builtin_leaks_expansion:
  assumes "session_ok s" and "tokenise line MAX_ARGS \<noteq> []"
    and "expand_alias (tokenise line MAX_ARGS) MAX_ARGS (shell_st s) = ((argv, True), sh)" and "argv \<noteq> []"
    and "hd argv = ''cd'' \<longrightarrow> sys_getcwd sys (sh_cwd (shell_st s))"
  shows "\<exists>go s'. run_line sys line s = Some (go, s') \<and>
    live_args s' = live_args s + (if hd argv \<in> set builtins then length argv else 0)"
  using run_line_effect [OF assms] by auto

definition aliased_session :: session where
  "aliased_session = new_session\<lparr>shell_st := empty_shell\<lparr>alist := [\<lparr>a_name = ''h'', a_value = ''help''\<rparr>]\<rparr>\<rparr>"

theorem builtin_leaks_expansion_witness:
  "\<exists>go s'. run_line no_system ''h'' aliased_session = Some (go, s') \<and>
    live_args s' = live_args aliased_session + (if hd [''help''] \<in> set builtins then length [''help''] else 0)"
proof (rule builtin_leaks_expansion)
  have t: "tokenise ''h'' MAX_ARGS = [''h'']" "tokenise ''help'' MAX_ARGS = [''help'']"
  proof -
    have "tokenise (join (CHR '' '') [w]) MAX_ARGS = [w]" if "w \<in> {''h'', ''help''}" for w
      by (rule tokenise_join) (use that in \<open>auto simp: is_blank_def MAX_ARGS_def\<close>)
    then show "tokenise ''h'' MAX_ARGS = [''h'']" "tokenise ''help'' MAX_ARGS = [''help'']" by simp_all
  qed
  show "session_ok aliased_session"
    using new_session_ok by (simp add: aliased_session_def session_ok_def shell_ok_def names_distinct_def empty_shell_def new_session_def)
  show "tokenise ''h'' MAX_ARGS \<noteq> []" using t by simp
  show "expand_alias (tokenise ''h'' MAX_ARGS) MAX_ARGS (shell_st aliased_session) = (([''help''], True), shell_st aliased_session)"
    unfolding t by (simp add: expand_alias_def aliased_session_def alias_lookup_Cons t IN_BUFFER_def MAX_ARGS_def [symmetric])
       (simp add: MAX_ARGS_def)
qed simp_all

end
