(* ===== verification/Paths.thy ===== *)
theory Paths
  imports Cstring
begin

text \<open>
  Paths: \<open>dirname\<close> and \<open>basename\<close>, and \<open>resolve_project_root\<close>, which \<open>dkill.c\<close>, \<open>dspawn.c\<close>,
  \<open>dcheck.c\<close>, \<open>dplant.c\<close> and \<open>backup.c\<close> share line by line.
\<close>

section \<open>The root of the project\<close>

text \<open>\<open>dirname\<close> and \<open>basename\<close> of POSIX.\<close>

definition strip_slashes :: "string \<Rightarrow> string" where
  "strip_slashes p = rev (dropWhile (\<lambda>c. c = CHR ''/'') (rev p))"

definition c_dirname :: "string \<Rightarrow> string" where
  "c_dirname p =
     (if p = [] then ''.''
      else if strip_slashes p = [] then ''/''
      else if CHR ''/'' \<notin> set (strip_slashes p) then ''.''
      else let d = strip_slashes (rev (dropWhile (\<lambda>c. c \<noteq> CHR ''/'') (rev (strip_slashes p))))
        in if d = [] then ''/'' else d)"

definition c_basename :: "string \<Rightarrow> string" where
  "c_basename p =
     (if p = [] then ''.''
      else if strip_slashes p = [] then ''/''
      else rev (takeWhile (\<lambda>c. c \<noteq> CHR ''/'') (rev (strip_slashes p))))"

text \<open>
  \<open>exe\<close> is what \<open>readlink\<close> gives for the program's own path.  A home directory that fills the
  buffer leaves it without a null.
\<close>

definition resolve_project_root :: "string option \<Rightarrow> string option \<Rightarrow> string option" where
  "resolve_project_root exe home =
     (case exe of
        None \<Rightarrow> (case home of
            Some h \<Rightarrow> if length h < PATH_MAX then Some h else None
          | None \<Rightarrow> Some ''.'')
      | Some path \<Rightarrow>
          let dir = c_dirname (take (PATH_MAX - 1) path)
          in Some (take (PATH_MAX - 1) (if c_basename dir = ''bin'' then c_dirname dir else dir)))"

section \<open>Components of a path\<close>

lemma strip_slashes_id: "p = [] \<or> last p \<noteq> CHR ''/'' \<Longrightarrow> strip_slashes p = p"
  by (cases p rule: rev_cases) (simp_all add: strip_slashes_def)

lemma strip_one_slash: "p = [] \<or> last p \<noteq> CHR ''/'' \<Longrightarrow> strip_slashes (p @ ''/'') = p"
  by (cases p rule: rev_cases) (simp_all add: strip_slashes_def)

lemma last_component:
  assumes "CHR ''/'' \<notin> set b"
  shows "rev (dropWhile (\<lambda>c. c \<noteq> CHR ''/'') (rev (a @ CHR ''/'' # b))) = a @ ''/''"
    "rev (takeWhile (\<lambda>c. c \<noteq> CHR ''/'') (rev (a @ CHR ''/'' # b))) = b"
  using assms until_exact [of "CHR ''/''" "rev b" "rev a"] by simp_all

lemma dirname_file:
  assumes "a \<noteq> []" and "last a \<noteq> CHR ''/''" and "b \<noteq> []" and "CHR ''/'' \<notin> set b"
  shows "c_dirname (a @ CHR ''/'' # b) = a" "c_basename (a @ CHR ''/'' # b) = b"
proof -
  have "last b \<noteq> CHR ''/''" using assms(3,4) last_in_set by metis
  then have s: "strip_slashes (a @ CHR ''/'' # b) = a @ CHR ''/'' # b"
    using assms(3) by (intro strip_slashes_id) simp
  show "c_dirname (a @ CHR ''/'' # b) = a" "c_basename (a @ CHR ''/'' # b) = b"
    using s last_component [OF assms(4)] strip_one_slash [of a] assms(1,2)
    by (simp_all add: c_dirname_def c_basename_def)
qed

lemma installed_root:
  assumes "root \<noteq> []" and "last root \<noteq> CHR ''/''" and "prog \<noteq> []" and "CHR ''/'' \<notin> set prog"
    and "length (root @ ''/bin/'' @ prog) < PATH_MAX"
  shows "resolve_project_root (Some (root @ ''/bin/'' @ prog)) home = Some root"
proof -
  have "c_dirname (root @ ''/bin/'' @ prog) = root @ ''/bin''"
    using dirname_file(1) [of "root @ ''/bin''" prog] assms(3,4) by simp
  moreover have "c_basename (root @ ''/bin'') = ''bin''" "c_dirname (root @ ''/bin'') = root"
    using dirname_file [of root "''bin''"] assms(1,2) by simp_all
  ultimately show ?thesis using assms(5) by (simp add: resolve_project_root_def)
qed

end
