(* ===== verification/Startup.thy ===== *)
theory Startup
  imports Shell_Laws Paths
begin

text \<open>
  The shell from its start to its end (\<open>src/tetrish/shell.c\<close>): where it is installed, the
  directories and the log it keeps there, the start-up sequence, how the end of a child is
  reported, the handlers that run at exit, and the whole program around the main loop of
  \<open>Shell\<close>.  The files and directories are the record \<open>host\<close>; modes of the terminal and signal
  handlers are left out.
\<close>

section \<open>Where the shell is installed\<close>

record host =
  ho_root :: string
  ho_bin :: string
  ho_exists :: "string \<Rightarrow> bool"
  ho_mkdir :: "string \<Rightarrow> bool"  \<comment> \<open>whether the directory can be made\<close>
  ho_files :: "string \<rightharpoonup> string"
  ho_opens :: "string \<Rightarrow> bool"
  ho_ctime :: "int \<Rightarrow> string"

text \<open>\<open>exe\<close> is what \<open>readlink\<close> gives; project root and directory of programs.\<close>

definition shell_roots :: "string option \<Rightarrow> string \<times> string" where
  "shell_roots exe =
     (case exe of
        None \<Rightarrow> (''.'', ''./bin'')
      | Some path \<Rightarrow>
          let bin_dir = c_dirname (take (PATH_MAX - 1) path)
          in (take (PATH_MAX - 1) (c_dirname (take (PATH_MAX - 1) bin_dir)), take (PATH_MAX - 1) bin_dir))"

definition project_path :: "host \<Rightarrow> string \<Rightarrow> string" where
  "project_path h t = take (PATH_MAX - 1) (ho_root h @ t)"

section \<open>Directories and log\<close>

text \<open>\<open>check_tempdir\<close> and \<open>check_archivedir\<close> differ in the name of the directory only.\<close>

definition check_dir :: "system \<Rightarrow> string \<Rightarrow> host \<Rightarrow> shell \<Rightarrow> host \<times> shell" where
  "check_dir sys name h s =
     (let s = sh_puts (''creating ./'' @ name @ [NL]) s;
          tmp_path = project_path h (CHR ''/'' # name)
      in if ho_exists h tmp_path then (h, s)
         else if ho_mkdir h tmp_path
         then (h\<lparr>ho_exists := (ho_exists h)(tmp_path := True)\<rparr>, sh_puts (''Created '' @ tmp_path @ '' in project root'' @ [NL]) s)
         else (h, sh_perror sys (''mkdir '' @ name) s))"

definition log_path :: "host \<Rightarrow> string" where
  "log_path h = project_path h ''/tmp/tetrish.log''"

definition append_log :: "string \<Rightarrow> host \<Rightarrow> host" where
  "append_log t h =
     (if ho_opens h (log_path h)
      then h\<lparr>ho_files := (ho_files h)(log_path h \<mapsto> (case ho_files h (log_path h) of None \<Rightarrow> t | Some old \<Rightarrow> old @ t))\<rparr>
      else h)"

definition startup_log :: "int \<Rightarrow> host \<Rightarrow> host" where
  "startup_log now h = append_log (ho_ctime h now @ ''Started speedrun cseshell (tetrish).'' @ [NL]) h"

definition intentional_terminate_log :: "int \<Rightarrow> host \<Rightarrow> host" where
  "intentional_terminate_log now h = append_log (ho_ctime h now @ ''Successfully terminated speedrun cseshell.'' @ [NL]) h"

section \<open>The end of a child\<close>

datatype wait_status = Exited int | Signaled int bool | Stopped int | Continued

definition child_sancheck :: "int \<Rightarrow> wait_status \<Rightarrow> bool \<Rightarrow> string" where
  "child_sancheck pid status run =
     (if \<not> run then []
      else case status of
          Exited ecode \<Rightarrow> ''[child '' @ dec_int pid @ '' exited with status '' @ dec_int ecode @ '']'' @ [NL]
        | Signaled sig core \<Rightarrow>
            ''[child '' @ dec_int pid @ '' killed by signal '' @ dec_int sig @ (if core then '' (core dumped)'' else []) @ '']'' @ [NL]
        | Stopped sig \<Rightarrow> ''[child '' @ dec_int pid @ '' stopped by signal '' @ dec_int sig @ '']'' @ [NL]
        | Continued \<Rightarrow> [])"

text \<open>What \<open>execvp\<close> makes of the arguments: a program that ends somehow, or a failure, \<open>ENOENT\<close> or other.\<close>

datatype exec_outcome = Runs wait_status | Fails bool

definition fork_child :: "(string list \<Rightarrow> exec_outcome) \<Rightarrow> int \<Rightarrow> string list \<Rightarrow> wait_status \<times> string" where
  "fork_child exec pid argv =
     (let status = (case exec argv of Runs st \<Rightarrow> st | Fails enoent \<Rightarrow> Exited (if enoent then 127 else 126))
      in (status, child_sancheck pid status False))"

section \<open>The program\<close>

definition clear_screen :: string where
  "clear_screen = CHR 0x1B # ''[2J'' @ CHR 0x1B # ''[H''"

definition startup :: "system \<Rightarrow> string option \<Rightarrow> int \<Rightarrow> host \<Rightarrow> session \<Rightarrow> (bool \<times> host \<times> session) option" where
  "startup sys exe now h s =
     (let (root, bin) = shell_roots exe;
          h = h\<lparr>ho_root := root, ho_bin := bin\<rparr>;
          (h, sh) = check_dir sys ''tmp'' h (shell_st s);
          (h, sh) = check_dir sys ''archive'' h sh;
          h = startup_log now h;
          sh = add_bin_topath (ho_bin h) sh;
          sh = sh_puts clear_screen sh
      in do {
        (go, fs, s) \<leftarrow> source_rc sys (ho_root h) (ho_files h) (s\<lparr>shell_st := sh\<rparr>);
        Some (go, h\<lparr>ho_files := fs\<rparr>, s)
      })"

definition alias_free :: "shell \<Rightarrow> shell" where
  "alias_free s = s\<lparr>alist := []\<rparr>"

text \<open>The handlers in the order they run, the reverse of their registration.\<close>

definition exit_handlers :: "int \<Rightarrow> host \<Rightarrow> session \<Rightarrow> (host \<times> session) option" where
  "exit_handlers now h s =
     (let h = intentional_terminate_log now h
      in do {
        hist \<leftarrow> hist_free (hist_st s);
        Some (h, s\<lparr>hist_st := hist, shell_st := alias_free (shell_st s)\<rparr>)
      })"

text \<open>The flag says that the program still runs when the input of the rounds is used up.\<close>

definition shell_main ::
    "system \<Rightarrow> string option \<Rightarrow> int \<Rightarrow> int \<Rightarrow> (system \<times> completion_env \<times> string) list \<Rightarrow> host \<Rightarrow> session \<Rightarrow> (bool \<times> host \<times> session) option" where
  "shell_main sys exe now later rounds h s = do {
     (go, h, s) \<leftarrow> startup sys exe now h s;
     (go, s) \<leftarrow> (if go
        then shell_loop rounds (s\<lparr>shell_st := sh_puts (''Welcome to the speedran shell - peky'' @ [NL]) (shell_st s)\<rparr>)
        else Some (False, s));
     if go then Some (True, h, s)
     else do { (h, s) \<leftarrow> exit_handlers later h s; Some (False, h, s) }
   }"

end
