(* ===== verification/Startup_Laws.thy ===== *)
theory Startup_Laws
  imports Startup
begin

text \<open>
  The whole shell: it never reaches undefined behaviour from start to end, it records both in
  its log, and started for the first time it prepares its directories, its start-up file and
  the search path.
\<close>

section \<open>Installed below a root\<close>

definition installed :: "string \<Rightarrow> string \<Rightarrow> bool" where
  "installed root prog =
     (root \<noteq> [] \<and> last root \<noteq> CHR ''/'' \<and> prog \<noteq> [] \<and> CHR ''/'' \<notin> set prog \<and>
      length (root @ ''/bin/'' @ prog) < PATH_MAX - 20)"

lemma installed_roots:
  assumes "installed root prog"
  shows "shell_roots (Some (root @ ''/bin/'' @ prog)) = (root, root @ ''/bin'')"
proof -
  have "c_dirname (root @ ''/bin/'' @ prog) = root @ ''/bin''"
    using dirname_file(1) [of "root @ ''/bin''" prog] assms by (simp add: installed_def)
  moreover have "c_dirname (root @ ''/bin'') = root"
    using dirname_file(1) [of root "''bin''"] assms by (simp add: installed_def)
  moreover have "take (PATH_MAX - 1) (root @ ''/bin/'' @ prog) = root @ ''/bin/'' @ prog"
    "take (PATH_MAX - 1) (root @ ''/bin'') = root @ ''/bin''" "take (PATH_MAX - 1) root = root"
    using assms by (auto simp: installed_def simp del: take_append)
  ultimately show ?thesis by (simp only: shell_roots_def option.case Let_def)
qed

lemma project_path_root: "installed root prog \<Longrightarrow> ho_root h = root \<Longrightarrow> length t < 20 \<Longrightarrow> project_path h t = root @ t"
  by (auto simp: project_path_def installed_def simp del: take_append)

lemma check_dir_keeps:
  assumes "check_dir sys name h s = (h', s')"
  shows "ho_files h' = ho_files h" "ho_root h' = ho_root h" "ho_bin h' = ho_bin h" "ho_opens h' = ho_opens h"
    "ho_ctime h' = ho_ctime h" "ho_mkdir h' = ho_mkdir h" "environ s' = environ s" "alist s' = alist s"
    "\<And>p. ho_exists h p \<Longrightarrow> ho_exists h' p" "sh_cwd s' = sh_cwd s"
  using assms by (auto simp: check_dir_def Let_def sh_perror_def sh_puts_def sh_fputs_err_def split: if_splits)

lemma check_dir_makes:
  assumes "check_dir sys name h s = (h', s')" and "ho_mkdir h (project_path h (CHR ''/'' # name))"
  shows "ho_exists h' (project_path h (CHR ''/'' # name))"
  using assms by (auto simp: check_dir_def Let_def split: if_splits)

lemma append_log_keeps [simp]:
  "ho_root (append_log t h) = ho_root h" "ho_bin (append_log t h) = ho_bin h" "ho_opens (append_log t h) = ho_opens h"
  "ho_ctime (append_log t h) = ho_ctime h" "ho_exists (append_log t h) = ho_exists h" "log_path (append_log t h) = log_path h"
  by (simp_all add: append_log_def log_path_def project_path_def)

lemma source_rc_files:
  assumes "source_rc sys root fs s = Some (go, fs', s')" and "p \<noteq> rc_path root"
  shows "fs' p = fs p"
  using assms by (auto simp: source_rc_def Let_def Option.bind_eq_Some_conv split: if_splits option.splits prod.splits)

lemma startup_steps:
  assumes "shell_roots exe = (root, bin)"
    and "check_dir sys ''tmp'' (h\<lparr>ho_root := root, ho_bin := bin\<rparr>) (shell_st s) = (h1, sh1)"
    and "check_dir sys ''archive'' h1 sh1 = (h2, sh2)"
  shows "startup sys exe now h s =
    Option.bind (source_rc sys root (ho_files (startup_log now h2)) (s\<lparr>shell_st := sh_puts clear_screen (add_bin_topath bin sh2)\<rparr>))
      (\<lambda>(go, fs, s). Some (go, (startup_log now h2)\<lparr>ho_files := fs\<rparr>, s))"
  using assms check_dir_keeps(2,3) [OF assms(2)] check_dir_keeps(2,3) [OF assms(3)]
  by (simp add: startup_def Let_def startup_log_def)

text \<open>The environment and the aliases of the shell when the start-up file is run.\<close>

lemma before_rc [simp]:
  "alist (add_bin_topath bin s) = alist s" "sh_cwd (add_bin_topath bin s) = sh_cwd s"
  "environ (sh_puts t s) = environ s"
  by (simp_all add: add_bin_topath_def sh_puts_def)

lemma search_path:
  "environ (add_bin_topath bin s) =
     snd (setenv ''PATH'' (take (PATH_MAX * 2 - 1) (bin @ '':'' @ (case getenv ''PATH'' (environ s) of None \<Rightarrow> [] | Some p \<Rightarrow> p))) (environ s))"
  by (simp add: add_bin_topath_def Let_def)

lemma startup_ok:
  assumes "system_ok sys" and "session_ok s"
  shows "\<exists>go h' s'. startup sys exe now h s = Some (go, h', s') \<and> session_ok s'"
proof -
  obtain root bin where r: "shell_roots exe = (root, bin)" by fastforce
  obtain h1 sh1 where 1: "check_dir sys ''tmp'' (h\<lparr>ho_root := root, ho_bin := bin\<rparr>) (shell_st s) = (h1, sh1)" by fastforce
  obtain h2 sh2 where 2: "check_dir sys ''archive'' h1 sh1 = (h2, sh2)" by fastforce
  have "session_ok (s\<lparr>shell_st := sh_puts clear_screen (add_bin_topath bin sh2)\<rparr>)"
    using assms(2) check_dir_keeps(8,10) [OF 1] check_dir_keeps(8,10) [OF 2] by (simp add: session_ok_def shell_ok_def)
  from source_rc_ok [OF assms(1) this, of root "ho_files (startup_log now h2)"] show ?thesis unfolding startup_steps [OF r 1 2] by fastforce
qed

lemma exit_handlers_ok:
  assumes "session_ok s"
  shows "\<exists>s'. exit_handlers later h s = Some (intentional_terminate_log later h, s')"
  using assms hist_free_effect [of "hist_st s"] by (simp add: exit_handlers_def session_ok_def hist_fits_def)

lemma shell_main_ok:
  assumes "system_ok sys" and "\<forall>round \<in> set rounds. system_ok (fst round)" and "session_ok s"
  shows "\<exists>r. shell_main sys exe now later rounds h s = Some r"
proof -
  from startup_ok [OF assms(1,3)] obtain go h1 s1 where 1: "startup sys exe now h s = Some (go, h1, s1)" "session_ok s1" by blast
  let ?s = "s1\<lparr>shell_st := sh_puts (''Welcome to the speedran shell - peky'' @ [NL]) (shell_st s1)\<rparr>"
  have "session_ok ?s" using 1(2) by (simp add: session_ok_def shell_ok_def)
  from shell_loop_ok [OF assms(2) this] obtain go2 s2 where 2: "shell_loop rounds ?s = Some (go2, s2)" "session_ok s2" by blast
  show ?thesis
    using 1 2 exit_handlers_ok [OF 1(2), of later h1] exit_handlers_ok [OF 2(2), of later h1]
    by (auto simp: shell_main_def)
qed

section \<open>Properties\<close>


text \<open>
  A run of the shell leaves exactly two entries in its log, at its start and, once it has
  ended, at its end, after what the log held before.
\<close>

theorem shell_run_logged:
  assumes "shell_main sys (Some (root @ ''/bin/'' @ prog)) now later rounds h s = Some (go, h', s')"
    and "installed root prog" and "ho_opens h (root @ ''/tmp/tetrish.log'')" and "ho_files h (root @ ''/tmp/tetrish.log'') = Some old"
  shows "ho_files h' (root @ ''/tmp/tetrish.log'') =
    Some (old @ ho_ctime h now @ ''Started speedrun cseshell (tetrish).'' @ [NL] @
      (if go then [] else ho_ctime h later @ ''Successfully terminated speedrun cseshell.'' @ [NL]))"
proof -
  note r = installed_roots [OF assms(2)]
  let ?log = "root @ ''/tmp/tetrish.log''"
  obtain h1 sh1 where 1: "check_dir sys ''tmp'' (h\<lparr>ho_root := root, ho_bin := root @ ''/bin''\<rparr>) (shell_st s) = (h1, sh1)" by fastforce
  obtain h2 sh2 where 2: "check_dir sys ''archive'' h1 sh1 = (h2, sh2)" by fastforce
  note k = check_dir_keeps [OF 1] check_dir_keeps [OF 2]
  have p: "log_path h2 = ?log" using project_path_root [OF assms(2), of h2 "''/tmp/tetrish.log''"] k by (simp add: log_path_def)
  let ?h = "startup_log now h2"
  from assms(1) obtain g fs s1 where
    rc: "source_rc sys root (ho_files ?h) (s\<lparr>shell_st := sh_puts clear_screen (add_bin_topath (root @ ''/bin'') sh2)\<rparr>) = Some (g, fs, s1)"
    and e: "h' = (if go then ?h\<lparr>ho_files := fs\<rparr> else intentional_terminate_log later (?h\<lparr>ho_files := fs\<rparr>))"
    unfolding shell_main_def startup_steps [OF r 1 2] exit_handlers_def Let_def
    by (auto simp: Option.bind_eq_Some_conv split: if_splits)
  have "?log \<noteq> rc_path root" by (simp add: rc_path_def)
  from source_rc_files [OF rc this] have "fs ?log = ho_files ?h ?log" .
  moreover have "ho_files ?h ?log = Some (old @ ho_ctime h now @ ''Started speedrun cseshell (tetrish).'' @ [NL])"
    using assms(3,4) k p by (simp add: startup_log_def append_log_def)
  moreover have "log_path (?h\<lparr>ho_files := fs\<rparr>) = ?log" using p by (simp add: log_path_def project_path_def startup_log_def)
  ultimately show ?thesis
    using assms(3) k e by (simp add: intentional_terminate_log_def append_log_def startup_log_def)
qed

text \<open>
  The first start prepares everything: without any start-up file, and if directories can be
  made, the shell goes on to its main loop with both directories there, an empty start-up file
  written, and the directory of its programs first in the search path.
\<close>

theorem first_start_prepares:
  assumes "session_ok s" and "installed root prog" and "ho_files h (rc_path root) = None"
    and "\<forall>home. getenv ''HOME'' (environ (shell_st s)) = Some home \<longrightarrow> ho_files h (rc_path home) = None"
    and "\<forall>p. ho_mkdir h p" and "getenv ''PATH'' (environ (shell_st s)) = Some old" and "length old < PATH_MAX"
  shows "\<exists>h' s'. startup sys (Some (root @ ''/bin/'' @ prog)) now h s = Some (True, h', s') \<and>
    ho_exists h' (root @ ''/tmp'') \<and> ho_exists h' (root @ ''/archive'') \<and> ho_files h' (rc_path root) = Some empty_rc \<and>
    getenv ''PATH'' (environ (shell_st s')) = Some (root @ ''/bin:'' @ old)"
proof -
  note r = installed_roots [OF assms(2)]
  obtain h1 sh1 where 1: "check_dir sys ''tmp'' (h\<lparr>ho_root := root, ho_bin := root @ ''/bin''\<rparr>) (shell_st s) = (h1, sh1)" by fastforce
  obtain h2 sh2 where 2: "check_dir sys ''archive'' h1 sh1 = (h2, sh2)" by fastforce
  note k = check_dir_keeps [OF 1] check_dir_keeps [OF 2]
  have p: "project_path g t = root @ t" if "ho_root g = root" "length t < 20" for g t
    using project_path_root [OF assms(2) that] .
  have dirs: "ho_exists h2 (root @ ''/tmp'')" "ho_exists h2 (root @ ''/archive'')"
    using check_dir_makes [OF 1] check_dir_makes [OF 2] assms(5) k by (simp_all add: p)
  let ?path = "take (PATH_MAX * 2 - 1) ((root @ ''/bin'') @ '':'' @ old)"
  let ?s = "s\<lparr>shell_st := sh_puts clear_screen (add_bin_topath (root @ ''/bin'') sh2)\<rparr>"
  have env: "environ (shell_st ?s) = env_put ''PATH'' ?path (environ (shell_st s))"
    using assms(6) k by (simp add: search_path setenv_def env_bad_name_def)
  have names: "name_ok ''PATH''" "name_ok ''HOME''" by (simp_all add: name_ok_def)
  have path: "getenv ''PATH'' (environ (shell_st ?s)) = Some (root @ ''/bin:'' @ old)"
    unfolding env using getenv_put [OF names(1,1)] assms(2,7) by (auto simp: installed_def simp del: take_append)
  have home: "getenv ''HOME'' (environ (shell_st ?s)) = getenv ''HOME'' (environ (shell_st s))"
    unfolding env using getenv_put [OF names(2,1)] by simp
  have log: "log_path h2 = root @ ''/tmp/tetrish.log''" using k by (simp add: log_path_def p)
  have rc: "ho_files (startup_log now h2) (rc_path dir) = ho_files h (rc_path dir)" for dir
  proof -
    have "last (rc_path dir) \<noteq> last (log_path h2)" by (simp add: rc_path_def log)
    then have "rc_path dir \<noteq> log_path h2" by metis
    then show ?thesis using k by (simp add: startup_log_def append_log_def)
  qed
  have "length (rc_path root) < PATH_MAX" using assms(2) by (auto simp: rc_path_def installed_def)
  then have "source_rc sys root (ho_files (startup_log now h2)) ?s =
      Some (True, (ho_files (startup_log now h2))(rc_path root \<mapsto> empty_rc), ?s)"
    using rc assms(3,4) home by (auto simp: source_rc_def Let_def split: option.split)
  then show ?thesis
    unfolding startup_steps [OF r 1 2] using dirs path by (simp add: startup_log_def)
qed

text \<open>A place to install the shell at.\<close>

definition sample_host :: host where
  "sample_host = \<lparr>ho_root = [], ho_bin = [], ho_exists = (\<lambda>_. False), ho_mkdir = (\<lambda>_. True),
     ho_files = Map.empty, ho_opens = (\<lambda>_. True), ho_ctime = (\<lambda>_. ''Mon'' @ [NL])\<rparr>"

definition sample_session :: session where
  "sample_session = new_session\<lparr>shell_st := empty_shell\<lparr>environ := [''PATH=/usr/bin'']\<rparr>\<rparr>"

lemma sample_installed: "installed ''/opt'' ''tetrish''"
  by (simp add: installed_def PATH_MAX_def)

lemma sample_session_ok: "session_ok sample_session"
  using new_session_ok by (simp add: sample_session_def session_ok_def shell_ok_def new_session_def empty_shell_def)


theorem first_start_prepares_witness:
  "\<exists>h' s'. startup no_system (Some (''/opt'' @ ''/bin/'' @ ''tetrish'')) 0 sample_host sample_session = Some (True, h', s') \<and>
    ho_exists h' (''/opt'' @ ''/tmp'') \<and> ho_exists h' (''/opt'' @ ''/archive'') \<and> ho_files h' (rc_path ''/opt'') = Some empty_rc \<and>
    getenv ''PATH'' (environ (shell_st s')) = Some (''/opt'' @ ''/bin:'' @ ''/usr/bin'')"
  by (rule first_start_prepares [OF sample_session_ok sample_installed])
     (simp_all add: sample_host_def sample_session_def empty_shell_def entry_of_def PATH_MAX_def)

theorem shell_run_logged_witness:
  "\<exists>go h' s'. shell_main no_system (Some (''/opt'' @ ''/bin/'' @ ''tetrish'')) 0 1 [(no_system, no_files, ''exit'' @ [NL])]
      (sample_host\<lparr>ho_files := [''/opt'' @ ''/tmp/tetrish.log'' \<mapsto> ''old'' @ [NL]]\<rparr>) sample_session = Some (go, h', s') \<and>
    ho_files h' (''/opt'' @ ''/tmp/tetrish.log'') =
      Some ((''old'' @ [NL]) @ (''Mon'' @ [NL]) @ ''Started speedrun cseshell (tetrish).'' @ [NL] @
        (if go then [] else (''Mon'' @ [NL]) @ ''Successfully terminated speedrun cseshell.'' @ [NL]))"
proof -
  let ?h = "sample_host\<lparr>ho_files := [''/opt'' @ ''/tmp/tetrish.log'' \<mapsto> ''old'' @ [NL]]\<rparr>"
  obtain go h' s' where r: "shell_main no_system (Some (''/opt'' @ ''/bin/'' @ ''tetrish'')) 0 1 [(no_system, no_files, ''exit'' @ [NL])]
      ?h sample_session = Some (go, h', s')"
    using shell_main_ok [OF no_system_ok _ sample_session_ok] no_system_ok by (metis (no_types, lifting) prod_cases3 fst_conv list.set(1,2) empty_iff insert_iff)
  from shell_run_logged [OF r sample_installed, of "''old'' @ [NL]"] r show ?thesis by (auto simp: sample_host_def)
qed

end
