(* ===== verification/Plant.thy ===== *)
theory Plant
  imports Cstring
begin

text \<open>
  The plant daemon (\<open>src/tetrish/system_programs/dplant.c\<close>): the statistics of a plant and
  their state file, the registry of daemons, the lock file, the cycle of the daemon, its
  death, and the command line.  The world of the processes is the record \<open>plant_world\<close>: text
  files, state files (each holds the image of the statistics; a file that is too short counts
  as missing), which opens succeed, which processes live, and the lock.  Readings of the
  clock are arguments of the functions; the messages of one round of the daemon carry the
  same time.  Of what is printed on the terminal only the statistics are modelled; allocation
  and forking are assumed to succeed.  Computations on \<open>int\<close> are undefined outside 32 bits.
\<close>

section \<open>State\<close>

record PlantStats =
  waterlevel :: int
  health :: int
  level :: int
  last_watered :: int
  last_updated :: int

record plant_world =
  pw_root :: string
  pw_files :: "string \<rightharpoonup> string"
  pw_states :: "string \<rightharpoonup> PlantStats"
  pw_opens :: "string \<Rightarrow> bool"
  pw_live :: "int \<Rightarrow> bool"
  pw_kills :: "int \<Rightarrow> bool"  \<comment> \<open>whether a signal to the process is permitted\<close>
  pw_pid :: int
  pw_ctime :: "int \<Rightarrow> string"  \<comment> \<open>the text of \<open>ctime\<close>, ending in a newline\<close>
  pw_taken :: "string \<Rightarrow> bool"  \<comment> \<open>lock files locked by another process\<close>
  pw_held :: "string option"  \<comment> \<open>the lock file this process has locked\<close>
  plant_lock_fd :: int

definition c_int :: "int \<Rightarrow> int option" where
  "c_int k = (if - (2 ^ 31) \<le> k \<and> k < 2 ^ 31 then Some k else None)"

section \<open>Paths\<close>

definition tmp_path :: "plant_world \<Rightarrow> string \<Rightarrow> string" where
  "tmp_path w t = pw_root w @ ''/tmp/'' @ t"

definition lock_path :: "plant_world \<Rightarrow> string \<Rightarrow> string" where
  "lock_path w name = tmp_path w (''plant_'' @ name @ ''.lock'')"

definition state_path :: "plant_world \<Rightarrow> string \<Rightarrow> string" where
  "state_path w name = tmp_path w (name @ ''.state'')"

text \<open>Paths built with \<open>strncpy\<close> and \<open>strncat\<close> are cut off at the size of the buffer.\<close>

definition cut_path :: "plant_world \<Rightarrow> string \<Rightarrow> string" where
  "cut_path w t = take (PATH_MAX - 1) (tmp_path w t)"

abbreviation reg_path :: "plant_world \<Rightarrow> string" where "reg_path w \<equiv> cut_path w ''daemons.reg''"
abbreviation log_file_path :: "plant_world \<Rightarrow> string" where "log_file_path w \<equiv> cut_path w ''dspawn.log''"
abbreviation grave_path :: "plant_world \<Rightarrow> string" where "grave_path w \<equiv> cut_path w ''cematary.reg''"

definition append_text :: "string \<Rightarrow> string \<Rightarrow> plant_world \<Rightarrow> plant_world" where
  "append_text path t w =
     w\<lparr>pw_files := (pw_files w)(path \<mapsto> (case pw_files w path of None \<Rightarrow> t | Some old \<Rightarrow> old @ t))\<rparr>"

text \<open>\<open>fopen\<close> for reading: nothing when the file is missing or cannot be opened.\<close>

definition read_text :: "string \<Rightarrow> plant_world \<Rightarrow> string option" where
  "read_text path w = (if pw_opens w path then pw_files w path else None)"

definition append_line :: "string \<Rightarrow> string \<Rightarrow> plant_world \<Rightarrow> plant_world" where
  "append_line path t w = (if pw_opens w path then append_text path t w else w)"

section \<open>The lock\<close>

definition plant_lock :: "string \<Rightarrow> plant_world \<Rightarrow> bool \<times> plant_world" where
  "plant_lock name w =
     (let lock = lock_path w name in
      if \<not> pw_opens w lock then (False, w\<lparr>plant_lock_fd := - 1\<rparr>)
      else
        let w = w\<lparr>plant_lock_fd := 3, pw_files := (pw_files w)(lock \<mapsto> (case pw_files w lock of None \<Rightarrow> [] | Some t \<Rightarrow> t))\<rparr>
        in if pw_taken w lock then (False, w) else (True, w\<lparr>pw_held := Some lock\<rparr>))"

definition unlock_plant :: "plant_world \<Rightarrow> plant_world" where
  "unlock_plant w = (if plant_lock_fd w \<noteq> - 1 then w\<lparr>pw_held := None\<rparr> else w)"

text \<open>
  The grandchild goes on with a new process number.  It closes every descriptor, the one of
  the lock included, so the lock is released; the variable keeps the old number.
\<close>

definition spawn_plant :: "int \<Rightarrow> plant_world \<Rightarrow> plant_world" where
  "spawn_plant pid w = w\<lparr>pw_pid := pid, pw_live := (pw_live w)(pid := True), pw_held := None\<rparr>"

section \<open>Log and registry\<close>

definition daemon_spawn_log :: "string \<Rightarrow> int \<Rightarrow> plant_world \<Rightarrow> plant_world" where
  "daemon_spawn_log name now w =
     append_line (log_file_path w)
       (''['' @ name @ ''] Spawned dplant daemon '' @ pw_ctime w now @ '' [PID='' @ dec_int (pw_pid w) @ ''].'' @ [NL]) w"

definition daemon_log :: "string \<Rightarrow> int \<Rightarrow> plant_world \<Rightarrow> plant_world" where
  "daemon_log msg now w =
     append_line (log_file_path w)
       (pw_ctime w now @ ''Logging dspawn daemon ['' @ dec_int (pw_pid w) @ ''] message: '' @ msg @ ''.'' @ [NL]) w"

definition fmt_reg :: "directive list" where
  "fmt_reg = [ConvS (Some 63), Space, ConvD, Space, ConvLine (Some 127)]"

fun reg_entry :: "string \<Rightarrow> (string \<times> int \<times> string) option" where
  "reg_entry line =
     (case sscanf fmt_reg (cstr line) of [SStr n, SInt pid, SStr ts] \<Rightarrow> Some (n, pid, ts) | _ \<Rightarrow> None)"

text \<open>\<open>room\<close> is the size of the line buffer less one.\<close>

definition reg_entries :: "nat \<Rightarrow> string \<Rightarrow> (string \<times> int \<times> string) list" where
  "reg_entries room t = List.map_filter reg_entry (fgets_all room t)"

definition is_daemon_registered :: "string \<Rightarrow> plant_world \<Rightarrow> bool" where
  "is_daemon_registered name w =
     (case read_text (reg_path w) w of
        None \<Rightarrow> False
      | Some t \<Rightarrow> list_ex (\<lambda>(n, _, _). n = name) (reg_entries 255 t))"

definition stamp :: "plant_world \<Rightarrow> int \<Rightarrow> string" where
  "stamp w now = takeWhile (\<lambda>c. c \<noteq> NL) (pw_ctime w now)"

definition reg_line :: "string \<Rightarrow> int \<Rightarrow> string \<Rightarrow> string" where
  "reg_line name pid ts = name @ '' '' @ dec_int pid @ '' '' @ ts @ [NL]"

definition daemon_register :: "string \<Rightarrow> int \<Rightarrow> plant_world \<Rightarrow> plant_world" where
  "daemon_register name now w =
     (if is_daemon_registered name w then w
      else append_line (reg_path w) (reg_line name (pw_pid w) (stamp w now)) w)"

definition is_plant_running :: "string \<Rightarrow> plant_world \<Rightarrow> bool" where
  "is_plant_running name w =
     (case read_text (reg_path w) w of
        None \<Rightarrow> False
      | Some t \<Rightarrow> list_ex (\<lambda>(n, pid, _). n = name \<and> pw_live w pid) (reg_entries 255 t))"

section \<open>The state file\<close>

definition plant_init_state :: "string \<Rightarrow> int \<Rightarrow> int \<Rightarrow> plant_world \<Rightarrow> int \<times> PlantStats \<times> plant_world" where
  "plant_init_state name now1 now2 w =
     (let plant = \<lparr>waterlevel = 100, health = 100, level = 1, last_watered = now1, last_updated = now2\<rparr>;
          path = cut_path w (name @ ''.state'')
      in if \<not> pw_opens w path then (- 1, plant, w)
         else (0, plant, w\<lparr>pw_states := (pw_states w)(path \<mapsto> plant)\<rparr>))"

definition plant_save :: "string \<Rightarrow> PlantStats \<Rightarrow> plant_world \<Rightarrow> plant_world" where
  "plant_save name plant w =
     (let path = state_path w name in
      if \<not> pw_opens w path then w else w\<lparr>pw_states := (pw_states w)(path \<mapsto> plant)\<rparr>)"

definition plant_load :: "string \<Rightarrow> plant_world \<Rightarrow> PlantStats option" where
  "plant_load name w =
     (let path = state_path w name in if pw_opens w path then pw_states w path else None)"

definition plant_water :: "string \<Rightarrow> int \<Rightarrow> plant_world \<Rightarrow> plant_world option" where
  "plant_water name now w =
     (case plant_load name w of
        None \<Rightarrow> Some w
      | Some plant \<Rightarrow> do {
          more \<leftarrow> c_int (waterlevel plant + 20);
          Some (plant_save name
            (plant\<lparr>waterlevel := (if more > 99 then 100 else more), last_watered := now, last_updated := now\<rparr>) w)
        })"

text \<open>What \<open>dplant name stats\<close> prints; \<open>None\<close> is the message that there is no state.\<close>

definition stats_text :: "plant_world \<Rightarrow> string \<Rightarrow> PlantStats \<Rightarrow> string" where
  "stats_text w name p =
     ''Plant:                     '' @ name @ [NL] @
     ''Water Level:               '' @ dec_int (waterlevel p) @ [NL] @
     ''Health:                    '' @ dec_int (health p) @ [NL] @
     ''Level:                     '' @ dec_int (level p) @ [NL] @
     ''Last Watered:              '' @ pw_ctime w (last_watered p) @
     ''Last Updated:              '' @ pw_ctime w (last_updated p)"

definition plant_stats :: "string \<Rightarrow> plant_world \<Rightarrow> string option" where
  "plant_stats name w = map_option (stats_text w name) (plant_load name w)"

section \<open>Death\<close>

definition MAX_DAEMONS :: nat where "MAX_DAEMONS = 64"

record DaemonInfo =
  di_name :: string
  di_pid :: int
  di_timestamp :: string

text \<open>Lines of the graveyard that start with the name and a blank or a dot.\<close>

definition grave_line :: "string \<Rightarrow> string \<Rightarrow> bool" where
  "grave_line name line = (prefix (name @ '' '') line \<or> prefix (name @ ''.'') line)"

definition grave_count :: "string \<Rightarrow> plant_world \<Rightarrow> nat" where
  "grave_count name w =
     (case read_text (grave_path w) w of
        None \<Rightarrow> 0
      | Some t \<Rightarrow> length (filter (grave_line name \<circ> cstr) (fgets_all 1023 t)))"

definition add_to_graveyard :: "DaemonInfo \<Rightarrow> int \<Rightarrow> plant_world \<Rightarrow> plant_world" where
  "add_to_graveyard rip now w =
     (let count = grave_count (di_name rip) w;
          modified_name = take 127 (if count = 0 then di_name rip else di_name rip @ ''.'' @ dec count)
      in append_line (grave_path w) (reg_line modified_name (di_pid rip) (stamp w now)) w)"

fun live_daemons :: "(int \<Rightarrow> bool) \<Rightarrow> (string \<times> int \<times> string) list \<Rightarrow> DaemonInfo list \<Rightarrow> DaemonInfo list" where
  "live_daemons live [] ds = ds"
| "live_daemons live ((n, pid, ts) # es) ds =
     (if length ds < MAX_DAEMONS
      then live_daemons live es (if live pid then ds @ [\<lparr>di_name = n, di_pid = pid, di_timestamp = ts\<rparr>] else ds)
      else ds)"

text \<open>
  Killing the daemons of a name.  A signal to the process itself ends it before \<open>kill\<close>
  returns; the flag says whether it still runs.
\<close>

fun kill_named :: "string \<Rightarrow> int \<Rightarrow> DaemonInfo list \<Rightarrow> plant_world \<Rightarrow> bool \<times> plant_world" where
  "kill_named name now [] w = (True, w)"
| "kill_named name now (d # ds) w =
     (if di_name d \<noteq> name then kill_named name now ds w
      else if pw_kills w (di_pid d)
        then if di_pid d = pw_pid w then (False, w\<lparr>pw_live := (pw_live w)(di_pid d := False)\<rparr>)
          else kill_named name now ds (add_to_graveyard d now (w\<lparr>pw_live := (pw_live w)(di_pid d := False)\<rparr>))
      else kill_named name now ds w)"

definition dkill_auto :: "string \<Rightarrow> int \<Rightarrow> plant_world \<Rightarrow> bool \<times> plant_world" where
  "dkill_auto name now w =
     (case read_text (reg_path w) w of
        None \<Rightarrow> (True, w)
      | Some t \<Rightarrow> kill_named name now (live_daemons (pw_live w) (reg_entries 1023 t) []) w)"

text \<open>
  The buffer for the path of the lock file has no room for the null, so \<open>snprintf\<close> drops the
  last character of the path that is removed.
\<close>

definition plant_died :: "string \<Rightarrow> int \<Rightarrow> plant_world \<Rightarrow> plant_world" where
  "plant_died name now w =
     (let w = daemon_log ''HP has hit 0, plant has died'' now w;
          w = daemon_log ''Natural plant death, died from hitting HP 0'' now w;
          w = (if plant_lock_fd w \<noteq> - 1
               then let path = lock_path w name; cut = take (length path - 1) path
                    in w\<lparr>pw_held := None, pw_files := (pw_files w)(cut := None)\<rparr>
               else w);
          (running, w) = dkill_auto name now w
      in if running then w\<lparr>pw_live := (pw_live w)(pw_pid w := False)\<rparr> else w)"

section \<open>The cycle\<close>

definition plant_update :: "int \<Rightarrow> PlantStats \<Rightarrow> PlantStats option" where
  "plant_update seconds_passed p = do {
     wl \<leftarrow> c_int (waterlevel p - seconds_passed div 60 * 5);
     let wl = (if wl < 0 then 0 else wl);
     hp \<leftarrow> (if wl = 0 then c_int (health p - 5)
           else Some (if wl > 80 \<and> health p < 100 then health p + 1 else health p));
     lv \<leftarrow> (if hp > 95 \<and> wl > 95 then c_int (level p + 1) else Some (level p));
     Some (p\<lparr>waterlevel := wl, health := hp, level := lv\<rparr>)
   }"

text \<open>
  One round of the loop of \<open>daemon_work\<close>: the statistics the daemon keeps and whether it
  goes on.
\<close>

definition daemon_cycle :: "string \<Rightarrow> int \<Rightarrow> int \<Rightarrow> PlantStats \<Rightarrow> plant_world \<Rightarrow> (bool \<times> PlantStats \<times> plant_world) option" where
  "daemon_cycle name now later p w = do {
     seconds_passed \<leftarrow> c_int (now - last_updated p);
     (p, w) \<leftarrow>
       (if seconds_passed \<ge> 60 then do {
          p \<leftarrow> plant_update seconds_passed p;
          let p = p\<lparr>last_updated := now\<rparr>;
          Some (p, daemon_log ''one plant cycle, state updated'' later (plant_save name p w))
        } else Some (p, w));
     if health p \<le> 0 then Some (False, p, plant_died name later w) else Some (True, p, w)
   }"

text \<open>From here on \<open>clk i\<close> is the \<open>i\<close>-th reading of the clock.\<close>

definition daemon_start :: "string \<Rightarrow> (nat \<Rightarrow> int) \<Rightarrow> plant_world \<Rightarrow> PlantStats option \<times> plant_world" where
  "daemon_start name clk w =
     (case plant_load name w of
        Some p \<Rightarrow> (Some p, w)
      | None \<Rightarrow>
          let w = daemon_log ''Initializing new plant state'' (clk 3) w;
              (rc, p, w) = plant_init_state name (clk 4) (clk 5) w
          in if rc \<noteq> 0 then (None, daemon_log ''Initializing new plant state'' (clk 6) w) else (Some p, w))"

section \<open>The command line\<close>

text \<open>
  What a call of the program leaves running: a daemon with its statistics, or nothing, with
  the exit status.  \<open>pid\<close> is the number of the daemon if one is spawned.
\<close>

datatype plant_result = Daemon PlantStats | Status int

definition enter_daemon :: "string \<Rightarrow> (nat \<Rightarrow> int) \<Rightarrow> int \<Rightarrow> string \<Rightarrow> plant_world \<Rightarrow> plant_result \<times> plant_world" where
  "enter_daemon name clk pid msg w =
     (let w = spawn_plant pid w;
          w = daemon_register name (clk 0) w;
          w = daemon_spawn_log name (clk 1) w;
          w = daemon_log msg (clk 2) w;
          (p, w) = daemon_start name clk w
      in case p of Some p \<Rightarrow> (Daemon p, w) | None \<Rightarrow> (Status 1, w))"

definition respawn_plant :: "string \<Rightarrow> (nat \<Rightarrow> int) \<Rightarrow> int \<Rightarrow> plant_world \<Rightarrow> plant_result \<times> plant_world" where
  "respawn_plant name clk pid w =
     (if is_plant_running name w then (Status 0, w)
      else if \<not> is_daemon_registered name w then (Status 0, w)
      else enter_daemon name clk pid ''respawned dplant'' w)"

text \<open>A process that ends gives its lock back.\<close>

definition plant_main :: "string list \<Rightarrow> (nat \<Rightarrow> int) \<Rightarrow> int \<Rightarrow> plant_world \<Rightarrow> (plant_result \<times> plant_world) option" where
  "plant_main args clk pid w =
     (case args of
        [name] \<Rightarrow>
          if is_plant_running name w then Some (Status 1, w)
          else let (locked, w) = plant_lock name w in
            if \<not> locked then Some (Status 1, w)
            else if \<not> is_daemon_registered name w then Some (enter_daemon name clk pid ''dplant daemon started'' w)
            else Some (Status 1, w\<lparr>pw_held := None\<rparr>)
      | [name, cmd] \<Rightarrow>
          if \<not> is_plant_running name w \<and> cmd \<noteq> ''respawn'' then Some (Status 1, w)
          else if cmd = ''respawn'' then Some (respawn_plant name clk pid w)
          else if cmd = ''water'' then do { w \<leftarrow> plant_water name (clk 0) w; Some (Status 0, w) }
          else if cmd = ''stats'' then Some (Status 0, w)
          else Some (Status 1, w)
      | _ \<Rightarrow> Some (Status 1, w))"

end
