(* ===== verification/Plant_Laws.thy ===== *)
theory Plant_Laws
  imports Plant
begin

text \<open>
  Properties of the plant daemon: the range of its statistics, the independence of the daemon
  from the watering command, its death, and the registry and the lock around it.
\<close>

section \<open>The statistics\<close>

text \<open>The statistics a daemon and a state file can hold; \<open>n\<close> rounds cannot overflow the level.\<close>

definition stats_ok :: "nat \<Rightarrow> PlantStats \<Rightarrow> bool" where
  "stats_ok n p =
     (0 \<le> waterlevel p \<and> waterlevel p \<le> 100 \<and> 0 < health p \<and> health p \<le> 100 \<and>
      0 \<le> level p \<and> level p + int n < 2 ^ 31 \<and> 0 \<le> last_updated p \<and> last_updated p < 2 ^ 31)"

definition dead :: "PlantStats \<Rightarrow> bool" where
  "dead p = (health p \<le> 0)"

lemma c_int_Some: "- (2 ^ 31) \<le> k \<Longrightarrow> k < 2 ^ 31 \<Longrightarrow> c_int k = Some k"
  by (simp add: c_int_def)

text \<open>What a round does to the statistics alone.\<close>

definition round_stats :: "int \<Rightarrow> PlantStats \<Rightarrow> PlantStats option" where
  "round_stats now p = do {
     seconds_passed \<leftarrow> c_int (now - last_updated p);
     if seconds_passed \<ge> 60 then do { p \<leftarrow> plant_update seconds_passed p; Some (p\<lparr>last_updated := now\<rparr>) } else Some p
   }"

lemma daemon_cycle_stats:
  "map_option (\<lambda>(go, p, w). (go, p)) (daemon_cycle name now later p w) =
   map_option (\<lambda>p. (\<not> dead p, p)) (round_stats now p)"
  by (auto simp: daemon_cycle_def round_stats_def dead_def Let_def split: bind_splits)

lemma plant_update_ok:
  assumes "stats_ok (Suc n) p" and "60 \<le> secs" and "secs < 2 ^ 31"
  shows "\<exists>p'. plant_update secs p = Some p' \<and> last_updated p' = last_updated p \<and> level p' \<le> level p + 1 \<and> 0 \<le> level p' \<and>
    waterlevel p' = max 0 (waterlevel p - secs div 60 * 5) \<and>
    health p' = (if waterlevel p' = 0 then health p - 5
      else if waterlevel p' > 80 \<and> health p < 100 then health p + 1 else health p)"
proof -
  have q: "1 \<le> secs div 60" "secs div 60 \<le> 2 ^ 31" using assms(2,3) by (auto intro: div_le_dividend order_trans)
  have secs: "secs div 60 * 5 \<le> 2 ^ 31 - 1" using assms(3) by simp
  have wl: "c_int (waterlevel p - secs div 60 * 5) = Some (waterlevel p - secs div 60 * 5)"
    using assms(1) q(1) secs by (intro c_int_Some) (auto simp: stats_ok_def)
  have hp: "c_int (health p - 5) = Some (health p - 5)" and lv: "c_int (level p + 1) = Some (level p + 1)"
    using assms(1) by (auto intro!: c_int_Some simp: stats_ok_def)
  show ?thesis
    using assms(1) by (auto simp: plant_update_def wl hp lv Let_def stats_ok_def max_def)
qed

lemma round_stats_ok:
  assumes "stats_ok (Suc n) p" and "0 \<le> now" and "now < 2 ^ 31"
  shows "\<exists>p'. round_stats now p = Some p' \<and> (dead p' \<or> stats_ok n p') \<and> 0 \<le> waterlevel p' \<and> waterlevel p' \<le> 100 \<and> health p' \<le> 100"
proof -
  have secs: "c_int (now - last_updated p) = Some (now - last_updated p)"
    using assms by (intro c_int_Some) (auto simp: stats_ok_def)
  show ?thesis
  proof (cases "now - last_updated p \<ge> 60")
    case True
    have "now - last_updated p < 2 ^ 31" using assms by (auto simp: stats_ok_def)
    from plant_update_ok [OF assms(1) True this] obtain p' where p':
      "plant_update (now - last_updated p) p = Some p'" "level p' \<le> level p + 1" "0 \<le> level p'"
      "waterlevel p' = max 0 (waterlevel p - (now - last_updated p) div 60 * 5)"
      "health p' = (if waterlevel p' = 0 then health p - 5
        else if waterlevel p' > 80 \<and> health p < 100 then health p + 1 else health p)"
      by blast
    have "1 \<le> (now - last_updated p) div 60" using True by simp
    then have wl: "0 \<le> waterlevel p'" "waterlevel p' \<le> 100" using p'(4) assms(1) by (auto simp: stats_ok_def)
    have hp: "health p' \<le> 100" using p'(5) assms(1) by (auto simp: stats_ok_def)
    have "dead p' \<or> stats_ok n (p'\<lparr>last_updated := now\<rparr>)"
      using p'(2,3) wl hp assms by (auto simp: stats_ok_def dead_def)
    then show ?thesis using p'(1) secs True wl hp by (simp add: round_stats_def dead_def)
  next
    case False
    then show ?thesis using secs assms(1) by (auto simp: round_stats_def stats_ok_def)
  qed
qed

section \<open>Runs\<close>

text \<open>
  What happens while a daemon runs: its own rounds (with the time of the round and of its
  messages), watering commands, and changes of which files can be opened.
\<close>

datatype plant_event = Round int int | Water int | Access "string \<Rightarrow> bool"

fun plant_run :: "string \<Rightarrow> plant_event list \<Rightarrow> PlantStats \<Rightarrow> plant_world \<Rightarrow> (bool \<times> PlantStats \<times> plant_world) option" where
  "plant_run name [] p w = Some (True, p, w)"
| "plant_run name (Round now later # es) p w = do {
     (go, p, w) \<leftarrow> daemon_cycle name now later p w;
     if go then plant_run name es p w else Some (False, p, w)
   }"
| "plant_run name (Water now # es) p w = do { w \<leftarrow> plant_water name now w; plant_run name es p w }"
| "plant_run name (Access f # es) p w = plant_run name es p (w\<lparr>pw_opens := f\<rparr>)"

fun round_times :: "plant_event list \<Rightarrow> int list" where
  "round_times [] = []"
| "round_times (Round now later # es) = now # round_times es"
| "round_times (_ # es) = round_times es"

fun run_stats :: "int list \<Rightarrow> PlantStats \<Rightarrow> (bool \<times> PlantStats) option" where
  "run_stats [] p = Some (True, p)"
| "run_stats (now # ts) p = do {
     p \<leftarrow> round_stats now p;
     if dead p then Some (False, p) else run_stats ts p
   }"

definition file_ok :: "string \<Rightarrow> plant_world \<Rightarrow> bool" where
  "file_ok name w = (\<forall>p. pw_states w (state_path w name) = Some p \<longrightarrow> 0 \<le> waterlevel p \<and> waterlevel p \<le> 100)"

lemma state_path_update [simp]:
  "state_path (w\<lparr>pw_states := x\<rparr>) n = state_path w n" "state_path (w\<lparr>pw_opens := f\<rparr>) n = state_path w n"
  "state_path (w\<lparr>pw_files := y\<rparr>) n = state_path w n"
  by (simp_all add: state_path_def tmp_path_def)

lemma file_ok_access [simp]: "file_ok name (w\<lparr>pw_opens := f\<rparr>) = file_ok name w"
  by (simp add: file_ok_def)

lemma file_ok_log [simp]: "file_ok name (daemon_log msg now w) = file_ok name w"
  by (simp add: daemon_log_def append_line_def append_text_def file_ok_def)

lemma file_ok_save: "file_ok name w \<Longrightarrow> 0 \<le> waterlevel p \<Longrightarrow> waterlevel p \<le> 100 \<Longrightarrow> file_ok name (plant_save name p w)"
  by (simp add: plant_save_def file_ok_def Let_def)

lemma plant_water_ok:
  assumes "file_ok name w"
  shows "\<exists>w'. plant_water name now w = Some w' \<and> file_ok name w'"
proof (cases "plant_load name w")
  case None
  then show ?thesis using assms by (simp add: plant_water_def)
next
  case (Some p)
  then have p: "0 \<le> waterlevel p" "waterlevel p \<le> 100"
    using assms by (auto simp: plant_load_def file_ok_def Let_def split: if_splits)
  then have "c_int (waterlevel p + 20) = Some (waterlevel p + 20)" by (simp add: c_int_Some)
  then show ?thesis using Some assms p by (auto simp: plant_water_def intro!: file_ok_save)
qed

lemma daemon_cycle_file:
  assumes "file_ok name w" and "daemon_cycle name now later p w = Some (True, p', w')"
    and "0 \<le> waterlevel p'" and "waterlevel p' \<le> 100"
  shows "file_ok name w'"
  using assms by (auto simp: daemon_cycle_def Let_def file_ok_save split: bind_splits if_splits)

text \<open>A run shows the statistics of its rounds alone, whatever the other events are.\<close>

lemma plant_run_stats:
  assumes "file_ok name w" and "stats_ok (length (round_times es)) p"
    and "list_all (\<lambda>t. 0 \<le> t \<and> t < 2 ^ 31) (round_times es)"
  shows "\<exists>go p' w'. plant_run name es p w = Some (go, p', w') \<and> run_stats (round_times es) p = Some (go, p') \<and>
    (go \<longrightarrow> stats_ok 0 p') \<and> 0 \<le> waterlevel p' \<and> waterlevel p' \<le> 100 \<and> health p' \<le> 100"
  using assms
proof (induction name es p w rule: plant_run.induct)
  case (1 name p w)
  then show ?case by (auto simp: stats_ok_def)
next
  case (2 name now later es p w)
  then obtain p' where p': "round_stats now p = Some p'" "dead p' \<or> stats_ok (length (round_times es)) p'"
    "0 \<le> waterlevel p'" "waterlevel p' \<le> 100" "health p' \<le> 100"
    using round_stats_ok [of "length (round_times es)" p now] by auto
  with daemon_cycle_stats [of name now later p w] obtain w' where
    c: "daemon_cycle name now later p w = Some (\<not> dead p', p', w')" by auto
  show ?case
  proof (cases "dead p'")
    case True
    then show ?thesis using c p' by auto
  next
    case False
    then have "file_ok name w'" using daemon_cycle_file [OF "2.prems"(1)] c p' by auto
    then show ?thesis using "2.IH" [OF c refl refl] False p' "2.prems"(3) c by auto
  qed
next
  case (3 name now es p w)
  then obtain w' where "plant_water name now w = Some w'" "file_ok name w'" using plant_water_ok by blast
  then show ?case using "3.IH" [of w'] "3.prems" by simp
next
  case (4 name f es p w)
  then show ?case by simp
qed

section \<open>Death\<close>

text \<open>The rounds a plant survives at most.\<close>

definition rounds_left :: "PlantStats \<Rightarrow> nat" where
  "rounds_left p =
     (if waterlevel p = 0 then nat ((health p + 4) div 5) else nat ((waterlevel p + 4) div 5) + 19)"

text \<open>
  The loop sleeps ten seconds between its rounds: their times do not go back, and each is at
  most \<open>gap\<close> seconds after the one before.
\<close>

fun paced :: "int \<Rightarrow> int \<Rightarrow> int list \<Rightarrow> bool" where
  "paced gap t0 [] = True"
| "paced gap t0 (t # ts) = (t0 \<le> t \<and> t \<le> t0 + gap \<and> paced gap t ts)"

lemma round_wears:
  assumes "stats_ok (Suc n) p" and "last_updated p + 60 \<le> now" and "now < 2 ^ 31"
  shows "\<exists>p'. round_stats now p = Some p' \<and> (dead p' \<or> (stats_ok n p' \<and> last_updated p' = now \<and> rounds_left p' < rounds_left p))"
proof -
  let ?s = "now - last_updated p"
  have s: "60 \<le> ?s" "?s < 2 ^ 31" using assms by (auto simp: stats_ok_def)
  have d: "5 \<le> ?s div 60 * 5" using s(1) by simp
  have c: "c_int ?s = Some ?s" using s by (intro c_int_Some) auto
  from plant_update_ok [OF assms(1) s] obtain p' where p': "plant_update ?s p = Some p'"
    "waterlevel p' = max 0 (waterlevel p - ?s div 60 * 5)"
    "health p' = (if waterlevel p' = 0 then health p - 5
        else if waterlevel p' > 80 \<and> health p < 100 then health p + 1 else health p)"
    by blast
  have r: "round_stats now p = Some (p'\<lparr>last_updated := now\<rparr>)" using c s(1) p'(1) by (simp add: round_stats_def)
  have "0 \<le> now" using assms s(1) by (auto simp: stats_ok_def)
  from round_stats_ok [OF assms(1) this assms(3)] r have
    ok: "dead (p'\<lparr>last_updated := now\<rparr>) \<or> stats_ok n (p'\<lparr>last_updated := now\<rparr>)" by auto
  have "rounds_left (p'\<lparr>last_updated := now\<rparr>) < rounds_left p" if "\<not> dead p'"
  proof -
    have wp: "0 \<le> waterlevel p" "waterlevel p \<le> 100" "health p \<le> 100" using assms(1) by (auto simp: stats_ok_def)
    show ?thesis
    proof (cases "waterlevel p' = 0")
      case True
      then have "health p' = health p - 5" "0 < health p'" using p'(3) that by (auto simp: dead_def)
      moreover have "(health p - 1) div 5 \<le> 19" using wp(3) by simp
      moreover have "1 \<le> (waterlevel p + 4) div 5" if "waterlevel p \<noteq> 0" using wp(1) that by simp
      ultimately show ?thesis using True wp by (auto simp: rounds_left_def)
    next
      case False
      then have "waterlevel p' \<le> waterlevel p - 5" "0 < waterlevel p'" using p'(2) d by auto
      then show ?thesis by (auto simp: rounds_left_def)
    qed
  qed
  with r ok show ?thesis by (auto simp: dead_def)
qed

lemma round_idle:
  assumes "stats_ok n p" and "last_updated p \<le> now" and "now < last_updated p + 60"
  shows "round_stats now p = Some p"
  using assms by (simp add: round_stats_def stats_ok_def c_int_Some)

lemma rounds_left_pos: "stats_ok n p \<Longrightarrow> 0 < rounds_left p"
  by (auto simp: rounds_left_def stats_ok_def)

lemma stats_ok_less: "stats_ok (Suc n) p \<Longrightarrow> stats_ok n p"
  by (simp add: stats_ok_def)

text \<open>A plant with \<open>k\<close> rounds left has at most \<open>k\<close> times a minute and a gap to live.\<close>

lemma run_stats_dies:
  assumes "stats_ok (length ts) p" and "paced gap t ts" and "list_all (\<lambda>t. t < 2 ^ 31) ts"
    and "last_updated p \<le> t" and "t < last_updated p + 60" and "0 \<le> gap"
    and "last_updated p + int (rounds_left p) * (60 + gap) \<le> last (t # ts)"
  shows "\<exists>p'. run_stats ts p = Some (False, p')"
  using assms
proof (induction ts arbitrary: p t)
  case Nil
  have "60 + gap \<le> int (rounds_left p) * (60 + gap)"
    using rounds_left_pos [OF Nil.prems(1)] Nil.prems(6) mult_right_mono [of 1 "int (rounds_left p)" "60 + gap"] by simp
  moreover have "last_updated p + int (rounds_left p) * (60 + gap) \<le> t" using Nil.prems(7) by simp
  ultimately have False using Nil.prems(5,6) by linarith
  then show ?case ..
next
  case (Cons u ts)
  have u: "t \<le> u" "u \<le> t + gap" "paced gap u ts" using Cons.prems(2) by simp_all
  have ok: "stats_ok (length ts) p" using Cons.prems(1) stats_ok_less by simp
  show ?case
  proof (cases "u < last_updated p + 60")
    case True
    have "\<not> dead p" using ok by (simp add: dead_def stats_ok_def)
    moreover have "last (u # ts) = last (t # u # ts)" by simp
    ultimately show ?thesis
      using Cons.IH [OF ok u(3) _ _ True Cons.prems(6)] round_idle [OF ok _ True] Cons.prems(3,4,7) u(1) by simp
  next
    case False
    then obtain p' where p': "round_stats u p = Some p'"
      "dead p' \<or> (stats_ok (length ts) p' \<and> last_updated p' = u \<and> rounds_left p' < rounds_left p)"
      using round_wears [of "length ts" p u] Cons.prems(1,3) by auto
    show ?thesis
    proof (cases "dead p'")
      case alive: False
      have "int (Suc (rounds_left p')) * (60 + gap) \<le> int (rounds_left p) * (60 + gap)"
        using p'(2) alive Cons.prems(6) by (intro mult_right_mono) auto
      then have "u + int (rounds_left p') * (60 + gap) \<le> last (u # ts)"
        using Cons.prems(5,7) u(2) by (simp add: algebra_simps)
      then show ?thesis using Cons.IH [of p' u] p' alive u(3) Cons.prems(3,6) by simp
    qed (use p'(1) in simp)
  qed
qed

lemma rounds_left_max: "stats_ok n p \<Longrightarrow> rounds_left p \<le> 39"
  by (auto simp: rounds_left_def stats_ok_def)


section \<open>The registry\<close>

lemma scan_take_word:
  assumes "\<forall>c \<in> set n. \<not> c_isspace c" and "length n \<le> k" and "c_isspace c"
  shows "scan_take (Some k) (\<lambda>c. \<not> c_isspace c) (n @ c # rest) = n"
proof -
  have "takeWhile (\<lambda>c. \<not> c_isspace c) (n @ c # rest) = n"
    using assms(1,3) by (simp add: takeWhile_append2)
  then show ?thesis using assms(2) by (simp add: scan_take_def)
qed

definition reg_name :: "string \<Rightarrow> bool" where
  "reg_name n = (n \<noteq> [] \<and> length n \<le> 63 \<and> list_all (\<lambda>c. \<not> c_isspace c \<and> c \<noteq> NUL) n)"

definition reg_stamp :: "string \<Rightarrow> bool" where
  "reg_stamp ts = (ts \<noteq> [] \<and> length ts \<le> 127 \<and> \<not> c_isspace (hd ts) \<and> NL \<notin> set ts \<and> NUL \<notin> set ts)"

lemma reg_entry_line:
  assumes "reg_name n" and "reg_stamp ts" and "- (2 ^ 31) \<le> pid" and "pid < 2 ^ 31"
  shows "reg_entry (reg_line n pid ts) = Some (n, pid, ts)"
proof -
  have sp: "c_isspace (CHR '' '')" "c_isspace NL" by (simp_all add: c_isspace_def)
  have n: "n \<noteq> []" "\<forall>c \<in> set n. \<not> c_isspace c" "length n \<le> 63" "NUL \<notin> set n"
    using assms(1) by (auto simp: reg_name_def list_all_iff)
  have ts: "ts \<noteq> []" "length ts \<le> 127" "\<not> c_isspace (hd ts)" "NL \<notin> set ts" "NUL \<notin> set ts"
    using assms(2) by (auto simp: reg_stamp_def)
  let ?rest = "dec_int pid @ CHR '' '' # ts @ [NL]"
  have line: "cstr (reg_line n pid ts) = n @ CHR '' '' # ?rest"
    using n(4) ts(5) dec_int_no_special [of pid] by (simp add: reg_line_def)
  have 1: "dropWhile c_isspace (n @ CHR '' '' # ?rest) = n @ CHR '' '' # ?rest"
    using n(1,2) by (cases n) auto
  have 2: "dropWhile c_isspace (CHR '' '' # ?rest) = ?rest"
  proof -
    obtain c cs where "dec_int pid = c # cs" "\<not> c_isspace c"
    proof (cases "pid < 0")
      case True
      then show ?thesis using that by (simp add: dec_int_def c_isspace_def)
    next
      case False
      obtain c cs where "dec (nat pid) = c # cs" "c_isdigit c" using dec_Cons by blast
      then show ?thesis using that False by (simp add: dec_int_def)
    qed
    then show ?thesis using sp by simp
  qed
  have 3: "scan_num ?rest = Some (pid < 0, nat \<bar>pid\<bar>, CHR '' '' # ts @ [NL])"
    by (rule scan_num_dec_int) (simp add: c_isdigit_def)
  have 4: "dropWhile c_isspace (CHR '' '' # ts @ [NL]) = ts @ [NL]"
    using ts(1,3) sp by (cases ts) auto
  have 5: "takeWhile (\<lambda>c. c \<noteq> NL) (ts @ [NL]) = ts" using until_exact(1) [OF ts(4), of "[]"] by simp
  have 6: "scan_take (Some 127) (\<lambda>c. c \<noteq> NL) (ts @ [NL]) = ts" using 5 ts(2) by (simp add: scan_take_def)
  have "sscanf fmt_reg (n @ CHR '' '' # ?rest) = [SStr n, SInt pid, SStr ts]"
    unfolding fmt_reg_def using scan_take_word [OF n(2,3) sp(1), of ?rest] 1 2 3 4 6 n(1) ts(1)
      to_int32_scanned [OF assms(3,4)]
    by (simp add: Let_def)
  then show ?thesis using line by simp
qed

lemma reg_line_full:
  assumes "reg_name n" and "reg_stamp ts" and "length (reg_line n pid ts) \<le> 255"
  shows "full_line 255 (reg_line n pid ts)"
proof -
  have "c_isspace NL" by (simp add: c_isspace_def)
  then have "NL \<notin> set n" using assms(1) by (auto simp: reg_name_def list_all_iff)
  then show ?thesis
    using assms dec_int_no_special [of pid] unfolding full_line_def
    by (auto simp: reg_line_def reg_name_def reg_stamp_def butlast_append list_all_iff)
qed

text \<open>A registry of whole lines.\<close>

definition registry :: "plant_world \<Rightarrow> string list \<Rightarrow> bool" where
  "registry w ls = (pw_opens w (reg_path w) \<and> list_all (full_line 255) ls \<and>
     (case pw_files w (reg_path w) of None \<Rightarrow> ls = [] | Some t \<Rightarrow> t = concat ls))"

lemma reg_entries_lines: "list_all (full_line 255) ls \<Longrightarrow> reg_entries 255 (concat ls) = List.map_filter reg_entry ls"
  using fgets_all_concat [of ls 255] by (simp add: reg_entries_def list_all_iff)

lemma registered_lines:
  assumes "registry w ls"
  shows "is_daemon_registered n w \<longleftrightarrow> (\<exists>pid ts. (n, pid, ts) \<in> set (List.map_filter reg_entry ls))"
    and "is_plant_running n w \<longleftrightarrow> (\<exists>pid ts. (n, pid, ts) \<in> set (List.map_filter reg_entry ls) \<and> pw_live w pid)"
proof -
  have "read_text (reg_path w) w = None \<and> ls = [] \<or> read_text (reg_path w) w = Some (concat ls)"
    using assms by (auto simp: registry_def read_text_def split: option.splits)
  then show "is_daemon_registered n w \<longleftrightarrow> (\<exists>pid ts. (n, pid, ts) \<in> set (List.map_filter reg_entry ls))"
    "is_plant_running n w \<longleftrightarrow> (\<exists>pid ts. (n, pid, ts) \<in> set (List.map_filter reg_entry ls) \<and> pw_live w pid)"
    using assms reg_entries_lines [of ls]
    by (fastforce simp: is_daemon_registered_def is_plant_running_def registry_def list_ex_iff map_filter_simps)+
qed


section \<open>What a step leaves alone\<close>

text \<open>Paths in \<open>tmp\<close> differ where their file names do, unless the root fills the buffer.\<close>

definition root_short :: "plant_world \<Rightarrow> bool" where
  "root_short w = (length (pw_root w) + 20 < PATH_MAX)"

lemma cut_path_short: "root_short w \<Longrightarrow> length t \<le> 12 \<Longrightarrow> cut_path w t = tmp_path w t"
  by (simp add: root_short_def cut_path_def tmp_path_def)

lemma tmp_path_inj [simp]: "tmp_path w s = tmp_path w t \<longleftrightarrow> s = t"
  by (simp add: tmp_path_def)

lemma reg_not_log: "root_short w \<Longrightarrow> reg_path w \<noteq> log_file_path w"
  by (simp add: cut_path_short)

text \<open>The parts of the world the registry and the lock depend on.\<close>

definition same_registry :: "plant_world \<Rightarrow> plant_world \<Rightarrow> bool" where
  "same_registry w w' =
     (pw_root w' = pw_root w \<and> pw_opens w' = pw_opens w \<and> pw_live w' = pw_live w \<and> pw_held w' = pw_held w \<and>
      pw_files w' (reg_path w) = pw_files w (reg_path w))"

lemma same_registry_trans [trans]: "same_registry u v \<Longrightarrow> same_registry v w \<Longrightarrow> same_registry u w"
  by (auto simp: same_registry_def cut_path_def tmp_path_def)

lemma same_registry_short: "same_registry w w' \<Longrightarrow> root_short w \<Longrightarrow> root_short w'"
  by (simp add: same_registry_def root_short_def)

lemma daemon_log_same: "root_short w \<Longrightarrow> same_registry w (daemon_log msg now w)"
  using reg_not_log [of w] by (simp add: same_registry_def daemon_log_def append_line_def append_text_def)

lemma spawn_log_same: "root_short w \<Longrightarrow> same_registry w (daemon_spawn_log name now w)"
  using reg_not_log [of w] by (simp add: same_registry_def daemon_spawn_log_def append_line_def append_text_def)

lemma init_state_same: "same_registry w (snd (snd (plant_init_state name t1 t2 w)))"
  by (simp add: same_registry_def plant_init_state_def Let_def)

lemma daemon_start_same:
  assumes "root_short w"
  shows "same_registry w (snd (daemon_start name clk w))"
proof (cases "plant_load name w")
  case (Some p)
  then show ?thesis by (simp add: daemon_start_def same_registry_def)
next
  case None
  let ?w1 = "daemon_log ''Initializing new plant state'' (clk 3) w"
  obtain rc p w2 where i: "plant_init_state name (clk 4) (clk 5) ?w1 = (rc, p, w2)" by (metis prod.exhaust)
  have 1: "same_registry w ?w1" by (rule daemon_log_same [OF assms])
  also have "same_registry ?w1 w2" using init_state_same [of ?w1 name "clk 4" "clk 5"] i by simp
  finally have 2: "same_registry w w2" .
  have "same_registry w2 (daemon_log ''Initializing new plant state'' (clk 6) w2)"
    by (rule daemon_log_same [OF same_registry_short [OF 2 assms]])
  with 2 have "same_registry w (daemon_log ''Initializing new plant state'' (clk 6) w2)"
    by (rule same_registry_trans)
  with 2 None i show ?thesis by (simp add: daemon_start_def)
qed

text \<open>Entering the daemon changes the registry only through \<open>daemon_register\<close>.\<close>

lemma enter_daemon_registry:
  assumes "root_short w"
  shows "same_registry (daemon_register name (clk 0) (spawn_plant pid w)) (snd (enter_daemon name clk pid msg w))"
proof -
  let ?w = "daemon_register name (clk 0) (spawn_plant pid w)"
  have "pw_root ?w = pw_root w"
    by (simp add: daemon_register_def spawn_plant_def append_line_def append_text_def)
  then have s: "root_short ?w" using assms by (simp add: root_short_def)
  let ?w1 = "daemon_spawn_log name (clk 1) ?w"
  have 1: "same_registry ?w ?w1" by (rule spawn_log_same [OF s])
  let ?w2 = "daemon_log msg (clk 2) ?w1"
  have "same_registry ?w1 ?w2" by (rule daemon_log_same [OF same_registry_short [OF 1 s]])
  with 1 have 2: "same_registry ?w ?w2" by (rule same_registry_trans)
  have "same_registry ?w2 (snd (daemon_start name clk ?w2))"
    by (rule daemon_start_same [OF same_registry_short [OF 2 s]])
  with 2 have "same_registry ?w (snd (daemon_start name clk ?w2))" by (rule same_registry_trans)
  then show ?thesis
    by (cases "daemon_start name clk ?w2") (simp add: enter_daemon_def Let_def split: option.split)
qed

lemma spawn_plant_registry:
  "registry (spawn_plant pid w) ls = registry w ls" "pw_live (spawn_plant pid w) = (pw_live w)(pid := True)"
  by (simp_all add: registry_def spawn_plant_def cut_path_def tmp_path_def)

lemma same_registry_lines: "same_registry w w' \<Longrightarrow> registry w' ls = registry w ls"
  by (simp add: same_registry_def registry_def cut_path_def tmp_path_def)


lemma map_filter_append: "List.map_filter f (xs @ ys) = List.map_filter f xs @ List.map_filter f ys"
  by (simp add: List.map_filter_def)

lemma registry_append:
  assumes "registry w ls" and "full_line 255 l"
  shows "registry (append_line (reg_path w) l w) (ls @ [l])"
  using assms
  by (auto simp: registry_def append_line_def append_text_def cut_path_def tmp_path_def split: option.splits)

section \<open>Properties\<close>

text \<open>
  C22.  While a daemon runs, with any waterings and any changes of file access in between, no
  computation overflows and its water level stays between 0 and 100 and its health at most
  100, as long as the clock stays within 31 bits.
\<close>

theorem plant_statistics_in_range:
  assumes "file_ok name w" and "stats_ok (length (round_times es)) p"
    and "list_all (\<lambda>t. 0 \<le> t \<and> t < 2 ^ 31) (round_times es)"
  shows "\<exists>go p' w'. plant_run name es p w = Some (go, p', w') \<and>
    0 \<le> waterlevel p' \<and> waterlevel p' \<le> 100 \<and> health p' \<le> 100"
  using plant_run_stats [OF assms] by blast

definition sample_plant :: PlantStats where
  "sample_plant = \<lparr>waterlevel = 100, health = 100, level = 1, last_watered = 1000, last_updated = 1000\<rparr>"

definition sample_place :: plant_world where
  "sample_place = \<lparr>pw_root = ''/repo'', pw_files = Map.empty, pw_states = Map.empty, pw_opens = (\<lambda>_. True),
     pw_live = (\<lambda>_. False), pw_kills = (\<lambda>_. True), pw_pid = 7, pw_ctime = (\<lambda>_. ''Mon'' @ [NL]),
     pw_taken = (\<lambda>_. False), pw_held = None, plant_lock_fd = - 1\<rparr>"

lemma sample_file_ok: "file_ok name sample_place"
  by (simp add: file_ok_def sample_place_def)

theorem plant_statistics_in_range_witness:
  "\<exists>go p' w'. plant_run ''fern'' [Round 1100 1101, Water 1150, Round 1200 1201] sample_plant sample_place = Some (go, p', w') \<and>
    0 \<le> waterlevel p' \<and> waterlevel p' \<le> 100 \<and> health p' \<le> 100"
  by (rule plant_statistics_in_range) (simp_all add: sample_file_ok stats_ok_def sample_plant_def)

text \<open>
  C37.  Watering never reaches a running daemon: two runs with the same rounds end with the
  same statistics, whatever waterings happen in either of them and whatever their state files
  hold.  The daemon reads its file once, at its start, and overwrites it afterwards.
\<close>

theorem watering_never_reaches_daemon:
  assumes "round_times es = round_times es'" and "file_ok name w" and "file_ok name w'"
    and "stats_ok (length (round_times es)) p" and "list_all (\<lambda>t. 0 \<le> t \<and> t < 2 ^ 31) (round_times es)"
  shows "\<exists>go p' v v'. plant_run name es p w = Some (go, p', v) \<and> plant_run name es' p w' = Some (go, p', v')"
  using plant_run_stats [OF assms(2,4,5)] plant_run_stats [OF assms(3), of es' p] assms(1,4,5) by auto

theorem watering_never_reaches_daemon_witness:
  "\<exists>go p' v v'. plant_run ''fern'' [Round 1100 1101, Water 1150, Round 1200 1201] sample_plant sample_place = Some (go, p', v) \<and>
    plant_run ''fern'' [Round 1100 1101, Round 1200 1201] sample_plant sample_place = Some (go, p', v')"
  by (rule watering_never_reaches_daemon) (simp_all add: sample_file_ok stats_ok_def sample_plant_def)

lemma run_stats_dies_started:
  assumes "stats_ok (length (u # ts)) p" and "paced gap u ts" and "list_all (\<lambda>t. t < 2 ^ 31) (u # ts)"
    and "last_updated p \<le> u" and "0 \<le> gap" and "u + 39 * (60 + gap) \<le> last (u # ts)"
  shows "\<exists>p'. run_stats (u # ts) p = Some (False, p')"
proof (cases "u < last_updated p + 60")
  case True
  have "int (rounds_left p) * (60 + gap) \<le> 39 * (60 + gap)"
    using rounds_left_max [OF assms(1)] assms(5) by (intro mult_right_mono) simp_all
  then show ?thesis
    using run_stats_dies [OF stats_ok_less assms(2) _ assms(4) True assms(5)] round_idle [OF assms(1,4) True] assms
    by (simp add: dead_def stats_ok_def)
next
  case False
  then obtain p' where p': "round_stats u p = Some p'"
    "dead p' \<or> (stats_ok (length ts) p' \<and> last_updated p' = u \<and> rounds_left p' < rounds_left p)"
    using round_wears [of "length ts" p u] assms(1,3) by auto
  show ?thesis
  proof (cases "dead p'")
    case alive: False
    have "int (rounds_left p') * (60 + gap) \<le> 39 * (60 + gap)"
      using p'(2) alive rounds_left_max [OF assms(1)] assms(5) by (intro mult_right_mono) auto
    then show ?thesis
      using run_stats_dies [of ts p' gap u] p' alive assms by simp
  qed (use p'(1) in simp)
qed

text \<open>
  C38.  Every plant dies: while the loop of the daemon runs with rounds at most \<open>gap\<close> seconds
  apart (the program sleeps ten seconds) and the clock does not go back, the daemon has ended
  after at most 39 times a minute and a gap, however often the plant was watered in between.
\<close>

theorem plant_dies_despite_watering:
  assumes "file_ok name w" and "stats_ok (length (round_times es)) p"
    and "round_times es = start # ts" and "last_updated p \<le> start" and "paced gap start ts" and "0 \<le> gap"
    and "list_all (\<lambda>t. 0 \<le> t \<and> t < 2 ^ 31) (round_times es)"
    and "start + 39 * (60 + gap) \<le> last (round_times es)"
  shows "\<exists>p' w'. plant_run name es p w = Some (False, p', w')"
proof -
  have "list_all (\<lambda>t. t < 2 ^ 31) (round_times es)" using assms(7) by (simp add: list_all_iff)
  then obtain p' where "run_stats (round_times es) p = Some (False, p')"
    using run_stats_dies_started [of start ts p gap] assms by auto
  then show ?thesis using plant_run_stats [OF assms(1,2,7)] by auto
qed

text \<open>A plant that is watered before every round, for three quarters of an hour and ten seconds.\<close>

definition steady_care :: "nat \<Rightarrow> plant_event list" where
  "steady_care n = concat (map (\<lambda>i. [Water (1000 + 10 * int i), Round (1000 + 10 * int i) (1001 + 10 * int i)]) [0..<n])"

lemma round_times_append [simp]: "round_times (es @ fs) = round_times es @ round_times fs"
  by (induction es rule: round_times.induct) simp_all

lemma steady_times: "round_times (steady_care n) = map (\<lambda>i. 1000 + 10 * int i) [0..<n]"
  by (induction n) (simp_all add: steady_care_def)

lemma paced_steps: "paced 10 (1000 + 10 * int a) (map (\<lambda>i. 1000 + 10 * int i) [Suc a..<a + n])"
proof (induction n arbitrary: a)
  case (Suc n)
  show ?case
  proof (cases n)
    case (Suc m)
    then have "[Suc a..<a + Suc n] = Suc a # [Suc (Suc a)..<Suc a + n]" by (simp add: upt_rec)
    then show ?thesis using Suc.IH [of "Suc a"] by simp
  qed simp
qed simp

theorem plant_dies_despite_watering_witness:
  "\<exists>p' w'. plant_run ''fern'' (steady_care 274) sample_plant sample_place = Some (False, p', w')"
proof (rule plant_dies_despite_watering [OF sample_file_ok])
  show "round_times (steady_care 274) = 1000 # map (\<lambda>i. 1000 + 10 * int i) [1..<274]"
    unfolding steady_times by (subst upt_conv_Cons) simp_all
  show "paced 10 1000 (map (\<lambda>i. 1000 + 10 * int i) [1..<274])" using paced_steps [of 0 274] by simp
  show "1000 + 39 * (60 + 10) \<le> last (round_times (steady_care 274))" unfolding steady_times by (simp add: last_map)
  show "list_all (\<lambda>t. 0 \<le> t \<and> t < 2 ^ 31) (round_times (steady_care 274))"
    unfolding steady_times by (auto simp: list_all_iff)
qed (simp_all add: steady_times stats_ok_def sample_plant_def)

text \<open>
  A registered daemon is found: after \<open>daemon_register\<close> the name scans back from the
  registry file, so the daemon counts as registered.
\<close>

theorem registered_daemon_found:
  assumes "registry w ls" and "reg_name name" and "reg_stamp (stamp w now)"
    and "- (2 ^ 31) \<le> pw_pid w" and "pw_pid w < 2 ^ 31"
    and "length (reg_line name (pw_pid w) (stamp w now)) \<le> 255"
  shows "is_daemon_registered name (daemon_register name now w)"
proof (cases "is_daemon_registered name w")
  case True
  then show ?thesis by (simp add: daemon_register_def)
next
  case False
  let ?l = "reg_line name (pw_pid w) (stamp w now)"
  let ?w = "append_line (reg_path w) ?l w"
  have "registry ?w (ls @ [?l])"
    by (rule registry_append [OF assms(1) reg_line_full [OF assms(2,3,6)]])
  moreover have "(name, pw_pid w, stamp w now) \<in> set (List.map_filter reg_entry (ls @ [?l]))"
    using reg_entry_line [OF assms(2-5)] by (simp add: map_filter_append map_filter_simps)
  ultimately have "is_daemon_registered name ?w" using registered_lines(1) by blast
  then show ?thesis using False by (simp add: daemon_register_def)
qed

theorem registered_daemon_found_witness:
  "is_daemon_registered ''fern'' (daemon_register ''fern'' 1000 sample_place)"
proof (rule registered_daemon_found)
  show "registry sample_place []" by (simp add: registry_def sample_place_def)
  show "length (reg_line ''fern'' (pw_pid sample_place) (stamp sample_place 1000)) \<le> 255"
    by (simp add: reg_line_def stamp_def sample_place_def dec_int_def dec.simps)
qed (simp_all add: reg_name_def reg_stamp_def stamp_def sample_place_def c_isspace_def)

text \<open>
  A respawned daemon is not registered: the registry keeps the entry of the dead
  process, so the new daemon does not count as running and can be respawned again.
\<close>

theorem respawned_daemon_not_running:
  assumes "registry w ls" and "root_short w"
    and "is_daemon_registered name w" and "\<not> is_plant_running name w"
    and "\<forall>ts. (name, pid, ts) \<notin> set (List.map_filter reg_entry ls)"
  shows "\<not> is_plant_running name (snd (respawn_plant name clk pid w))"
proof -
  let ?w = "spawn_plant pid w"
  have reg: "registry ?w ls" using assms(1) spawn_plant_registry(1) by simp
  have "is_daemon_registered name ?w"
    using registered_lines(1) [OF reg] registered_lines(1) [OF assms(1)] assms(3) by simp
  then have "daemon_register name (clk 0) ?w = ?w" by (simp add: daemon_register_def)
  with enter_daemon_registry [OF assms(2)] have
    s: "same_registry ?w (snd (enter_daemon name clk pid ''respawned dplant'' w))" by metis
  let ?e = "snd (enter_daemon name clk pid ''respawned dplant'' w)"
  have "pw_live ?e = (pw_live w)(pid := True)" using s spawn_plant_registry(2) by (simp add: same_registry_def)
  moreover have "registry ?e ls" using reg same_registry_lines [OF s] by simp
  ultimately have "\<not> is_plant_running name ?e"
    using registered_lines(2) [of ?e ls name] registered_lines(2) [OF assms(1), of name] assms(4,5) by auto
  then show ?thesis using assms(3,4) by (simp add: respawn_plant_def)
qed

definition withered_place :: plant_world where
  "withered_place = sample_place\<lparr>pw_files := [reg_path sample_place \<mapsto> reg_line ''fern'' 7 ''Mon'']\<rparr>"

theorem respawned_daemon_not_running_witness:
  "\<not> is_plant_running ''fern'' (snd (respawn_plant ''fern'' (\<lambda>_. 2000) 99 withered_place))"
proof (rule respawned_daemon_not_running)
  have l: "length (reg_line ''fern'' 7 ''Mon'') \<le> 255" by (simp add: reg_line_def dec_int_def dec.simps)
  have n: "reg_name ''fern''" "reg_stamp ''Mon''" by (simp_all add: reg_name_def reg_stamp_def c_isspace_def)
  show reg: "registry withered_place [reg_line ''fern'' 7 ''Mon'']"
    using reg_line_full [OF n l]
    by (simp add: registry_def withered_place_def sample_place_def cut_path_def tmp_path_def)
  have e: "List.map_filter reg_entry [reg_line ''fern'' 7 ''Mon''] = [(''fern'', 7, ''Mon'')]"
    using reg_entry_line [OF n, of 7] by (simp add: map_filter_simps)
  show "root_short withered_place" by (simp add: root_short_def withered_place_def sample_place_def PATH_MAX_def)
  show "is_daemon_registered ''fern'' withered_place" using registered_lines(1) [OF reg] e by auto
  show "\<not> is_plant_running ''fern'' withered_place"
    using registered_lines(2) [OF reg] e by (auto simp: withered_place_def sample_place_def)
  show "\<forall>ts. (''fern'', 99, ts) \<notin> set (List.map_filter reg_entry [reg_line ''fern'' 7 ''Mon''])" using e by simp
qed

text \<open>
  The lock does not protect the daemon: when the program has become a daemon it no
  longer holds the lock it took, because it closed the descriptor with all others.
\<close>

theorem daemon_runs_unlocked:
  assumes "root_short w" and "plant_main [name] clk pid w = Some (Daemon p, w')"
  shows "pw_held w' = None"
proof -
  obtain locked w1 where l: "plant_lock name w = (locked, w1)" by fastforce
  then have "pw_root w1 = pw_root w" by (auto simp: plant_lock_def Let_def split: if_splits)
  then have s: "root_short w1" using assms(1) by (simp add: root_short_def)
  have "w' = snd (enter_daemon name clk pid ''dplant daemon started'' w1)"
    using assms(2) l by (auto simp: plant_main_def split: if_splits)
  moreover have "pw_held (daemon_register name (clk 0) (spawn_plant pid w1)) = None"
    by (simp add: daemon_register_def spawn_plant_def append_line_def append_text_def)
  ultimately show ?thesis
    using enter_daemon_registry [OF s, of name clk pid] by (simp add: same_registry_def)
qed

lemma opens_simps [simp]:
  "pw_opens (append_line path t w) = pw_opens w" "pw_opens (daemon_log msg now w) = pw_opens w"
  "pw_opens (daemon_spawn_log name now w) = pw_opens w" "pw_opens (daemon_register name now w) = pw_opens w"
  "pw_opens (spawn_plant pid w) = pw_opens w"
  by (simp_all add: append_line_def append_text_def daemon_log_def daemon_spawn_log_def daemon_register_def spawn_plant_def)

lemma enter_daemon_open:
  assumes "\<And>path. pw_opens w path"
  shows "\<exists>p w'. enter_daemon name clk pid msg w = (Daemon p, w')"
  using assms by (simp add: enter_daemon_def daemon_start_def plant_init_state_def Let_def split: option.split)

theorem daemon_runs_unlocked_witness:
  "\<exists>p w'. plant_main [''fern''] (\<lambda>_. 1000) 8 sample_place = Some (Daemon p, w') \<and> pw_held w' = None"
proof -
  let ?w = "snd (plant_lock ''fern'' sample_place)"
  have s: "root_short sample_place" by (simp add: root_short_def sample_place_def PATH_MAX_def)
  have l: "fst (plant_lock ''fern'' sample_place)" "\<And>path. pw_opens ?w path"
    by (simp_all add: plant_lock_def sample_place_def Let_def)
  have "reg_path sample_place \<noteq> lock_path sample_place ''fern''"
    using s by (simp add: cut_path_short lock_path_def)
  then have "\<not> is_plant_running ''fern'' sample_place" "\<not> is_daemon_registered ''fern'' ?w"
    by (simp_all add: is_plant_running_def is_daemon_registered_def read_text_def plant_lock_def sample_place_def Let_def
        cut_path_def tmp_path_def lock_path_def)
  then have "plant_main [''fern''] (\<lambda>_. 1000) 8 sample_place =
      Some (enter_daemon ''fern'' (\<lambda>_. 1000) 8 ''dplant daemon started'' ?w)"
    using l(1) by (cases "plant_lock ''fern'' sample_place") (simp add: plant_main_def)
  then obtain p w' where "plant_main [''fern''] (\<lambda>_. 1000) 8 sample_place = Some (Daemon p, w')"
    using enter_daemon_open [OF l(2)] by metis
  then show ?thesis using daemon_runs_unlocked [OF s] by blast
qed

text \<open>Files other than the log and the graveyard survive the death of a plant.\<close>

lemma root_simps [simp]:
  "pw_root (append_line path t w) = pw_root w" "pw_root (daemon_log msg now w) = pw_root w"
  "plant_lock_fd (daemon_log msg now w) = plant_lock_fd w"
  "pw_root (add_to_graveyard d now w) = pw_root w"
  by (simp_all add: append_line_def append_text_def daemon_log_def add_to_graveyard_def Let_def)

lemma append_line_other: "path \<noteq> q \<Longrightarrow> pw_files (append_line q t w) path = pw_files w path"
  by (simp add: append_line_def append_text_def)

lemma log_paths [simp]:
  "tmp_path (daemon_log msg now w) t = tmp_path w t" "cut_path (daemon_log msg now w) t = cut_path w t"
  by (simp_all add: tmp_path_def cut_path_def)

lemma kill_named_files:
  assumes "path \<noteq> grave_path w"
  shows "pw_files (snd (kill_named name now ds w)) path = pw_files w path"
  using assms
proof (induction name now ds w rule: kill_named.induct)
  case (2 name now d ds w)
  let ?w = "w\<lparr>pw_live := (pw_live w)(di_pid d := False)\<rparr>"
  have r: "grave_path ?w = grave_path w" "grave_path (add_to_graveyard d now ?w) = grave_path w"
    by (simp_all add: cut_path_def tmp_path_def)
  have "pw_files (add_to_graveyard d now ?w) path = pw_files w path"
    using "2.prems" r(1) by (simp add: add_to_graveyard_def Let_def append_line_other)
  then show ?case using 2 r by (simp add: Let_def)
qed simp

lemma dkill_auto_files:
  "path \<noteq> grave_path w \<Longrightarrow> pw_files (snd (dkill_auto name now w)) path = pw_files w path"
  by (simp add: dkill_auto_def kill_named_files split: option.split)

text \<open>
  The death of a plant does not remove its lock file: the path that is unlinked has
  lost its last character.
\<close>

theorem lock_file_survives_death:
  assumes "root_short w" and "plant_lock_fd w \<noteq> - 1"
  shows "pw_files (plant_died name now w) (lock_path w name) = pw_files w (lock_path w name)"
proof -
  let ?lock = "lock_path w name"
  have other: "?lock \<noteq> log_file_path w" "?lock \<noteq> grave_path w"
    using assms(1) by (simp_all add: cut_path_short lock_path_def)
  let ?w1 = "daemon_log ''HP has hit 0, plant has died'' now w"
  let ?w2 = "daemon_log ''Natural plant death, died from hitting HP 0'' now ?w1"
  have r: "lock_path ?w2 name = ?lock" "log_file_path ?w1 = log_file_path w"
    by (simp_all add: lock_path_def)
  have "pw_files ?w2 ?lock = pw_files ?w1 ?lock"
    unfolding daemon_log_def [of _ _ ?w1] using other(1) r(2) by (intro append_line_other) simp
  also have "\<dots> = pw_files w ?lock"
    unfolding daemon_log_def using other(1) by (intro append_line_other) simp
  finally have 2: "pw_files ?w2 ?lock = pw_files w ?lock" .
  let ?cut = "take (length ?lock - 1) ?lock"
  let ?w3 = "?w2\<lparr>pw_held := None, pw_files := (pw_files ?w2)(?cut := None)\<rparr>"
  have "length ?cut < length ?lock" by (simp add: lock_path_def tmp_path_def)
  then have cut: "?lock \<noteq> ?cut" by (metis less_irrefl)
  have 3: "pw_files ?w3 ?lock = pw_files w ?lock" using 2 fun_upd_other [OF cut, of "pw_files ?w2"] by simp
  have "grave_path ?w3 = grave_path w" by (simp add: cut_path_def tmp_path_def)
  then have 4: "pw_files (snd (dkill_auto name now ?w3)) ?lock = pw_files w ?lock"
    using dkill_auto_files [of ?lock ?w3 name now] other(2) 3 by simp
  have "plant_died name now w = (if fst (dkill_auto name now ?w3)
      then (snd (dkill_auto name now ?w3))\<lparr>pw_live := (pw_live (snd (dkill_auto name now ?w3)))(pw_pid (snd (dkill_auto name now ?w3)) := False)\<rparr>
      else snd (dkill_auto name now ?w3))"
    using assms(2) r(1) by (simp add: plant_died_def Let_def split_def)
  then show ?thesis using 4 by simp
qed

theorem lock_file_survives_death_witness:
  "pw_files (plant_died ''fern'' 2000 (sample_place\<lparr>plant_lock_fd := 3\<rparr>)) (lock_path (sample_place\<lparr>plant_lock_fd := 3\<rparr>) ''fern'') =
    pw_files (sample_place\<lparr>plant_lock_fd := 3\<rparr>) (lock_path (sample_place\<lparr>plant_lock_fd := 3\<rparr>) ''fern'')"
  by (rule lock_file_survives_death) (simp_all add: root_short_def sample_place_def PATH_MAX_def)

end
