(* ===== verification/Registry.thy ===== *)
theory Registry
  imports Plant Paths
begin

text \<open>
  The programs around the registry of daemons: \<open>dspawn.c\<close> starts and registers a daemon,
  \<open>dkill.c\<close> lists the daemons that run and ends one or all of them, \<open>dcheck.c\<close> reports both the
  registry and the graveyard.
  The world is that of \<open>Plant\<close>.  \<open>None\<close> is undefined behaviour: a string that overruns its
  buffer, the use of an uninitialised buffer, closing a null stream.
\<close>

section \<open>Starting a daemon\<close>

definition spawn_daemon :: "int \<Rightarrow> plant_world \<Rightarrow> plant_world" where
  "spawn_daemon pid w = w\<lparr>pw_pid := pid, pw_live := (pw_live w)(pid := True)\<rparr>"

definition dspawn_spawn_log :: "int \<Rightarrow> plant_world \<Rightarrow> plant_world" where
  "dspawn_spawn_log now w =
     append_line (log_file_path w) (pw_ctime w now @ ''Started dspawn daemon ['' @ dec_int (pw_pid w) @ ''].'' @ [NL]) w"

definition dspawn_log :: "string \<Rightarrow> int \<Rightarrow> plant_world \<Rightarrow> plant_world" where
  "dspawn_log msg now w =
     append_line (log_file_path w)
       (pw_ctime w now @ ''Logging dspawn daemon ['' @ dec_int (pw_pid w) @ ''] message: '' @ msg @ ''.'' @ [NL]) w"

text \<open>How many lines of the registry start with the name and a blank or a dot.\<close>

definition reg_count :: "string \<Rightarrow> plant_world \<Rightarrow> nat" where
  "reg_count name w =
     (case read_text (reg_path w) w of
        None \<Rightarrow> 0
      | Some t \<Rightarrow> length (filter (grave_line name \<circ> cstr) (fgets_all 1023 t)))"

definition numbered :: "string \<Rightarrow> nat \<Rightarrow> string" where
  "numbered name count = (if count = 0 then name else name @ ''.'' @ dec count)"

definition dspawn_register :: "string \<Rightarrow> int \<Rightarrow> plant_world \<Rightarrow> plant_world" where
  "dspawn_register name now w =
     (let modified_name = take 63 (numbered name (reg_count name w))
      in append_line (reg_path w) (reg_line modified_name (pw_pid w) (stamp w now)) w)"

text \<open>The program up to its endless loop, and one round of it.\<close>

definition dspawn_main :: "(nat \<Rightarrow> int) \<Rightarrow> int \<Rightarrow> plant_world \<Rightarrow> plant_world" where
  "dspawn_main clk pid w =
     (let w = spawn_daemon pid w;
          w = dspawn_register ''dspawnowo'' (clk 0) w;
          w = dspawn_spawn_log (clk 1) w
      in dspawn_log ''test'' (clk 2) w)"

definition dspawn_work :: "int \<Rightarrow> plant_world \<Rightarrow> plant_world" where
  "dspawn_work now w = dspawn_log ''one work cycle'' now w"

section \<open>Ending daemons\<close>

text \<open>The graveyard entry of \<open>dkill\<close> carries the number of \<open>dkill\<close> itself.\<close>

definition dkill_bury :: "DaemonInfo \<Rightarrow> int \<Rightarrow> plant_world \<Rightarrow> plant_world" where
  "dkill_bury rip now w = add_to_graveyard (rip\<lparr>di_pid := pw_pid w\<rparr>) now w"

text \<open>A signal to one daemon; the flag says whether \<open>dkill\<close> still runs.\<close>

definition dkill_one :: "DaemonInfo \<Rightarrow> int \<Rightarrow> plant_world \<Rightarrow> bool \<times> plant_world" where
  "dkill_one d now w =
     (if pw_kills w (di_pid d)
      then let w = w\<lparr>pw_live := (pw_live w)(di_pid d := False)\<rparr>
        in if di_pid d = pw_pid w then (False, w) else (True, dkill_bury d now w)
      else (True, w))"

fun dkill_all :: "DaemonInfo list \<Rightarrow> int \<Rightarrow> plant_world \<Rightarrow> bool \<times> plant_world" where
  "dkill_all [] now w = (True, w)"
| "dkill_all (d # ds) now w =
     (let (running, w) = dkill_one d now w in if running then dkill_all ds now w else (False, w))"

definition c_atoi :: "string \<Rightarrow> int" where
  "c_atoi s = (case scan_num s of None \<Rightarrow> 0 | Some (neg, v, _) \<Rightarrow> to_int32 (strtol_val neg v))"

definition dkill :: "string \<Rightarrow> int \<Rightarrow> plant_world \<Rightarrow> plant_world option" where
  "dkill stdin now w =
     (case read_text (reg_path w) w of
        None \<Rightarrow> Some w
      | Some t \<Rightarrow>
          let daemons = live_daemons (pw_live w) (reg_entries 1023 t) [] in
          if daemons = [] then Some w
          else if stdin = [] then None
          else
            let input = cstr (fst (fgets 7 stdin)) in
            if input \<noteq> [] \<and> (hd input = CHR ''a'' \<or> hd input = CHR ''A'')
            then let (running, w) = dkill_all daemons now w in
              if \<not> running then Some w
              else if \<not> pw_opens w (reg_path w) then None
              else Some (w\<lparr>pw_files := (pw_files w)(reg_path w \<mapsto> [])\<rparr>)
            else
              let idx = c_atoi input - 1 in
              if 0 \<le> idx \<and> idx < int (length daemons) then Some (snd (dkill_one (daemons ! nat idx) now w))
              else Some w)"

section \<open>Reports\<close>

text \<open>
  The words of a line are scanned without a limit into buffers of 128 bytes.  The report is
  the list of what its lines show: whether the process is alive, name, number and, of a living one, the time.
\<close>

definition fmt_check :: "directive list" where
  "fmt_check = [ConvS None, Space, ConvD, Space, ConvLine None]"

definition word_fits :: "scanned \<Rightarrow> bool" where
  "word_fits v = (case v of SStr s \<Rightarrow> length s < 128 | SInt _ \<Rightarrow> True)"

fun check_lines :: "(int \<Rightarrow> bool) \<Rightarrow> string list \<Rightarrow> (bool \<times> string \<times> int \<times> string) list option" where
  "check_lines live [] = Some []"
| "check_lines live (l # ls) =
     (let vs = sscanf fmt_check (cstr l) in
      if \<not> list_all word_fits vs then None
      else case vs of
          [SStr n, SInt pid, SStr ts] \<Rightarrow> map_option ((#) (live pid, n, pid, if live pid then ts else [])) (check_lines live ls)
        | _ \<Rightarrow> check_lines live ls)"

text \<open>The report and the number printed under it.\<close>

definition dcheck :: "plant_world \<Rightarrow> ((bool \<times> string \<times> int \<times> string) list \<times> nat) option" where
  "dcheck w =
     (case read_text (reg_path w) w of
        None \<Rightarrow> Some ([], 0)
      | Some t \<Rightarrow> do {
          r \<leftarrow> check_lines (pw_live w) (fgets_all 1023 t);
          Some (r, length (filter fst r))
        })"

definition dcheck_graveyard :: "plant_world \<Rightarrow> ((bool \<times> string \<times> int \<times> string) list \<times> nat) option" where
  "dcheck_graveyard w =
     (case read_text (grave_path w) w of
        None \<Rightarrow> Some ([], 0)
      | Some t \<Rightarrow> do {
          r \<leftarrow> check_lines (\<lambda>_. False) (fgets_all 1023 t);
          Some (r, length r)
        })"

end
