(* ===== verification/Registry_Laws.thy ===== *)
theory Registry_Laws
  imports Registry Plant_Laws
begin

text \<open>
  The registry tools: daemons started one after another get distinct names, ending all of them
  empties the registry and leaves none of the listed ones alive, the report agrees with the
  registry, and a name that \<open>dplant\<close> registers can overrun the buffers of the report.
\<close>

section \<open>Numbered names\<close>

declare reg_entry.simps [simp del]

lemma full_line_mono: "full_line k l \<Longrightarrow> k \<le> m \<Longrightarrow> full_line m l"
  by (auto simp: full_line_def)

lemma read_registry:
  assumes "registry w ls"
  shows "read_text (reg_path w) w = None \<and> ls = [] \<or> read_text (reg_path w) w = Some (concat ls)"
  using assms by (auto simp: registry_def read_text_def split: option.splits)

lemma registry_lines:
  assumes "registry w ls"
  shows "fgets_all 1023 (concat ls) = ls"
proof -
  have "list_all (full_line 255) ls" using assms by (simp add: registry_def)
  then show ?thesis by (intro fgets_all_concat) (auto simp: list_all_iff intro: full_line_mono)
qed

lemma reg_count_lines:
  assumes "registry w ls"
  shows "reg_count name w = length (filter (grave_line name \<circ> cstr) ls)"
  using read_registry [OF assms] registry_lines [OF assms] by (auto simp: reg_count_def)

definition registered_names :: "plant_world \<Rightarrow> string list" where
  "registered_names w = (case read_text (reg_path w) w of None \<Rightarrow> [] | Some t \<Rightarrow> map fst (reg_entries 1023 t))"

lemma registered_names_lines:
  assumes "registry w ls"
  shows "registered_names w = map fst (List.map_filter reg_entry ls)"
  using read_registry [OF assms] registry_lines [OF assms] by (auto simp: registered_names_def reg_entries_def map_filter_simps)

text \<open>Running \<open>dspawn\<close> several times, each with its clock and the number of the new process.\<close>

fun dspawn_runs :: "((nat \<Rightarrow> int) \<times> int) list \<Rightarrow> plant_world \<Rightarrow> plant_world" where
  "dspawn_runs [] w = w"
| "dspawn_runs ((clk, pid) # runs) w = dspawn_runs runs (dspawn_main clk pid w)"

abbreviation own :: string where "own \<equiv> ''dspawnowo''"

lemma dec_chars: "c \<in> set (dec n) \<Longrightarrow> \<not> c_isspace c \<and> c \<noteq> NUL"
  using dec_digits isdigit_not_space isdigit_neq by blast

lemma numbered_reg_name:
  assumes "k < 10 ^ 9"
  shows "reg_name (numbered own k)" "take 63 (numbered own k) = numbered own k"
proof -
  have d: "length (dec k) \<le> 9" using dec_length [OF assms] by simp
  have "list_all (\<lambda>c. \<not> c_isspace c \<and> c \<noteq> NUL) (dec k)" using dec_chars by (simp add: list_all_iff)
  then show "reg_name (numbered own k)" using d by (simp add: reg_name_def numbered_def c_isspace_def)
  show "take 63 (numbered own k) = numbered own k" using d by (simp add: numbered_def)
qed

lemma numbered_inj: "numbered name i = numbered name j \<Longrightarrow> i = j"
  by (auto simp: numbered_def split: if_splits)

lemma numbered_line_counts: "grave_line own (cstr (reg_line (numbered own k) pid ts))"
  by (simp add: grave_line_def reg_line_def numbered_def cstr_def)

lemma reg_line_short:
  assumes "reg_name n" and "reg_stamp ts" and "- (2 ^ 31) \<le> pid" and "pid < 2 ^ 31"
  shows "length (reg_line n pid ts) \<le> 255"
proof -
  have "length (dec (nat \<bar>pid\<bar>)) \<le> 10" using assms(3,4) by (intro dec_length) auto
  then have "length (dec_int pid) \<le> 11" by (auto simp: dec_int_def)
  then show ?thesis using assms(1,2) by (simp add: reg_line_def reg_name_def reg_stamp_def)
qed

lemma world_simps [simp]:
  "pw_ctime (append_line path t w) = pw_ctime w" "pw_live (append_line path t w) = pw_live w"
  "pw_kills (append_line path t w) = pw_kills w" "pw_pid (append_line path t w) = pw_pid w"
  by (simp_all add: append_line_def append_text_def)

lemma cut_path_root: "pw_root w' = pw_root w \<Longrightarrow> cut_path w' s = cut_path w s"
  by (simp add: cut_path_def tmp_path_def)

lemma root_short_root: "pw_root w' = pw_root w \<Longrightarrow> root_short w' = root_short w"
  by (simp add: root_short_def)

lemma log_keeps_registry:
  assumes "registry w ls" and "root_short w"
  shows "registry (append_line (log_file_path w) t w) ls"
proof -
  let ?w = "append_line (log_file_path w) t w"
  have "reg_path ?w = reg_path w" by (rule cut_path_root) simp
  moreover have "pw_files ?w (reg_path w) = pw_files w (reg_path w)"
    by (rule append_line_other [OF reg_not_log [OF assms(2)]])
  ultimately show ?thesis using assms(1) by (simp add: registry_def)
qed

lemma spawn_keeps_registry: "registry (spawn_daemon pid w) ls = registry w ls"
  by (simp add: registry_def spawn_daemon_def cut_path_def tmp_path_def)

text \<open>Where every line of the registry is one of \<open>dspawn\<close>, the next run adds the next number.\<close>

lemma dspawn_main_registers:
  assumes "registry w ls" and "root_short w" and "list_all (grave_line own \<circ> cstr) ls" and "length ls < 10 ^ 9"
    and "reg_stamp (stamp w (clk 0))" and "- (2 ^ 31) \<le> pid" and "pid < 2 ^ 31"
  shows "registry (dspawn_main clk pid w) (ls @ [reg_line (numbered own (length ls)) pid (stamp w (clk 0))])"
    "pw_root (dspawn_main clk pid w) = pw_root w" "pw_ctime (dspawn_main clk pid w) = pw_ctime w"
proof -
  let ?w0 = "spawn_daemon pid w"
  let ?l = "reg_line (numbered own (length ls)) pid (stamp w (clk 0))"
  note n = numbered_reg_name [OF assms(4)]
  have r0: "registry ?w0 ls" using assms(1) by (simp add: spawn_keeps_registry)
  have f0: "pw_root ?w0 = pw_root w" "pw_ctime ?w0 = pw_ctime w" "pw_pid ?w0 = pid" "stamp ?w0 = stamp w"
    by (simp_all add: spawn_daemon_def stamp_def fun_eq_iff)
  have "filter (grave_line own \<circ> cstr) ls = ls" using assms(3) by (simp add: list_all_iff)
  then have "reg_count own ?w0 = length ls" using reg_count_lines [OF r0, of own] by simp
  then have reg: "dspawn_register own (clk 0) ?w0 = append_line (reg_path ?w0) ?l ?w0"
    using n(2) f0 by (simp add: dspawn_register_def)
  let ?w1 = "append_line (reg_path ?w0) ?l ?w0"
  have "full_line 255 ?l" by (rule reg_line_full [OF n(1) assms(5) reg_line_short [OF n(1) assms(5-7)]])
  then have r1: "registry ?w1 (ls @ [?l])" by (rule registry_append [OF r0])
  have s1: "root_short ?w1" using assms(2) f0(1) root_short_root [of ?w1 w] by simp
  let ?w2 = "dspawn_spawn_log (clk 1) ?w1"
  have r2: "registry ?w2 (ls @ [?l])" unfolding dspawn_spawn_log_def by (rule log_keeps_registry [OF r1 s1])
  have s2: "root_short ?w2" using s1 root_short_root [of ?w2 ?w1] by (simp add: dspawn_spawn_log_def)
  have "registry (dspawn_log ''test'' (clk 2) ?w2) (ls @ [?l])"
    unfolding dspawn_log_def by (rule log_keeps_registry [OF r2 s2])
  then show "registry (dspawn_main clk pid w) (ls @ [?l])" by (simp add: dspawn_main_def Let_def reg)
  show "pw_root (dspawn_main clk pid w) = pw_root w" "pw_ctime (dspawn_main clk pid w) = pw_ctime w"
    using f0(1,2) by (simp_all add: dspawn_main_def Let_def reg dspawn_log_def dspawn_spawn_log_def)
qed

lemma dspawn_runs_register:
  assumes "registry w ls" and "root_short w" and "list_all (grave_line own \<circ> cstr) ls"
    and "map fst (List.map_filter reg_entry ls) = map (numbered own) [0..<length ls]"
    and "length ls + length runs \<le> 10 ^ 9" and "\<forall>t. reg_stamp (stamp w t)"
    and "list_all (\<lambda>(_, pid). - (2 ^ 31) \<le> pid \<and> pid < 2 ^ 31) runs"
  shows "registered_names (dspawn_runs runs w) = map (numbered own) [0..<length ls + length runs]"
  using assms
proof (induction runs arbitrary: w ls)
  case Nil
  then show ?case using registered_names_lines [OF Nil.prems(1)] by simp
next
  case (Cons r runs)
  obtain clk pid where r: "r = (clk, pid)" by fastforce
  let ?l = "reg_line (numbered own (length ls)) pid (stamp w (clk 0))"
  let ?w = "dspawn_main clk pid w"
  have k: "length ls < 10 ^ 9" "- (2 ^ 31) \<le> pid" "pid < 2 ^ 31" "reg_stamp (stamp w (clk 0))"
    using Cons.prems(5-7) r by simp_all
  note m = dspawn_main_registers [of w ls clk pid, OF Cons.prems(1,2,3) k(1,4,2,3)]
  have e: "reg_entry ?l = Some (numbered own (length ls), pid, stamp w (clk 0))"
    by (rule reg_entry_line [OF numbered_reg_name(1) [OF k(1)] k(4,2,3)])
  have "registered_names (dspawn_runs runs ?w) = map (numbered own) [0..<length (ls @ [?l]) + length runs]"
  proof (rule Cons.IH [OF m(1)])
    show "root_short ?w" using Cons.prems(2) m(2) root_short_root by blast
    show "list_all (grave_line own \<circ> cstr) (ls @ [?l])" using Cons.prems(3) numbered_line_counts by (simp add: list_all_iff)
    show "map fst (List.map_filter reg_entry (ls @ [?l])) = map (numbered own) [0..<length (ls @ [?l])]"
      using Cons.prems(4) e by (simp add: map_filter_append map_filter_simps)
    show "length (ls @ [?l]) + length runs \<le> 10 ^ 9" using Cons.prems(5) by simp
    show "\<forall>t. reg_stamp (stamp ?w t)" using Cons.prems(6) m(3) by (simp add: stamp_def)
    show "list_all (\<lambda>(_, pid). - (2 ^ 31) \<le> pid \<and> pid < 2 ^ 31) runs" using Cons.prems(7) by simp
  qed
  then show ?case by (simp add: r)
qed

section \<open>Ending daemons\<close>

definition info :: "string \<times> int \<times> string \<Rightarrow> DaemonInfo" where
  "info e = (case e of (n, pid, ts) \<Rightarrow> \<lparr>di_name = n, di_pid = pid, di_timestamp = ts\<rparr>)"

definition entry_pid :: "string \<times> int \<times> string \<Rightarrow> int" where
  "entry_pid e = fst (snd e)"

lemma info_simps [simp]:
  "info (n, pid, ts) = \<lparr>di_name = n, di_pid = pid, di_timestamp = ts\<rparr>" "entry_pid (n, pid, ts) = pid"
  by (simp_all add: info_def entry_pid_def)

lemma live_daemons_listed:
  "length ds \<le> MAX_DAEMONS \<Longrightarrow>
     live_daemons live es ds = take MAX_DAEMONS (ds @ map info (filter (live \<circ> entry_pid) es))"
proof (induction live es ds rule: live_daemons.induct)
  case (2 live n pid ts es ds)
  show ?case
  proof (cases "length ds < MAX_DAEMONS")
    case True
    then have "live_daemons live ((n, pid, ts) # es) ds =
        live_daemons live es (if live pid then ds @ [\<lparr>di_name = n, di_pid = pid, di_timestamp = ts\<rparr>] else ds)" by simp
    also have "\<dots> = take MAX_DAEMONS ((if live pid then ds @ [\<lparr>di_name = n, di_pid = pid, di_timestamp = ts\<rparr>] else ds) @
        map info (filter (live \<circ> entry_pid) es))"
      by (rule "2.IH" [OF True]) (use True in simp)
    finally have 1: "live_daemons live ((n, pid, ts) # es) ds = \<dots>" .
    have "MAX_DAEMONS - length ds = Suc (MAX_DAEMONS - Suc (length ds))" using True by simp
    then have "take (MAX_DAEMONS - length ds) (d # xs) = d # take (MAX_DAEMONS - Suc (length ds)) xs" for d :: DaemonInfo and xs
      by simp
    then show ?thesis unfolding 1 using True by (simp add: comp_def)
  next
    case False
    then show ?thesis using "2.prems" by simp
  qed
qed simp

lemma bury_simps [simp]:
  "pw_live (dkill_bury d now w) = pw_live w" "pw_kills (dkill_bury d now w) = pw_kills w"
  "pw_pid (dkill_bury d now w) = pw_pid w" "pw_opens (dkill_bury d now w) = pw_opens w"
  "pw_root (dkill_bury d now w) = pw_root w"
  by (simp_all add: dkill_bury_def add_to_graveyard_def Let_def)

lemma dkill_all_effect:
  assumes "\<forall>d \<in> set ds. pw_kills w (di_pid d) \<and> di_pid d \<noteq> pw_pid w"
  shows "\<exists>w'. dkill_all ds now w = (True, w') \<and> pw_root w' = pw_root w \<and> pw_opens w' = pw_opens w \<and>
    (\<forall>pid. pw_live w' pid \<longleftrightarrow> pw_live w pid \<and> pid \<notin> di_pid ` set ds)"
  using assms
proof (induction ds arbitrary: w)
  case (Cons d ds)
  let ?w = "dkill_bury d now (w\<lparr>pw_live := (pw_live w)(di_pid d := False)\<rparr>)"
  have "dkill_one d now w = (True, ?w)" using Cons.prems by (simp add: dkill_one_def)
  moreover from Cons.IH [of ?w] Cons.prems obtain w' where
    "dkill_all ds now ?w = (True, w')" "pw_root w' = pw_root w" "pw_opens w' = pw_opens w"
    "\<forall>pid. pw_live w' pid \<longleftrightarrow> pw_live ?w pid \<and> pid \<notin> di_pid ` set ds" by auto
  ultimately show ?case by auto
qed simp

text \<open>The first word of a line is scanned however long it is.\<close>

lemma scan_first_word:
  "dropWhile c_isspace s = s \<Longrightarrow> scan_take None (\<lambda>c. \<not> c_isspace c) s = t \<Longrightarrow> t \<noteq> [] \<Longrightarrow>
     \<exists>vs. sscanf (ConvS None # ds) s = SStr t # vs"
  by (simp add: Let_def)

section \<open>Properties\<close>

text \<open>
  C23.  Daemons get distinct names: running \<open>dspawn\<close> any number of times on an empty registry
  registers the names \<open>dspawnowo\<close>, \<open>dspawnowo.1\<close>, \<open>dspawnowo.2\<close> and so on, in this order.
\<close>

theorem spawned_names_distinct:
  assumes "registry w []" and "root_short w" and "\<forall>t. reg_stamp (stamp w t)" and "length runs \<le> 10 ^ 9"
    and "list_all (\<lambda>(_, pid). - (2 ^ 31) \<le> pid \<and> pid < 2 ^ 31) runs"
  shows "registered_names (dspawn_runs runs w) = map (numbered ''dspawnowo'') [0..<length runs] \<and>
    distinct (registered_names (dspawn_runs runs w))"
proof -
  have "registered_names (dspawn_runs runs w) = map (numbered own) [0..<length runs]"
    using dspawn_runs_register [OF assms(1,2) _ _ _ assms(3,5)] assms(4) by (simp add: map_filter_simps)
  moreover have "inj_on (numbered own) A" for A by (rule inj_onI) (rule numbered_inj)
  ultimately show ?thesis by (simp add: distinct_map)
qed

theorem spawned_names_distinct_witness:
  "registered_names (dspawn_runs [(\<lambda>_. 1000, 21), (\<lambda>_. 2000, 22)] sample_place) = map (numbered ''dspawnowo'') [0..<length [(\<lambda>_ :: nat. 1000 :: int, 21 :: int), (\<lambda>_. 2000, 22)]] \<and>
    distinct (registered_names (dspawn_runs [(\<lambda>_. 1000, 21), (\<lambda>_. 2000, 22)] sample_place))"
  by (rule spawned_names_distinct)
     (simp_all add: registry_def sample_place_def root_short_def PATH_MAX_def reg_stamp_def stamp_def c_isspace_def)

text \<open>
  C29.  Ending all daemons ends the first 64 that are alive and forgets the rest: exactly the
  listed ones are dead afterwards, and the registry is empty, so the report shows none.
\<close>

theorem kill_all_forgets_registry:
  assumes "registry w ls" and "stdin = CHR ''a'' # rest"
    and "\<forall>e \<in> set (List.map_filter reg_entry ls). pw_kills w (entry_pid e) \<and> entry_pid e \<noteq> pw_pid w"
    and "listed = take MAX_DAEMONS (filter (pw_live w \<circ> entry_pid) (List.map_filter reg_entry ls))" and "listed \<noteq> []"
  shows "\<exists>w'. dkill stdin now w = Some w' \<and> (\<forall>pid. pw_live w' pid \<longleftrightarrow> pw_live w pid \<and> pid \<notin> entry_pid ` set listed) \<and>
    dcheck w' = Some ([], 0)"
proof -
  let ?es = "List.map_filter reg_entry ls"
  have "ls \<noteq> []" using assms(4,5) by (auto simp: map_filter_simps)
  then have t: "read_text (reg_path w) w = Some (concat ls)" using read_registry [OF assms(1)] by blast
  have e: "reg_entries 1023 (concat ls) = ?es" using registry_lines [OF assms(1)] by (simp add: reg_entries_def)
  have l: "live_daemons (pw_live w) ?es [] = map info listed"
    using live_daemons_listed [of "[]" "pw_live w" ?es] assms(4) by (simp add: take_map)
  have pids: "di_pid (info x) = entry_pid x" for x by (simp add: info_def entry_pid_def split: prod.split)
  have "set listed \<subseteq> set ?es" using assms(4) by (auto dest: in_set_takeD)
  then have "\<forall>d \<in> set (map info listed). pw_kills w (di_pid d) \<and> di_pid d \<noteq> pw_pid w"
    using assms(3) pids by auto
  from dkill_all_effect [OF this] obtain w1 where
    w1: "dkill_all (map info listed) now w = (True, w1)" "pw_root w1 = pw_root w" "pw_opens w1 = pw_opens w"
      "\<forall>pid. pw_live w1 pid \<longleftrightarrow> pw_live w pid \<and> pid \<notin> di_pid ` set (map info listed)" by blast
  have o: "pw_opens w (reg_path w)" using assms(1) by (simp add: registry_def)
  have p: "reg_path w1 = reg_path w" by (rule cut_path_root [OF w1(2)])
  let ?w = "w1\<lparr>pw_files := (pw_files w1)(reg_path w \<mapsto> [])\<rparr>"
  have input: "\<exists>cs. cstr (fst (fgets 7 (CHR ''a'' # rest))) = CHR ''a'' # cs"
    by (simp add: numeral_eq_Suc cstr_def split: prod.split)
  have "dkill stdin now w = Some ?w"
    using t e l w1(1,3) o p assms(2,5) input by (auto simp: dkill_def Let_def)
  moreover have "reg_path ?w = reg_path w" using w1(2) by (simp add: cut_path_def tmp_path_def)
  then have "dcheck ?w = Some ([], 0)" using w1(3) o by (simp add: dcheck_def read_text_def fgets_all.simps)
  moreover have "\<forall>pid. pw_live ?w pid \<longleftrightarrow> pw_live w pid \<and> pid \<notin> entry_pid ` set listed"
    using w1(4) by (simp add: image_image pids)
  ultimately show ?thesis by blast
qed

text \<open>A registry with one daemon that runs.\<close>

definition busy_place :: plant_world where
  "busy_place = sample_place\<lparr>pw_files := [reg_path sample_place \<mapsto> reg_line ''fern'' 9 ''Mon''], pw_live := (\<lambda>pid. pid = 9)\<rparr>"

lemma busy_registry:
  "registry busy_place [reg_line ''fern'' 9 ''Mon'']" "List.map_filter reg_entry [reg_line ''fern'' 9 ''Mon''] = [(''fern'', 9, ''Mon'')]"
proof -
  have n: "reg_name ''fern''" "reg_stamp ''Mon''" by (simp_all add: reg_name_def reg_stamp_def c_isspace_def)
  have "full_line 255 (reg_line ''fern'' 9 ''Mon'')" by (rule reg_line_full [OF n reg_line_short [OF n]]) simp_all
  then show "registry busy_place [reg_line ''fern'' 9 ''Mon'']"
    by (simp add: registry_def busy_place_def sample_place_def cut_path_def tmp_path_def)
  show "List.map_filter reg_entry [reg_line ''fern'' 9 ''Mon''] = [(''fern'', 9, ''Mon'')]"
    using reg_entry_line [OF n, of 9] by (simp add: map_filter_simps)
qed

theorem kill_all_forgets_registry_witness:
  "\<exists>w'. dkill (''a'' @ [NL]) 1000 busy_place = Some w' \<and>
    (\<forall>pid. pw_live w' pid \<longleftrightarrow> pw_live busy_place pid \<and> pid \<notin> entry_pid ` set [(''fern'', 9, ''Mon'')]) \<and> dcheck w' = Some ([], 0)"
proof (rule kill_all_forgets_registry [OF busy_registry(1)])
  show "\<forall>e \<in> set (List.map_filter reg_entry [reg_line ''fern'' 9 ''Mon'']). pw_kills busy_place (entry_pid e) \<and> entry_pid e \<noteq> pw_pid busy_place"
    unfolding busy_registry(2) by (simp add: busy_place_def sample_place_def)
  show "[(''fern'', 9, ''Mon'')] = take MAX_DAEMONS (filter (pw_live busy_place \<circ> entry_pid) (List.map_filter reg_entry [reg_line ''fern'' 9 ''Mon'']))"
    unfolding busy_registry(2) by (simp add: busy_place_def MAX_DAEMONS_def)
qed simp_all

text \<open>
  A plant with a name of 128 characters or more breaks the report: \<open>dplant\<close> registers the
  whole name, and \<open>dcheck\<close> scans it into a buffer of 128 bytes.
\<close>

theorem long_plant_name_overruns_report:
  assumes "registry w []" and "128 \<le> length name" and "list_all (\<lambda>c. \<not> c_isspace c \<and> c \<noteq> NUL) name"
    and "length (reg_line name (pw_pid w) (stamp w now)) \<le> 1023" and "NUL \<notin> set (stamp w now)"
  shows "dcheck (daemon_register name now w) = None"
proof -
  let ?l = "reg_line name (pw_pid w) (stamp w now)"
  let ?rest = "dec_int (pw_pid w) @ CHR '' '' # stamp w now @ [NL]"
  have sp: "c_isspace (CHR '' '')" "c_isspace NL" by (simp_all add: c_isspace_def)
  have c: "\<forall>c \<in> set name. \<not> c_isspace c \<and> c \<noteq> NUL" using assms(3) by (simp only: list_all_iff)
  have "NUL \<notin> set name" using c by blast
  moreover have "NL \<notin> set name" using c sp(2) by blast
  moreover have "name \<noteq> []" using assms(2) by (intro notI) simp
  ultimately have n: "\<forall>c \<in> set name. \<not> c_isspace c" "NUL \<notin> set name" "NL \<notin> set name" "name \<noteq> []"
    using c by simp_all
  have "\<not> is_daemon_registered name w" using registered_lines(1) [OF assms(1)] by (simp add: map_filter_simps)
  then have reg: "daemon_register name now w = append_line (reg_path w) ?l w" by (simp add: daemon_register_def)
  have "NL \<notin> set (stamp w now)" by (auto simp: stamp_def dest: set_takeWhileD)
  then have full: "full_line 1023 ?l"
    using n(2,3) assms(4,5) by (simp add: full_line_def reg_line_def butlast_append)
  have "pw_files (append_line (reg_path w) ?l w) (reg_path w) = Some ?l" "pw_opens w (reg_path w)"
    using assms(1) by (auto simp: registry_def append_line_def append_text_def split: option.split)
  moreover have "reg_path (append_line (reg_path w) ?l w) = reg_path w" by (rule cut_path_root) simp
  ultimately have t: "read_text (reg_path (append_line (reg_path w) ?l w)) (append_line (reg_path w) ?l w) = Some ?l"
    by (simp add: read_text_def)
  have one: "fgets_all 1023 ?l = [?l]" using fgets_all_concat [of "[?l]" 1023] full by simp
  have "cstr ?l = name @ CHR '' '' # ?rest" using n(2) assms(5) by (simp add: reg_line_def)
  moreover have "dropWhile c_isspace (name @ CHR '' '' # ?rest) = name @ CHR '' '' # ?rest" using n(1,4) by (cases name) auto
  moreover have "scan_take None (\<lambda>c. \<not> c_isspace c) (name @ CHR '' '' # ?rest) = name"
    using n(1) sp(1) by (simp add: scan_take_def takeWhile_append2)
  ultimately obtain vs where "sscanf fmt_check (cstr ?l) = SStr name # vs"
    using scan_first_word n(4) unfolding fmt_check_def by metis
  then have "check_lines (pw_live w) [?l] = None" using assms(2) by (simp add: word_fits_def)
  then show ?thesis using t one by (simp add: reg dcheck_def)
qed

theorem long_plant_name_overruns_report_witness:
  "dcheck (daemon_register (replicate 130 CHR ''x'') 1000 sample_place) = None"
  by (rule long_plant_name_overruns_report)
     (simp_all add: registry_def sample_place_def c_isspace_def reg_line_def stamp_def dec_int_def dec.simps list_all_iff)

end
