(* ===== verification/Listing.thy ===== *)
theory Listing
  imports Cstring
begin

text \<open>
  The programs that list directories: \<open>ld.c\<close> (one directory), \<open>ldr.c\<close> (recursively) and
  \<open>find.c\<close> (names that contain a keyword), under \<open>src/tetrish/system_programs\<close>.  What they see
  of the file system is the record \<open>fsys\<close>; it does not change while they run.  They go down
  the tree by recursion on paths and keep every directory above the current one open: \<open>free\<close>
  is the number of descriptors a program can still open, and \<open>opendir\<close> fails when there is
  none left (\<open>EMFILE\<close>), which is what ends the recursion in a file system that does not.
  \<open>None\<close> is undefined behaviour.  Closing a directory is assumed to succeed.
\<close>

section \<open>The file system\<close>

record dirent =
  d_name :: string
  d_type :: u8

text \<open>A directory that does not open gives the text of \<open>strerror\<close>.\<close>

record fsys =
  fs_emfile :: string
  fs_opendir :: "string \<Rightarrow> string + dirent list"
  fs_stat :: "string \<Rightarrow> u32 option"

definition opendir :: "fsys \<Rightarrow> nat \<Rightarrow> string \<Rightarrow> string + dirent list" where
  "opendir fs free path = (if free = 0 then Inl (fs_emfile fs) else fs_opendir fs path)"

lemma opendir_Inr: "opendir fs free path = Inr es \<longleftrightarrow> 0 < free \<and> fs_opendir fs path = Inr es"
  by (simp add: opendir_def)

text \<open>What is written to the two streams; \<open>perror\<close> also appends the text of the error.\<close>

datatype emitted = Out string | Err string

section \<open>Permissions\<close>

unbundle bit_operations_syntax

definition S_IFMT :: u32 where "S_IFMT = 0xF000"

definition S_ISDIR :: "u32 \<Rightarrow> bool" where "S_ISDIR mode = (mode AND S_IFMT = 0x4000)"
definition S_ISCHR :: "u32 \<Rightarrow> bool" where "S_ISCHR mode = (mode AND S_IFMT = 0x2000)"
definition S_ISBLK :: "u32 \<Rightarrow> bool" where "S_ISBLK mode = (mode AND S_IFMT = 0x6000)"

definition S_IRUSR :: u32 where "S_IRUSR = 0x100"
definition S_IWUSR :: u32 where "S_IWUSR = 0x080"
definition S_IXUSR :: u32 where "S_IXUSR = 0x040"
definition S_IRGRP :: u32 where "S_IRGRP = 0x020"
definition S_IWGRP :: u32 where "S_IWGRP = 0x010"
definition S_IXGRP :: u32 where "S_IXGRP = 0x008"
definition S_IROTH :: u32 where "S_IROTH = 0x004"
definition S_IWOTH :: u32 where "S_IWOTH = 0x002"
definition S_IXOTH :: u32 where "S_IXOTH = 0x001"

text \<open>\<open>if (cond) str[i] = c;\<close>\<close>

definition put_if :: "bool \<Rightarrow> nat \<Rightarrow> char \<Rightarrow> string \<Rightarrow> string" where
  "put_if cond i c str = (if cond then str[i := c] else str)"

definition perms_to_string :: "u32 \<Rightarrow> string" where
  "perms_to_string mode =
     (let str = ''----------'';
          str = put_if (S_ISDIR mode) 0 (CHR ''d'') str;
          str = put_if (S_ISCHR mode) 0 (CHR ''c'') str;
          str = put_if (S_ISBLK mode) 0 (CHR ''b'') str;
          str = put_if (mode AND S_IRUSR \<noteq> 0) 1 (CHR ''r'') str;
          str = put_if (mode AND S_IWUSR \<noteq> 0) 2 (CHR ''w'') str;
          str = put_if (mode AND S_IXUSR \<noteq> 0) 3 (CHR ''x'') str;
          str = put_if (mode AND S_IRGRP \<noteq> 0) 4 (CHR ''r'') str;
          str = put_if (mode AND S_IWGRP \<noteq> 0) 5 (CHR ''w'') str;
          str = put_if (mode AND S_IXGRP \<noteq> 0) 6 (CHR ''x'') str;
          str = put_if (mode AND S_IROTH \<noteq> 0) 7 (CHR ''r'') str;
          str = put_if (mode AND S_IWOTH \<noteq> 0) 8 (CHR ''w'') str
      in put_if (mode AND S_IXOTH \<noteq> 0) 9 (CHR ''x'') str)"

section \<open>\<open>ld\<close>\<close>

definition COLOR_RED :: string where "COLOR_RED = CHR 0x1B # ''[31m''"
definition COLOR_GREEN :: string where "COLOR_GREEN = CHR 0x1B # ''[32m''"
definition COLOR_YELLOW :: string where "COLOR_YELLOW = CHR 0x1B # ''[33m''"
definition COLOR_RESET :: string where "COLOR_RESET = CHR 0x1B # ''[0m''"

definition dotfile :: "dirent \<Rightarrow> bool" where
  "dotfile e = (case d_name e of c # _ \<Rightarrow> c = CHR ''.'' | [] \<Rightarrow> False)"

definition ld_entry :: "fsys \<Rightarrow> dirent \<Rightarrow> emitted list" where
  "ld_entry fs e =
     (if dotfile e then []
      else case fs_stat fs (d_name e) of
          Some mode \<Rightarrow> [Out (COLOR_RED @ perms_to_string mode @ '' '' @ COLOR_GREEN @ d_name e @ [NL] @ COLOR_RESET)]
        | None \<Rightarrow> [Err ''stat failed''])"

definition ld_list :: "fsys \<Rightarrow> nat \<Rightarrow> emitted list" where
  "ld_list fs free =
     (case opendir fs free ''.'' of
        Inr es \<Rightarrow> concat (map (ld_entry fs) es)
      | Inl _ \<Rightarrow> [Out (''Directory doesn'' @ [CHR 0x27] @ ''t exist. '' @ [NL])])"

text \<open>
  A run is replaced by another program, which gets the arguments, or returns its output and
  exit status.  The token ends the argument in place.
\<close>

datatype run = Replaced string "string list" | Returned "emitted list" int

definition is_opt_delim :: "char \<Rightarrow> bool" where "is_opt_delim c = (c = CHR ''-'')"

definition ld_execute :: "fsys \<Rightarrow> nat \<Rightarrow> (string \<Rightarrow> bool) \<Rightarrow> string list \<Rightarrow> run" where
  "ld_execute fs free executable args =
     (case args of
        a0 # a1 # rest \<Rightarrow>
          (case strtok_all is_opt_delim a1 of
             token # _ \<Rightarrow>
               if token = ''r''
               then if executable ''./bin/ldr''
                 then Replaced ''./bin/ldr'' (a0 # (takeWhile is_opt_delim a1 @ token) # rest)
                 else Returned [Err ''Failed to execute, command is invalid.''] 1
               else Returned [Out (''Invalid option. Use -r to display all files within the current directory and its subdirectories.'' @ [NL])] 0
           | [] \<Rightarrow> Returned (ld_list fs free) 0)
      | _ \<Rightarrow> Returned (ld_list fs free) 0)"

section \<open>\<open>ldr\<close>\<close>

definition print_path_with_colored_slash :: "string \<Rightarrow> string" where
  "print_path_with_colored_slash path =
     concat (map (\<lambda>c. if c = CHR ''/'' then COLOR_YELLOW @ ''/'' @ COLOR_GREEN @ COLOR_RESET else [c]) path)"

definition ldr_line :: "u32 \<Rightarrow> string \<Rightarrow> string" where
  "ldr_line mode path =
     COLOR_RED @ perms_to_string mode @ '' '' @ COLOR_RESET @ print_path_with_colored_slash path @ [NL]"

definition ldr_skips :: "dirent \<Rightarrow> bool" where
  "ldr_skips e = (d_name e = ''.'' \<or> d_name e = ''..'' \<or> dotfile e)"

text \<open>
  \<open>snprintf\<close> cuts the path off at the size of its buffer.  After a failed \<open>stat\<close> the code
  examines a mode nobody has set.
\<close>

definition ldr_path :: "string \<Rightarrow> dirent \<Rightarrow> string" where
  "ldr_path basePath e = take 999 (basePath @ ''/'' @ d_name e)"

function ldr_entries :: "fsys \<Rightarrow> nat \<Rightarrow> string \<Rightarrow> dirent list \<Rightarrow> string option" where
  "ldr_entries fs free basePath [] = Some []"
| "ldr_entries fs free basePath (e # es) =
     (if ldr_skips e then ldr_entries fs free basePath es
      else (case fs_stat fs (ldr_path basePath e) of
          None \<Rightarrow> None
        | Some mode \<Rightarrow> do {
            below \<leftarrow> (if S_ISDIR mode
               then (case opendir fs free (ldr_path basePath e) of
                       Inl _ \<Rightarrow> Some []
                     | Inr sub \<Rightarrow> ldr_entries fs (free - 1) (ldr_path basePath e) sub)
               else Some []);
            rest \<leftarrow> ldr_entries fs free basePath es;
            Some (ldr_line mode (ldr_path basePath e) @ below @ rest)
          }))"
  by pat_completeness auto
termination
  by (relation "measures [\<lambda>(fs, free, p, es). free, \<lambda>(fs, free, p, es). length es]") (auto simp: opendir_Inr)

definition list_directory :: "fsys \<Rightarrow> nat \<Rightarrow> string \<Rightarrow> string option" where
  "list_directory fs free basePath =
     (case opendir fs free basePath of Inl _ \<Rightarrow> Some [] | Inr es \<Rightarrow> ldr_entries fs (free - 1) basePath es)"

definition ldr_main :: "fsys \<Rightarrow> nat \<Rightarrow> string option" where
  "ldr_main fs free = list_directory fs free ''.''"

section \<open>\<open>find\<close>\<close>

fun strstr :: "string \<Rightarrow> string \<Rightarrow> string option" where
  "strstr s needle =
     (if prefix needle s then Some s else case s of [] \<Rightarrow> None | _ # cs \<Rightarrow> strstr cs needle)"

declare strstr.simps [simp del]

definition DT_DIR :: u8 where "DT_DIR = 4"

definition find_hit :: "string \<Rightarrow> string \<Rightarrow> dirent \<Rightarrow> emitted list" where
  "find_hit to_match dir_name e =
     (if strstr (d_name e) to_match \<noteq> None then [Out (dir_name @ ''/'' @ d_name e @ [NL])] else [])"

definition find_enters :: "dirent \<Rightarrow> bool" where
  "find_enters e = (d_type e AND DT_DIR \<noteq> 0 \<and> d_name e \<noteq> ''..'' \<and> d_name e \<noteq> ''.'')"

definition cannot_open :: "string \<Rightarrow> string \<Rightarrow> emitted" where
  "cannot_open dir_name err = Err (''Cannot open directory '' @ [CHR 0x27] @ dir_name @ [CHR 0x27] @ '': '' @ err @ [NL])"

text \<open>\<open>snprintf\<close> has a limit of 1024 although the buffer holds \<open>PATH_MAX\<close> characters.\<close>

definition find_path :: "string \<Rightarrow> dirent \<Rightarrow> string" where
  "find_path dir_name e = take 1023 (dir_name @ ''/'' @ d_name e)"

text \<open>The flag is \<open>False\<close> once the program has exited for a path that is too long.\<close>

function find_entries :: "fsys \<Rightarrow> string \<Rightarrow> nat \<Rightarrow> string \<Rightarrow> dirent list \<Rightarrow> bool \<times> emitted list" where
  "find_entries fs to_match free dir_name [] = (True, [])"
| "find_entries fs to_match free dir_name (e # es) =
     (let (running, below) =
        (if find_enters e
         then if length (dir_name @ ''/'' @ d_name e) \<ge> PATH_MAX
           then (False, [Err (''Path length has got too long.'' @ [NL])])
           else (case opendir fs free (find_path dir_name e) of
                Inl err \<Rightarrow> (True, [cannot_open (find_path dir_name e) err])
              | Inr sub \<Rightarrow> find_entries fs to_match (free - 1) (find_path dir_name e) sub)
         else (True, []))
      in if running
         then let (running, rest) = find_entries fs to_match free dir_name es
           in (running, find_hit to_match dir_name e @ below @ rest)
         else (False, find_hit to_match dir_name e @ below))"
  by pat_completeness auto
termination
  by (relation "measures [\<lambda>(fs, k, free, p, es). free, \<lambda>(fs, k, free, p, es). length es]") (auto simp: opendir_Inr)

text \<open>The exit status and the output.  Only a program started by the name \<open>find\<close> looks into \<open>.\<close>.\<close>

definition find_execute :: "fsys \<Rightarrow> nat \<Rightarrow> string list \<Rightarrow> int \<times> emitted list" where
  "find_execute fs free args =
     (case args of
        dir_name # to_match # _ \<Rightarrow>
          let dir_name = (if dir_name = ''find'' then ''.'' else dir_name) in
          (case opendir fs free dir_name of
             Inl err \<Rightarrow> (1, [cannot_open dir_name err])
           | Inr es \<Rightarrow>
               let (running, out) = find_entries fs to_match (free - 1) dir_name es
               in (if running then 0 else 1, out))
      | _ \<Rightarrow> (1, [Out (''Usage: find [keyword], to find any matching filename in this directory or its children'' @ [NL])]))"

end
