(* ===== verification/Listing_Laws.thy ===== *)
theory Listing_Laws
  imports Listing
begin

text \<open>
  The listing programs against the directory tree: the permission string determines the
  permission bits, \<open>ldr\<close> and \<open>find\<close> print exactly what a walk over the tree prescribes as long
  as the paths fit their buffers and descriptors are left, and a directory whose path just fits is
  listed again and again.
\<close>

unbundle bit_operations_syntax

section \<open>Permissions\<close>

text \<open>The permission bits that a string of ten characters stands for.\<close>

definition shown_bit :: "string \<Rightarrow> nat \<Rightarrow> u32 \<Rightarrow> u32" where
  "shown_bit str i b = (if str ! i \<noteq> CHR ''-'' then b else 0)"

definition parse_perms :: "string \<Rightarrow> u32" where
  "parse_perms str =
     shown_bit str 1 S_IRUSR OR shown_bit str 2 S_IWUSR OR shown_bit str 3 S_IXUSR OR
     shown_bit str 4 S_IRGRP OR shown_bit str 5 S_IWGRP OR shown_bit str 6 S_IXGRP OR
     shown_bit str 7 S_IROTH OR shown_bit str 8 S_IWOTH OR shown_bit str 9 S_IXOTH"

lemma put_if_length [simp]: "length (put_if c i x s) = length s"
  by (simp add: put_if_def)

lemma put_if_nth: "i < length s \<Longrightarrow> put_if c i x s ! j = (if c \<and> i = j then x else s ! j)"
  by (auto simp: put_if_def)

lemmas mode_bits = S_IRUSR_def S_IWUSR_def S_IXUSR_def S_IRGRP_def S_IWGRP_def S_IXGRP_def
  S_IROTH_def S_IWOTH_def S_IXOTH_def

text \<open>A mask with one bit leaves nothing or itself.\<close>

lemma one_bit_mask: "(mode :: u32) AND 2 ^ k \<noteq> 0 \<Longrightarrow> mode AND 2 ^ k = 2 ^ k"
  by (rule bit_word_eqI) (auto simp: and_exp_eq_0_iff_not_bit bit_and_iff bit_exp_iff)

lemma shown_mask:
  "shown_bit (perms_to_string mode) i b = (if mode AND b \<noteq> 0 then b else 0) \<Longrightarrow> b = 2 ^ k \<Longrightarrow>
     shown_bit (perms_to_string mode) i b = mode AND b"
  using one_bit_mask [of mode k] by auto

lemma perms_nth:
  "perms_to_string mode ! 0 = (if S_ISBLK mode then CHR ''b'' else if S_ISCHR mode then CHR ''c'' else if S_ISDIR mode then CHR ''d'' else CHR ''-'')"
  "perms_to_string mode ! Suc 0 = (if mode AND S_IRUSR \<noteq> 0 then CHR ''r'' else CHR ''-'')"
  "perms_to_string mode ! 2 = (if mode AND S_IWUSR \<noteq> 0 then CHR ''w'' else CHR ''-'')"
  "perms_to_string mode ! 3 = (if mode AND S_IXUSR \<noteq> 0 then CHR ''x'' else CHR ''-'')"
  "perms_to_string mode ! 4 = (if mode AND S_IRGRP \<noteq> 0 then CHR ''r'' else CHR ''-'')"
  "perms_to_string mode ! 5 = (if mode AND S_IWGRP \<noteq> 0 then CHR ''w'' else CHR ''-'')"
  "perms_to_string mode ! 6 = (if mode AND S_IXGRP \<noteq> 0 then CHR ''x'' else CHR ''-'')"
  "perms_to_string mode ! 7 = (if mode AND S_IROTH \<noteq> 0 then CHR ''r'' else CHR ''-'')"
  "perms_to_string mode ! 8 = (if mode AND S_IWOTH \<noteq> 0 then CHR ''w'' else CHR ''-'')"
  "perms_to_string mode ! 9 = (if mode AND S_IXOTH \<noteq> 0 then CHR ''x'' else CHR ''-'')"
  by (simp_all add: perms_to_string_def Let_def put_if_nth)

lemma perms_length: "length (perms_to_string mode) = 10"
  by (simp add: perms_to_string_def Let_def)

section \<open>Directory trees\<close>

text \<open>
  What \<open>stat\<close> and \<open>opendir\<close> show under a path: a file, a directory with its entries in the order
  of \<open>readdir\<close>, or one of the entries \<open>.\<close> and \<open>..\<close>.
\<close>

datatype tree = Leaf u32 | Node u32 "(dirent \<times> tree) list" | Dots

fun tree_mode :: "tree \<Rightarrow> u32" where
  "tree_mode (Leaf m) = m"
| "tree_mode (Node m _) = m"
| "tree_mode Dots = 0"

definition below :: "string \<Rightarrow> dirent \<Rightarrow> string" where
  "below p e = p @ ''/'' @ d_name e"

fun mounted :: "fsys \<Rightarrow> string \<Rightarrow> tree \<Rightarrow> bool" and mounteds :: "fsys \<Rightarrow> string \<Rightarrow> (dirent \<times> tree) list \<Rightarrow> bool" where
  "mounted fs p (Leaf m) = (fs_stat fs p = Some m \<and> \<not> S_ISDIR m)"
| "mounted fs p (Node m kids) =
     (fs_stat fs p = Some m \<and> S_ISDIR m \<and> fs_opendir fs p = Inr (map fst kids) \<and> mounteds fs p kids)"
| "mounted fs p Dots = True"
| "mounteds fs p [] = True"
| "mounteds fs p ((e, t) # kids) =
     ((t = Dots \<longleftrightarrow> d_name e = ''.'' \<or> d_name e = ''..'') \<and> mounted fs (below p e) t \<and> mounteds fs p kids)"

text \<open>The visible entries below a directory, each directory before its contents.\<close>

fun listing :: "string \<Rightarrow> tree \<Rightarrow> (u32 \<times> string) list" and listings :: "string \<Rightarrow> (dirent \<times> tree) list \<Rightarrow> (u32 \<times> string) list" where
  "listing p (Leaf m) = []"
| "listing p (Node m kids) = listings p kids"
| "listing p Dots = []"
| "listings p [] = []"
| "listings p ((e, t) # kids) =
     (if dotfile e then [] else (tree_mode t, below p e) # listing (below p e) t) @ listings p kids"

text \<open>The directories that are open at once when a walk is at its deepest point.\<close>

fun depth :: "tree \<Rightarrow> nat" and depths :: "(dirent \<times> tree) list \<Rightarrow> nat" where
  "depth (Leaf m) = 0"
| "depth (Node m kids) = Suc (depths kids)"
| "depth Dots = 0"
| "depths [] = 0"
| "depths ((e, t) # kids) = max (depth t) (depths kids)"

text \<open>
  All entries below a directory, entered or not, and those whose name contains a keyword.  A
  search goes into the entries of type directory (4), so not into links to directories.
\<close>

fun paths :: "string \<Rightarrow> tree \<Rightarrow> string list" and pathss :: "string \<Rightarrow> (dirent \<times> tree) list \<Rightarrow> string list" where
  "paths p (Leaf m) = []"
| "paths p (Node m kids) = pathss p kids"
| "paths p Dots = []"
| "pathss p [] = []"
| "pathss p ((e, t) # kids) = below p e # paths (below p e) t @ pathss p kids"

fun matches :: "string \<Rightarrow> string \<Rightarrow> tree \<Rightarrow> string list" and matchess :: "string \<Rightarrow> string \<Rightarrow> (dirent \<times> tree) list \<Rightarrow> string list" where
  "matches k p (Leaf m) = []"
| "matches k p (Node m kids) = matchess k p kids"
| "matches k p Dots = []"
| "matchess k p [] = []"
| "matchess k p ((e, t) # kids) =
     (if sublist k (d_name e) then [below p e] else []) @
     (if d_type e = 4 then matches k (below p e) t else []) @ matchess k p kids"

text \<open>
  Every entry is a pipe (1), a character device (2), a directory (4), a regular file (8) or a
  link (10), and only directories have the type of one; what \<open>stat\<close> sees behind a link may be
  a directory.
\<close>

fun plain_types :: "tree \<Rightarrow> bool" and plain_typess :: "(dirent \<times> tree) list \<Rightarrow> bool" where
  "plain_types (Leaf m) = True"
| "plain_types (Node m kids) = plain_typess kids"
| "plain_types Dots = True"
| "plain_typess [] = True"
| "plain_typess ((e, t) # kids) =
     (d_type e \<in> {1, 2, 4, 8, 10} \<and> (case t of Leaf _ \<Rightarrow> d_type e \<noteq> 4 | _ \<Rightarrow> True) \<and> plain_types t \<and> plain_typess kids)"

lemma dots_skipped: "d_name e = ''.'' \<or> d_name e = ''..'' \<Longrightarrow> dotfile e"
  by (auto simp: dotfile_def)

lemma ldr_skips_dotfile [simp]: "ldr_skips e = dotfile e"
  using dots_skipped [of e] by (auto simp: ldr_skips_def)

section \<open>\<open>ldr\<close> walks the tree\<close>

definition ldr_text :: "(u32 \<times> string) list \<Rightarrow> string" where
  "ldr_text ls = concat (map (\<lambda>(m, q). ldr_line m q) ls)"

lemma ldr_text_simps [simp]: "ldr_text [] = []" "ldr_text (x # ls) = ldr_line (fst x) (snd x) @ ldr_text ls"
  "ldr_text (ls @ ms) = ldr_text ls @ ldr_text ms"
  by (simp_all add: ldr_text_def split: prod.split)

lemma ldr_path_fits: "length (below p e) \<le> 999 \<Longrightarrow> ldr_path p e = below p e"
  by (simp add: ldr_path_def below_def)

lemma ldr_walk:
  "mounted fs p t \<Longrightarrow> depth t \<le> Suc free \<Longrightarrow> (\<forall>x \<in> set (listing p t). length (snd x) \<le> 999) \<Longrightarrow>
     (\<forall>m kids. t = Node m kids \<longrightarrow> ldr_entries fs free p (map fst kids) = Some (ldr_text (listing p t)))"
  "mounteds fs p kids \<Longrightarrow> depths kids \<le> free \<Longrightarrow> (\<forall>x \<in> set (listings p kids). length (snd x) \<le> 999) \<Longrightarrow>
     ldr_entries fs free p (map fst kids) = Some (ldr_text (listings p kids))"
proof (induction p t and p kids arbitrary: free and free rule: listing_listings.induct)
  case (5 p e t kids)
  have rest: "ldr_entries fs free p (map fst kids) = Some (ldr_text (listings p kids))"
    using 5 by simp
  show ?case
  proof (cases "dotfile e")
    case True
    then show ?thesis using rest by simp
  next
    case False
    then have t: "t \<noteq> Dots" "mounted fs (below p e) t" using "5.prems"(1) dots_skipped [of e] by auto
    have "ldr_path p e = below p e" using "5.prems"(3) False by (intro ldr_path_fits) simp
    moreover have "\<forall>m kids. t = Node m kids \<longrightarrow>
        ldr_entries fs (free - 1) (below p e) (map fst kids) = Some (ldr_text (listing (below p e) t))"
      by (rule "5.IH"(1)) (use False t(2) "5.prems"(2,3) in auto)
    ultimately show ?thesis using t rest False "5.prems"(2) by (cases t) (simp_all add: opendir_def)
  qed
qed simp_all

section \<open>\<open>find\<close> walks the tree\<close>

lemma strstr_sublist: "strstr s k \<noteq> None \<longleftrightarrow> sublist k s"
  by (induction s) (subst strstr.simps, simp add: sublist_Cons_right)+

definition find_text :: "string list \<Rightarrow> emitted list" where
  "find_text qs = map (\<lambda>q. Out (q @ [NL])) qs"

lemma find_text_simps [simp]:
  "find_text [] = []" "find_text (q # qs) = Out (q @ [NL]) # find_text qs" "find_text (qs @ rs) = find_text qs @ find_text rs"
  by (simp_all add: find_text_def)

lemma find_hit_matches: "find_hit k p e = find_text (if sublist k (d_name e) then [below p e] else [])"
  using strstr_sublist [of "d_name e" k] by (simp add: find_hit_def below_def)

lemma find_path_fits:
  "length (below p e) \<le> 1023 \<Longrightarrow> find_path p e = below p e"
  "length (below p e) \<le> 1023 \<Longrightarrow> length (p @ ''/'' @ d_name e) < PATH_MAX"
  by (simp_all add: find_path_def below_def PATH_MAX_def)

lemma find_enters_dir:
  "d_type e \<in> {1, 2, 4, 8, 10} \<Longrightarrow> find_enters e \<longleftrightarrow> d_type e = 4 \<and> d_name e \<noteq> ''.'' \<and> d_name e \<noteq> ''..''"
  by (auto simp: find_enters_def DT_DIR_def)

lemma find_step:
  assumes "find_entries fs k free p es = (True, rest)"
    and "find_enters e \<Longrightarrow> length (below p e) \<le> 1023"
    and "find_enters e \<Longrightarrow> \<exists>sub. opendir fs free (below p e) = Inr sub \<and> find_entries fs k (free - 1) (below p e) sub = (True, out)"
    and "\<not> find_enters e \<Longrightarrow> out = []"
  shows "find_entries fs k free p (e # es) = (True, find_hit k p e @ out @ rest)"
  using assms find_path_fits [of p e] by (cases "find_enters e") force+

lemma find_walk:
  "mounted fs p t \<Longrightarrow> plain_types t \<Longrightarrow> depth t \<le> Suc free \<Longrightarrow> (\<forall>q \<in> set (paths p t). length q \<le> 1023) \<Longrightarrow>
     (\<forall>m kids. t = Node m kids \<longrightarrow> find_entries fs k free p (map fst kids) = (True, find_text (matches k p t)))"
  "mounteds fs p kids \<Longrightarrow> plain_typess kids \<Longrightarrow> depths kids \<le> free \<Longrightarrow> (\<forall>q \<in> set (pathss p kids). length q \<le> 1023) \<Longrightarrow>
     find_entries fs k free p (map fst kids) = (True, find_text (matchess k p kids))"
proof (induction p t and p kids arbitrary: free and free rule: paths_pathss.induct)
  case (5 p e t kids)
  have rest: "find_entries fs k free p (map fst kids) = (True, find_text (matchess k p kids))"
    using 5 by simp
  have sub: "\<forall>m kids. t = Node m kids \<longrightarrow>
      find_entries fs k (free - 1) (below p e) (map fst kids) = (True, find_text (matches k (below p e) t))"
    by (rule "5.IH"(1)) (use "5.prems" in auto)
  have ty: "d_type e \<in> {1, 2, 4, 8, 10}" using "5.prems"(2) by simp
  have dots: "t = Dots \<longleftrightarrow> d_name e = ''.'' \<or> d_name e = ''..''" using "5.prems"(1) by simp
  have "find_entries fs k free p (e # map fst kids) =
      (True, find_hit k p e @ find_text (if d_type e = 4 then matches k (below p e) t else []) @ find_text (matchess k p kids))"
  proof (rule find_step [OF rest])
    show "length (below p e) \<le> 1023" using "5.prems"(4) by simp
    assume e: "find_enters e"
    then have d: "d_type e = 4" "t \<noteq> Dots" using find_enters_dir [OF ty] dots by auto
    then obtain m ks where "t = Node m ks" using "5.prems"(2) by (cases t) auto
    with d sub "5.prems"(1,3) show "\<exists>sub. opendir fs free (below p e) = Inr sub \<and>
        find_entries fs k (free - 1) (below p e) sub = (True, find_text (if d_type e = 4 then matches k (below p e) t else []))"
      by (simp add: opendir_def)
  next
    assume "\<not> find_enters e"
    then show "find_text (if d_type e = 4 then matches k (below p e) t else []) = []"
      using find_enters_dir [OF ty] dots by auto
  qed
  then show ?case by (simp add: find_hit_matches)
qed simp_all

section \<open>A directory entered again\<close>

text \<open>Each of \<open>k\<close> visible entries prints its line and the lines of the levels below it.\<close>

fun repeats :: "nat \<Rightarrow> nat \<Rightarrow> nat" where
  "repeats k 0 = 0"
| "repeats k (Suc n) = k * Suc (repeats k n)"

lemma repeats_powers: "repeats k n = (\<Sum>i = 1..n. k ^ i)"
proof (induction n)
  case (Suc n)
  have "(\<Sum>i = 1..Suc n. k ^ i) = k + (\<Sum>i = 2..Suc n. k ^ i)"
    by (simp add: sum.atLeast_Suc_atMost numeral_2_eq_2)
  also have "(\<Sum>i = 2..Suc n. k ^ i) = (\<Sum>i = 1..n. k * k ^ i)"
    using sum.shift_bounds_cl_Suc_ivl [of "\<lambda>i. k ^ i" 1 n] by (simp add: numeral_2_eq_2)
  also have "\<dots> = k * repeats k n" by (simp add: Suc.IH sum_distrib_left)
  finally show ?case by simp
qed simp

abbreviation visible :: "dirent list \<Rightarrow> dirent list" where
  "visible es \<equiv> filter (\<lambda>e. \<not> dotfile e) es"

lemma ldr_again:
  assumes "length p = 998" and "fs_opendir fs (p @ ''/'') = Inr es" and "fs_stat fs (p @ ''/'') = Some m" and "S_ISDIR m"
  shows "b = p \<or> b = p @ ''/'' \<Longrightarrow> ldr_entries fs free b sub =
    Some (concat (replicate (length (visible sub) * Suc (repeats (length (visible es)) free)) (ldr_line m (p @ ''/''))))"
proof (induction free arbitrary: b sub)
  case 0
  then have "ldr_path b e = p @ ''/''" for e using assms(1) by (auto simp: ldr_path_def)
  then show ?case by (induction sub) (simp_all add: assms(3,4) opendir_def)
next
  case (Suc free)
  then have path: "ldr_path b e = p @ ''/''" for e using assms(1) by (auto simp: ldr_path_def)
  have "ldr_entries fs free (p @ ''/'') es = Some (concat (replicate (repeats (length (visible es)) (Suc free)) (ldr_line m (p @ ''/''))))"
    using Suc.IH [of "p @ ''/''" es] by simp
  then show ?case by (induction sub) (simp_all add: path assms(2-4) opendir_def replicate_add del: repeats.simps mult_Suc_right)
qed

section \<open>Properties\<close>

text \<open>A directory with a program and a hidden file, and one that shows the same entry everywhere.\<close>

definition entry :: "string \<Rightarrow> u8 \<Rightarrow> dirent" where
  "entry n t = \<lparr>d_name = n, d_type = t\<rparr>"

definition sample_kids :: "(dirent \<times> tree) list" where
  "sample_kids =
     [(entry ''.'' 4, Dots), (entry ''..'' 4, Dots), (entry ''.rc'' 8, Leaf 0x81A4),
      (entry ''bin'' 4, Node 0x41ED [(entry ''ldr'' 8, Leaf 0x81ED)])]"

definition sample_fs :: fsys where
  "sample_fs =
     \<lparr>fs_emfile = ''Too many open files'', fs_opendir = (\<lambda>p. if p = ''.'' then Inr (map fst sample_kids) else if p = ''./bin'' then Inr [entry ''ldr'' 8] else Inl ''Not a directory''),
      fs_stat = map_of [(''.'', 0x41ED), (''./.rc'', 0x81A4), (''./bin'', 0x41ED), (''./bin/ldr'', 0x81ED)]\<rparr>"

definition endless_fs :: fsys where
  "endless_fs = \<lparr>fs_emfile = ''Too many open files'', fs_opendir = (\<lambda>_. Inr [entry ''c'' 4, entry ''d'' 4]), fs_stat = (\<lambda>_. Some 0x41ED)\<rparr>"

lemmas sample_defs = sample_fs_def sample_kids_def entry_def S_ISDIR_def S_IFMT_def below_def dotfile_def find_enters_def DT_DIR_def

text \<open>
  The permission string loses nothing: the permission bits of a mode can be read back from
  the string \<open>ld\<close> and \<open>ldr\<close> print, and it has the ten characters its buffer has room for.
\<close>

theorem permissions_read_back: "parse_perms (perms_to_string mode) = mode AND 0x1FF \<and> length (perms_to_string mode) = 10"
proof -
  have "shown_bit (perms_to_string mode) 1 S_IRUSR = mode AND S_IRUSR" "shown_bit (perms_to_string mode) 2 S_IWUSR = mode AND S_IWUSR"
    "shown_bit (perms_to_string mode) 3 S_IXUSR = mode AND S_IXUSR" "shown_bit (perms_to_string mode) 4 S_IRGRP = mode AND S_IRGRP"
    "shown_bit (perms_to_string mode) 5 S_IWGRP = mode AND S_IWGRP" "shown_bit (perms_to_string mode) 6 S_IXGRP = mode AND S_IXGRP"
    "shown_bit (perms_to_string mode) 7 S_IROTH = mode AND S_IROTH" "shown_bit (perms_to_string mode) 8 S_IWOTH = mode AND S_IWOTH"
    "shown_bit (perms_to_string mode) 9 S_IXOTH = mode AND S_IXOTH"
    by (intro shown_mask [where k = 8] shown_mask [where k = 7] shown_mask [where k = 6] shown_mask [where k = 5]
        shown_mask [where k = 4] shown_mask [where k = 3] shown_mask [where k = 2] shown_mask [where k = 1] shown_mask [where k = 0];
        simp add: shown_bit_def perms_nth mode_bits; fail)+
  then have "parse_perms (perms_to_string mode) =
      mode AND (S_IRUSR OR S_IWUSR OR S_IXUSR OR S_IRGRP OR S_IWGRP OR S_IXGRP OR S_IROTH OR S_IWOTH OR S_IXOTH)"
    by (simp only: parse_perms_def bit.conj_disj_distrib)
  then show ?thesis by (simp add: mode_bits perms_length)
qed

text \<open>
  C17.  \<open>ldr\<close> prints the tree: if the paths of all visible entries have at most 999 characters and
  the descriptors suffice for its depth, it returns, and its output has one line for each visible
  entry, each directory before its contents.
\<close>

theorem ldr_prints_tree:
  assumes "mounted fs ''.'' (Node m kids)" and "\<forall>x \<in> set (listing ''.'' (Node m kids)). length (snd x) \<le> 999"
    and "depth (Node m kids) \<le> free"
  shows "ldr_main fs free = Some (concat (map (\<lambda>(m, q). ldr_line m q) (listing ''.'' (Node m kids))))"
  using ldr_walk(1) [OF assms(1) _ assms(2), of "free - 1"] assms(1,3)
  by (simp add: ldr_main_def list_directory_def opendir_def ldr_text_def)

theorem ldr_prints_tree_witness:
  "ldr_main sample_fs 20 = Some (concat (map (\<lambda>(m, q). ldr_line m q) (listing ''.'' (Node 0x41ED sample_kids))))"
  by (rule ldr_prints_tree) (simp_all add: sample_defs)

text \<open>
  C39.  In a directory with a path of 998 characters \<open>ldr\<close> loses its way: the path of an entry is cut
  off to the path of the directory with a slash, which is the directory again.  With \<open>k\<close> visible
  entries and \<open>n\<close> free descriptors it prints that path \<open>k + k\<^sup>2 + ... + k\<^sup>n\<close> times, and no entry.
\<close>

theorem ldr_repeats_directory:
  assumes "fs_opendir fs p = Inr es" and "length p = 998"
    and "fs_opendir fs (p @ ''/'') = Inr es" and "fs_stat fs (p @ ''/'') = Some m" and "S_ISDIR m"
  shows "list_directory fs n p =
    Some (concat (replicate (\<Sum>i = 1..n. length (visible es) ^ i) (ldr_line m (p @ ''/''))))"
proof (cases n)
  case 0
  then show ?thesis by (simp add: list_directory_def opendir_def)
next
  case (Suc k)
  then show ?thesis
    using ldr_again [OF assms(2-5), of p k es] assms(1)
    unfolding repeats_powers [symmetric] Suc by (simp add: list_directory_def opendir_def)
qed

theorem ldr_repeats_directory_witness:
  "list_directory endless_fs 10 (replicate 998 CHR ''d'') =
    Some (concat (replicate (\<Sum>i = 1..10. length (visible [entry ''c'' 4, entry ''d'' 4]) ^ i)
      (ldr_line 0x41ED (replicate 998 CHR ''d'' @ ''/''))))"
  by (rule ldr_repeats_directory) (simp_all add: endless_fs_def sample_defs)

text \<open>
  C18.  \<open>find\<close> prints the matches: started by its plain name in a directory whose paths have at most
  1023 characters, with descriptors for the depth of the tree and without sockets and block
  devices, it prints the path of each entry whose name contains the keyword and nothing else,
  going into every directory but not through links, and returns 0.
\<close>

theorem find_prints_matches:
  assumes "mounted fs ''.'' (Node m kids)" and "plain_typess kids" and "\<forall>q \<in> set (pathss ''.'' kids). length q \<le> 1023"
    and "depth (Node m kids) \<le> free"
  shows "find_execute fs free [''find'', k] = (0, map (\<lambda>q. Out (q @ [NL])) (matches k ''.'' (Node m kids)))"
proof -
  have "depths kids \<le> free - 1" "0 < free" "mounteds fs ''.'' kids" using assms(1,4) by simp_all
  then show ?thesis
    using find_walk(2) [of fs "''.''" kids "free - 1" k] assms(1-3)
    by (simp add: find_execute_def opendir_def find_text_def)
qed

theorem find_prints_matches_witness:
  "find_execute sample_fs 20 [''find'', ''d''] = (0, map (\<lambda>q. Out (q @ [NL])) (matches ''d'' ''.'' (Node 0x41ED sample_kids)))"
  by (rule find_prints_matches) (simp_all add: sample_defs)

end
