(* ===== verification/Sysinfo.thy ===== *)
theory Sysinfo
  imports Cstring
begin

text \<open>
  The program \<open>sys\<close> (\<open>system_programs/sys.c\<close>): the lines of information it collects, the parsing
  of \<open>/etc/os-release\<close>, and its output beside the logo.  What the system reports is the record
  \<open>sys_report\<close>; allocation is assumed to succeed.  \<open>None\<close> is undefined behaviour: the user
  database may have no entry for the user, and its answer is not tested.
\<close>

section \<open>Lines of information\<close>

definition MAX_LINES :: nat where "MAX_LINES = 32"
definition INFO_WIDTH :: nat where "INFO_WIDTH = 80"

record passwd =
  pw_name :: string
  pw_dir :: string
  pw_uid :: u32
  pw_gid :: u32

record sysinfo =
  si_uptime :: int
  si_freeram :: u64
  si_bufferram :: u64
  si_sharedram :: u64
  si_totalram :: u64

record sys_report =
  rp_passwd :: "passwd option"
  rp_sysinfo :: sysinfo
  rp_os_release :: "string option"
  rp_sysname :: string
  rp_release :: string
  rp_machine :: string

text \<open>\<open>vsnprintf\<close> cuts the line off; lines beyond the array are dropped.\<close>

definition display_line :: "string \<Rightarrow> string list \<Rightarrow> string list" where
  "display_line disp info = (if length info \<ge> MAX_LINES then info else info @ [take (INFO_WIDTH - 1) disp])"

text \<open>The conversions \<open>%d\<close> of an unsigned value and \<open>%ld\<close>.\<close>

definition pct_d :: "u32 \<Rightarrow> string" where "pct_d n = dec_int (sint n)"
definition pct_ld :: "u64 \<Rightarrow> string" where "pct_ld n = dec_int (sint n)"

definition userinfo :: "sys_report \<Rightarrow> string list \<Rightarrow> string list option" where
  "userinfo rp info =
     (case rp_passwd rp of
        None \<Rightarrow> None
      | Some pw \<Rightarrow>
          let info = display_line (''User:               '' @ pw_name pw) info;
              info = display_line (''Home:               '' @ pw_dir pw) info
          in Some (display_line (''UID:GID:            '' @ pct_d (pw_uid pw) @ '':'' @ pct_d (pw_gid pw)) info))"

definition resourceinfo :: "sys_report \<Rightarrow> string list \<Rightarrow> string list" where
  "resourceinfo rp info =
     (let si = rp_sysinfo rp;
          info = display_line (''Uptime:             '' @ dec_int (si_uptime si sdiv 60) @ '' min'') info;
          info = display_line (''Free Ram:           '' @ pct_ld (si_freeram si div 1024 div 1024) @ '' MiB'') info;
          info = display_line (''Buffer Ram:         '' @ pct_ld (si_bufferram si div 1024 div 1024) @ '' MiB'') info;
          info = display_line (''Shared Ram:         '' @ pct_ld (si_sharedram si div 1024 div 1024) @ '' MiB'') info
      in display_line (''Total Ram:          '' @ pct_ld (si_totalram si div 1024 div 1024) @ '' MiB'') info)"

definition QUOTE2 :: char where "QUOTE2 = CHR 0x22"

text \<open>The value of a line that starts with the key: up to the closing quote if there is one.\<close>

definition os_name :: "string \<Rightarrow> string" where
  "os_name line =
     (let start = drop (length ''PRETTY_NAME='') line;
          start = (case start of c # cs \<Rightarrow> if c = QUOTE2 then cs else start | [] \<Rightarrow> start)
      in takeWhile (\<lambda>c. c \<noteq> QUOTE2) start)"

fun os_lines :: "string list \<Rightarrow> string list \<Rightarrow> string list" where
  "os_lines [] info = info"
| "os_lines (l # ls) info =
     (if prefix ''PRETTY_NAME='' (cstr l)
      then display_line (''OS:                 '' @ os_name (cstr l)) info
      else os_lines ls info)"

definition systeminfo :: "sys_report \<Rightarrow> string list \<Rightarrow> string list" where
  "systeminfo rp info =
     (case rp_os_release rp of
        None \<Rightarrow> info
      | Some f \<Rightarrow>
          display_line (''Kernel:             '' @ rp_sysname rp @ ''  '' @ rp_release rp @ ''  ('' @ rp_machine rp @ '')'')
            (os_lines (fgets_all 255 f) info))"

section \<open>The output\<close>

text \<open>The block characters of the logo in UTF-8: \<open>^\<close> the upper half, \<open>_\<close> the lower, \<open>#\<close> the whole.\<close>

definition glyph :: "char \<Rightarrow> string" where
  "glyph c =
     (if c = CHR ''^'' then [CHR 0xE2, CHR 0x96, CHR 0x80]
      else if c = CHR ''_'' then [CHR 0xE2, CHR 0x96, CHR 0x84]
      else if c = CHR ''#'' then [CHR 0xE2, CHR 0x96, CHR 0x88]
      else [c])"

definition logo :: "string list" where
  "logo = map (\<lambda>l. concat (map glyph l))
     [''                              '',
      ''   ____                ____   '',
      ''  ##^^##              ##^^##  '',
      '' ##    ## ##      ## ##    ## '',
      '' ##    ## ^#  ##  #^ ##    ## '',
      '' ##    ##  ##_##_##  ##    ## '',
      ''  ##__##   ^##  ##^   ##__##  '',
      ''   ^^^^     ^^  ^^     ^^^^   '',
      ''                              '',
      ''                              '']"

text \<open>
  The rows of the output.  The loop that frees the lines runs over the array up to the number
  of rows.
\<close>

definition sys_row :: "string list \<Rightarrow> nat \<Rightarrow> string" where
  "sys_row info i =
     (if i < length logo then logo ! i else ''              '') @ ''  '' @ (if i < length info then info ! i else []) @ [NL]"

definition sys_main :: "sys_report \<Rightarrow> string option" where
  "sys_main rp = do {
     info \<leftarrow> userinfo rp [];
     let info = resourceinfo rp info;
     let info = systeminfo rp info;
     let lines = (if length logo > length info then length logo else length info);
     if lines > MAX_LINES then None else Some (concat (map (sys_row info) [0..<lines]))
   }"

section \<open>Ten lines\<close>

lemma display_line_length: "length (display_line d info) = min (max (length info) MAX_LINES) (Suc (length info))"
  by (simp add: display_line_def)

lemma display_line_few: "length info < MAX_LINES \<Longrightarrow> display_line d info = info @ [take (INFO_WIDTH - 1) d]"
  by (simp add: display_line_def)

lemma os_lines_found:
  assumes "list_all (\<lambda>l. \<not> prefix ''PRETTY_NAME='' (cstr l)) before" and "prefix ''PRETTY_NAME='' (cstr l)"
  shows "os_lines (before @ l # after) info = display_line (''OS:                 '' @ os_name (cstr l)) info"
  using assms by (induction before) simp_all

lemma os_name_quoted:
  assumes "QUOTE2 \<notin> set name"
  shows "os_name (''PRETTY_NAME='' @ QUOTE2 # name @ QUOTE2 # rest) = name"
  using until_exact [OF assms, of rest] by (simp add: os_name_def)

definition os_line :: "string \<Rightarrow> string" where
  "os_line name = ''PRETTY_NAME='' @ QUOTE2 # name @ [QUOTE2, NL]"

lemma os_release_read:
  assumes "list_all (full_line 255) before" and "list_all (\<lambda>l. \<not> prefix ''PRETTY_NAME='' l) before"
    and "list_all (full_line 255) after" and "full_line 255 (os_line name)" and "QUOTE2 \<notin> set name"
  shows "os_lines (fgets_all 255 (concat (before @ os_line name # after))) info = display_line (''OS:                 '' @ name) info"
proof -
  have "fgets_all 255 (concat (before @ os_line name # after)) = before @ os_line name # after"
    by (rule fgets_all_concat) (use assms in \<open>auto simp: list_all_iff\<close>)
  moreover have c: "cstr l = l" if "full_line 255 l" for l using that by (simp add: full_line_def)
  then have "list_all (\<lambda>l. \<not> prefix ''PRETTY_NAME='' (cstr l)) before" using assms(1,2) by (simp add: list_all_iff)
  moreover have "prefix ''PRETTY_NAME='' (cstr (os_line name))" unfolding c [OF assms(4)] by (simp add: os_line_def)
  moreover have "os_name (cstr (os_line name)) = name"
    unfolding c [OF assms(4)] using os_name_quoted [OF assms(5), of "[NL]"] by (simp add: os_line_def)
  ultimately show ?thesis by (simp add: os_lines_found)
qed

lemma logo_length: "length logo = 10"
  by (simp add: logo_def)

text \<open>The ten lines before they are cut off.\<close>

definition mib :: "u64 \<Rightarrow> string" where
  "mib bytes = pct_ld (bytes div 1024 div 1024) @ '' MiB''"

definition report_lines :: "sys_report \<Rightarrow> passwd \<Rightarrow> string \<Rightarrow> string list" where
  "report_lines rp pw name =
     [''User:               '' @ pw_name pw, ''Home:               '' @ pw_dir pw,
      ''UID:GID:            '' @ pct_d (pw_uid pw) @ '':'' @ pct_d (pw_gid pw),
      ''Uptime:             '' @ dec_int (si_uptime (rp_sysinfo rp) sdiv 60) @ '' min'',
      ''Free Ram:           '' @ mib (si_freeram (rp_sysinfo rp)), ''Buffer Ram:         '' @ mib (si_bufferram (rp_sysinfo rp)),
      ''Shared Ram:         '' @ mib (si_sharedram (rp_sysinfo rp)), ''Total Ram:          '' @ mib (si_totalram (rp_sysinfo rp)),
      ''OS:                 '' @ name,
      ''Kernel:             '' @ rp_sysname rp @ ''  '' @ rp_release rp @ ''  ('' @ rp_machine rp @ '')'']"

lemma display_lines:
  "length ls < 32 \<Longrightarrow> display_line d (map (take 79) ls) = map (take 79) (ls @ [d])"
  by (simp add: display_line_few MAX_LINES_def INFO_WIDTH_def)

lemma report_collected:
  assumes "rp_passwd rp = Some pw" and "rp_os_release rp = Some f"
    and "\<And>info. os_lines (fgets_all 255 f) info = display_line (''OS:                 '' @ name) info"
  shows "map_option (\<lambda>info. systeminfo rp (resourceinfo rp info)) (userinfo rp []) = Some (map (take 79) (report_lines rp pw name))"
proof -
  have first: "display_line d [] = map (take 79) [d]" for d using display_lines [of "[]" d] by simp
  show ?thesis
    using assms by (simp only: userinfo_def resourceinfo_def systeminfo_def Let_def first display_lines option.case option.map
        report_lines_def mib_def append.simps list.size)
qed

section \<open>Properties\<close>

text \<open>
  C30.  With an entry for the user and a quoted name in the release file, \<open>sys\<close> prints ten rows:
  the logo, and beside it user, home, numbers, uptime, memory, that name and the kernel, each
  cut off after 79 characters.
\<close>

theorem sys_shows_report:
  assumes "rp_passwd rp = Some pw" and "rp_os_release rp = Some (concat (before @ os_line name # after))"
    and "list_all (full_line 255) before" and "list_all (\<lambda>l. \<not> prefix ''PRETTY_NAME='' l) before"
    and "list_all (full_line 255) after" and "full_line 255 (os_line name)" and "QUOTE2 \<notin> set name"
  shows "sys_main rp = Some (concat (map2 (\<lambda>l r. l @ ''  '' @ take 79 r @ [NL]) logo (report_lines rp pw name)))"
proof -
  let ?info = "map (take 79) (report_lines rp pw name)"
  have ten: "length (report_lines rp pw name) = 10" by (simp add: report_lines_def)
  obtain u where u: "userinfo rp [] = Some u" "systeminfo rp (resourceinfo rp u) = ?info"
    using report_collected [OF assms(1,2) os_release_read [OF assms(3-7)]] by auto
  have "map (sys_row ?info) [0..<10] = map2 (\<lambda>l r. l @ ''  '' @ take 79 r @ [NL]) logo (report_lines rp pw name)"
    by (rule nth_equalityI) (simp_all add: ten logo_length sys_row_def)
  then show ?thesis by (simp add: sys_main_def u ten logo_length MAX_LINES_def)
qed

text \<open>A machine with a short release file.\<close>

definition sample_report :: sys_report where
  "sample_report =
     \<lparr>rp_passwd = Some \<lparr>pw_name = ''peky'', pw_dir = ''/home/peky'', pw_uid = 1000, pw_gid = 1000\<rparr>,
      rp_sysinfo = \<lparr>si_uptime = 3600, si_freeram = 1048576, si_bufferram = 0, si_sharedram = 0, si_totalram = 2097152\<rparr>,
      rp_os_release = Some (concat ([''NAME=x'' @ [NL]] @ os_line ''Debian'' # [])),
      rp_sysname = ''Linux'', rp_release = ''6.1'', rp_machine = ''x86_64''\<rparr>"

theorem sys_shows_report_witness:
  "sys_main sample_report = Some (concat (map2 (\<lambda>l r. l @ ''  '' @ take 79 r @ [NL]) logo
     (report_lines sample_report \<lparr>pw_name = ''peky'', pw_dir = ''/home/peky'', pw_uid = 1000, pw_gid = 1000\<rparr> ''Debian'')))"
  by (rule sys_shows_report [of _ _ "[''NAME=x'' @ [NL]]" _ "[]"])
     (simp_all add: sample_report_def full_line_def os_line_def QUOTE2_def)

text \<open>
  However the system answers, \<open>sys\<close> stays inside its array of lines: it is defined exactly
  when the user database has an entry for the user.
\<close>

lemma os_lines_length: "length info < 20 \<Longrightarrow> length (os_lines ls info) \<le> Suc (length info)"
  by (induction ls info rule: os_lines.induct) (auto simp: display_line_length)

theorem sys_defined: "sys_main rp \<noteq> None \<longleftrightarrow> rp_passwd rp \<noteq> None"
proof (cases "rp_passwd rp")
  case None
  then show ?thesis by (simp add: sys_main_def userinfo_def)
next
  case (Some pw)
  then obtain u where u: "userinfo rp [] = Some u" "length u = 3"
    by (simp add: userinfo_def display_line_length MAX_LINES_def Let_def)
  have "length (resourceinfo rp u) = 8" by (simp add: resourceinfo_def Let_def display_line_length u MAX_LINES_def)
  then have "length (systeminfo rp (resourceinfo rp u)) \<le> 10"
    using os_lines_length [of "resourceinfo rp u"] by (auto simp: systeminfo_def display_line_length intro: min.coboundedI2 split: option.split)
  then show ?thesis by (simp add: sys_main_def Let_def u Some logo_length MAX_LINES_def)
qed

end
