(* ===== verification/Backup.thy ===== *)
theory Backup
  imports Paths
begin

text \<open>
  The program \<open>backup\<close> (\<open>system_programs/backup.c\<close>): it has \<open>tar\<close> pack the directory that
  \<open>BACKUP_DIR\<close> names into the archive directory of the project.  What the system answers is the
  record \<open>backup_env\<close>; allocation, the conversion of the time (whose result is not tested),
  waiting for the child and \<open>exec\<close> of \<open>tar\<close> are assumed to succeed.
\<close>

record backup_env =
  bk_root :: string
  bk_dir :: "string option"
  bk_stat :: "string \<Rightarrow> bool"
  bk_time :: string  \<comment> \<open>the text of \<open>strftime\<close>\<close>
  bk_fork :: bool
  bk_tar :: "string list \<Rightarrow> int option"  \<comment> \<open>the exit status, or none when ended by a signal\<close>

record backup_run =
  bk_status :: int
  bk_command :: "string list option"
  bk_out :: string
  bk_err :: string

text \<open>\<open>basename\<close> cuts trailing slashes off the string it gets, unless it consists of slashes only.\<close>

definition after_basename :: "string \<Rightarrow> string" where
  "after_basename p = (if strip_slashes p = [] then p else strip_slashes p)"

definition archive_path :: "string \<Rightarrow> string \<Rightarrow> string \<Rightarrow> string" where
  "archive_path root base timebuff = root @ ''/archive/'' @ base @ ''_'' @ timebuff @ ''.tar.gz''"

definition backup_main :: "backup_env \<Rightarrow> backup_run" where
  "backup_main env =
     (case bk_dir env of
        None \<Rightarrow> \<lparr>bk_status = 1, bk_command = None, bk_out = [], bk_err = ''BACKUP_DIR not set''\<rparr>
      | Some backup_path \<Rightarrow>
          if \<not> bk_stat env backup_path then \<lparr>bk_status = 1, bk_command = None, bk_out = [], bk_err = ''stat''\<rparr>
          else
            let base = c_basename backup_path;
                backup_path = after_basename backup_path;
                archive = archive_path (bk_root env) base (bk_time env);
                command = [''tar'', ''-czf'', archive, ''-C'', c_dirname backup_path, base]
            in if \<not> bk_fork env then \<lparr>bk_status = 1, bk_command = None, bk_out = [], bk_err = ''fork tar''\<rparr>
               else if bk_tar env command = Some 0
               then \<lparr>bk_status = 0, bk_command = Some command, bk_out = ''Archived '' @ backup_path @ '' into '' @ archive @ [NL], bk_err = []\<rparr>
               else \<lparr>bk_status = 0, bk_command = Some command, bk_out = [], bk_err = ''Failed to archive'' @ [NL]\<rparr>)"

section \<open>Properties\<close>

lemma strip_slashes_many: "p = [] \<or> last p \<noteq> CHR ''/'' \<Longrightarrow> strip_slashes (p @ replicate n (CHR ''/'')) = p"
  by (cases p rule: rev_cases) (simp_all add: strip_slashes_def rev_append dropWhile_append3)

text \<open>
  C31.  \<open>tar\<close> is told to pack exactly the directory named: with or without slashes at its end,
  \<open>BACKUP_DIR\<close> is split into the directory \<open>tar\<close> changes to and the name it packs, and the
  archive carries that name and the time.
\<close>

theorem backup_packs_directory:
  assumes "bk_dir env = Some (parent @ CHR ''/'' # name @ replicate n (CHR ''/''))" and "bk_stat env (parent @ CHR ''/'' # name @ replicate n (CHR ''/''))"
    and "bk_fork env" and "parent \<noteq> []" and "last parent \<noteq> CHR ''/''" and "name \<noteq> []" and "CHR ''/'' \<notin> set name"
  shows "bk_command (backup_main env) =
    Some [''tar'', ''-czf'', bk_root env @ ''/archive/'' @ name @ ''_'' @ bk_time env @ ''.tar.gz'', ''-C'', parent, name]"
proof -
  let ?p = "parent @ CHR ''/'' # name"
  have "last ?p \<noteq> CHR ''/''" using assms(6,7) last_in_set [of name] by (metis last_ConsR last_append list.discI)
  then have s: "strip_slashes (?p @ replicate n (CHR ''/'')) = ?p" "strip_slashes ?p = ?p"
    using strip_slashes_many [of ?p n] strip_slashes_id [of ?p] by blast+
  have "c_basename (?p @ replicate n (CHR ''/'')) = c_basename ?p" by (simp add: c_basename_def s [simplified])
  then show ?thesis
    using assms dirname_file [OF assms(4-7)] s by (simp add: backup_main_def Let_def after_basename_def archive_path_def)
qed

theorem backup_packs_directory_witness:
  "bk_command (backup_main \<lparr>bk_root = ''/opt'', bk_dir = Some (''/home'' @ CHR ''/'' # ''peky'' @ replicate 1 (CHR ''/'')), bk_stat = (\<lambda>_. True),
      bk_time = ''20250101_120000'', bk_fork = True, bk_tar = (\<lambda>_. Some 0)\<rparr>) =
    Some [''tar'', ''-czf'', ''/opt'' @ ''/archive/'' @ ''peky'' @ ''_'' @ ''20250101_120000'' @ ''.tar.gz'', ''-C'', ''/home'', ''peky'']"
  by (subst backup_packs_directory [where n = 1]) simp_all

text \<open>
  A failed backup looks like a successful one to the caller: whenever \<open>tar\<close> was started,
  the exit status is 0, whatever became of it.
\<close>

theorem backup_status_ignores_tar:
  "bk_command (backup_main env) = Some command \<Longrightarrow> bk_status (backup_main env) = 0"
  by (auto simp: backup_main_def Let_def split: option.splits if_splits)

theorem backup_status_ignores_tar_witness:
  "bk_status (backup_main \<lparr>bk_root = ''/opt'', bk_dir = Some ''/home/peky'', bk_stat = (\<lambda>_. True),
      bk_time = ''20250101_120000'', bk_fork = True, bk_tar = (\<lambda>_. Some 2)\<rparr>) = 0"
  by (rule backup_status_ignores_tar
      [where command = "[''tar'', ''-czf'', ''/opt/archive/peky_20250101_120000.tar.gz'', ''-C'', ''/home'', ''peky'']"])
     (simp add: backup_main_def c_basename_def c_dirname_def strip_slashes_def after_basename_def archive_path_def)

end
