(* ===== verification/Tetris.thy ===== *)
theory Tetris
  imports Cstring
begin

text \<open>
  The board of the tetris server (\<open>system_programs/tetrisd.c\<close>, \<open>include/tetrish/tetrisd.h\<close>): its
  initialisation, what is printed of it, the moves (which the code leaves empty) and the
  program.  The frame of an initialised board and what its printed form shows are proved below.
\<close>

section \<open>The board\<close>

definition HEIGHT :: nat where "HEIGHT = 19"
definition WIDTH :: nat where "WIDTH = 12"

datatype tetrominos =
    T_NONE
  | T_I
  | T_J
  | T_L
  | T_O
  | T_S
  | T_T
  | T_Z

fun tetro_value :: "tetrominos \<Rightarrow> nat" where
  "tetro_value T_NONE = 0"
| "tetro_value T_I = 1"
| "tetro_value T_J = 2"
| "tetro_value T_L = 3"
| "tetro_value T_O = 4"
| "tetro_value T_S = 5"
| "tetro_value T_T = 6"
| "tetro_value T_Z = 7"

record active_piece =
  ap_type :: tetrominos
  ap_row :: int
  ap_height :: int
  ap_rotation :: u32

record tetrisboard =
  well :: "char list list"
  currentp :: active_piece
  hold :: tetrominos
  next_piece :: tetrominos
  score :: u64
  gameover :: bool

text \<open>The structure with all bytes zero, as \<open>memset\<close> leaves it.\<close>

definition zero_board :: tetrisboard where
  "zero_board =
     \<lparr>well = replicate HEIGHT (replicate WIDTH NUL),
      currentp = \<lparr>ap_type = T_NONE, ap_row = 0, ap_height = 0, ap_rotation = 0\<rparr>,
      hold = T_NONE, next_piece = T_NONE, score = 0, gameover = False\<rparr>"

definition side_border :: "nat \<Rightarrow> char list list \<Rightarrow> char list list option" where
  "side_border row w = do {
     r \<leftarrow> arr_get w row;
     r \<leftarrow> arr_set r 0 (char_of (124 :: nat));
     r \<leftarrow> arr_set r (WIDTH - 1) (char_of (124 :: nat));
     arr_set w row r
   }"

definition initialise_tetrisboard :: "tetrisboard \<Rightarrow> tetrisboard option" where
  "initialise_tetrisboard b = do {
     let b = zero_board;
     let w = replicate HEIGHT (replicate WIDTH (CHR '' ''));
     w \<leftarrow> arr_set w (HEIGHT - 1) (replicate WIDTH (CHR ''-''));
     w \<leftarrow> for_from 0 (HEIGHT - 1) side_border w;
     Some (b\<lparr>well := w\<rparr>)
   }"

section \<open>Printing\<close>

definition print_row :: "char list list \<Rightarrow> nat \<Rightarrow> string \<Rightarrow> string option" where
  "print_row w row out = do {
     r \<leftarrow> arr_get w row;
     if length r < WIDTH then None else Some (out @ take WIDTH r @ [NL])
   }"

definition printboard :: "tetrisboard \<Rightarrow> string option" where
  "printboard b = for_from 0 HEIGHT (print_row (well b)) []"

definition boarddebug :: "tetrisboard \<Rightarrow> string option" where
  "boarddebug b = do {
     board \<leftarrow> printboard b;
     Some (''Board state: '' @ [NL] @ board @
       ''tetrominos hold value: '' @ dec (tetro_value (hold b)) @ [NL] @
       ''board score: '' @ dec (unat (score b)) @ [NL])
   }"

section \<open>Moves\<close>

datatype move = Move_left | Move_right | Soft_drop | Hard_drop | Rotate_clockwise | Rotate_anticlockwise

text \<open>Each function ignores its board and returns \<open>false\<close>.\<close>

fun tetris_move :: "move \<Rightarrow> tetrisboard \<Rightarrow> bool \<times> tetrisboard" where
  "tetris_move Move_left b = (False, b)"
| "tetris_move Move_right b = (False, b)"
| "tetris_move Soft_drop b = (False, b)"
| "tetris_move Hard_drop b = (False, b)"
| "tetris_move Rotate_clockwise b = (False, b)"
| "tetris_move Rotate_anticlockwise b = (False, b)"

section \<open>The program\<close>

text \<open>\<open>b\<close> is the memory the board happens to be in.\<close>

definition tetrisd_main :: "tetrisboard \<Rightarrow> string option" where
  "tetrisd_main b = do {
     b \<leftarrow> initialise_tetrisboard b;
     first \<leftarrow> boarddebug b;
     second \<leftarrow> boarddebug (b\<lparr>hold := T_Z, score := 123\<rparr>);
     Some (''Test tetrisd '' @ [NL] @ first @ second)
   }"

section \<open>The frame\<close>

text \<open>The types C gives the board: its dimensions.\<close>

definition board_typed :: "tetrisboard \<Rightarrow> bool" where
  "board_typed b = (length (well b) = HEIGHT \<and> list_all (\<lambda>r. length r = WIDTH) (well b))"

text \<open>A well open at the top.\<close>

definition frame_cell :: "nat \<Rightarrow> nat \<Rightarrow> char" where
  "frame_cell row col =
     (if row = HEIGHT - 1 then CHR ''-'' else if col = 0 \<or> col = WIDTH - 1 then CHR ''|'' else CHR '' '')"

definition frame :: "char list list" where
  "frame = map (\<lambda>row. map (frame_cell row) [0..<WIDTH]) [0..<HEIGHT]"

lemma initialise_frame: "initialise_tetrisboard b = Some (zero_board\<lparr>well := frame\<rparr>)"
  by code_simp

lemma frame_nth: "row < HEIGHT \<Longrightarrow> col < WIDTH \<Longrightarrow> frame ! row ! col = frame_cell row col"
  by (simp add: frame_def)

lemma frame_typed: "well b = frame \<Longrightarrow> board_typed b"
  by (simp add: frame_def board_typed_def list_all_iff)

lemma print_rows:
  assumes "board_typed b"
  shows "printboard b = Some (concat (map (\<lambda>r. r @ [NL]) (well b)))"
proof -
  let ?g = "\<lambda>row out. out @ well b ! row @ [NL]"
  have "printboard b = Some (fold ?g [0..<HEIGHT] [])"
    unfolding printboard_def
    by (rule for_from_fold) (use assms in \<open>simp add: board_typed_def print_row_def list_all_length\<close>)
  moreover have "fold ?g [0..<n] [] = concat (map (\<lambda>row. well b ! row @ [NL]) [0..<n])" for n
    by (induction n) simp_all
  moreover have "map (\<lambda>row. well b ! row @ [NL]) [0..<HEIGHT] = map (\<lambda>r. r @ [NL]) (well b)"
    using assms map_nth [of "well b"] by (simp add: board_typed_def flip: map_map [unfolded comp_def, of "\<lambda>r. r @ [NL]" "(!) (well b)"])
  ultimately show ?thesis by simp
qed

text \<open>An initialised board, whatever was in its memory, is empty but for its frame.\<close>

lemma new_board_framed:
  "\<exists>b'. initialise_tetrisboard b = Some b' \<and> board_typed b' \<and>
     (\<forall>row col. row < HEIGHT \<longrightarrow> col < WIDTH \<longrightarrow> well b' ! row ! col = frame_cell row col) \<and>
     hold b' = T_NONE \<and> next_piece b' = T_NONE \<and> score b' = 0 \<and> \<not> gameover b'"
  by (simp add: initialise_frame frame_typed frame_nth zero_board_def)

section \<open>Properties\<close>

text \<open>
  C28.  What is printed of a board of the right dimensions reads back: line by line it is the well,
  as long as the cells hold characters other than newline and null.
\<close>

theorem printed_board_reads_back:
  assumes "board_typed b" and "\<forall>r \<in> set (well b). NL \<notin> set r \<and> NUL \<notin> set r"
  shows "\<exists>t. printboard b = Some t \<and> map butlast (fgets_all 1023 t) = well b"
proof -
  have "full_line 1023 (r @ [NL])" if "r \<in> set (well b)" for r
    using that assms by (auto simp: full_line_def board_typed_def list_all_iff WIDTH_def)
  then have "fgets_all 1023 (concat (map (\<lambda>r. r @ [NL]) (well b))) = map (\<lambda>r. r @ [NL]) (well b)"
    by (intro fgets_all_concat) auto
  then show ?thesis using print_rows [OF assms(1)] by (simp add: comp_def)
qed

theorem printed_board_reads_back_witness:
  "\<exists>t. printboard (zero_board\<lparr>well := frame\<rparr>) = Some t \<and> map butlast (fgets_all 1023 t) = frame"
proof -
  have "\<forall>r \<in> set frame. NL \<notin> set r \<and> NUL \<notin> set r" by code_simp
  then show ?thesis using printed_board_reads_back [OF frame_typed, of "zero_board\<lparr>well := frame\<rparr>"] by simp
qed

end
