(* ===== verification/Wire.thy ===== *)
theory Wire
  imports Cstring
begin

unbundle bit_operations_syntax

text \<open>
  The shared network library (\<open>src/libtetrissh/common.c\<close>): integers as eight bytes, reading
  and sending exact numbers of bytes over a socket that may deliver and accept them in pieces,
  and the encryption of a session.  OpenSSL is a parameter (\<open>openssl\<close>), with what the code
  relies on as the predicate \<open>crypto_laws\<close>.
\<close>

section \<open>Integers and bytes\<close>

definition INT_BYTES :: nat where "INT_BYTES = 8"

text \<open>The loop from the last byte down to the first.\<close>

fun put_bytes :: "nat \<Rightarrow> u64 \<Rightarrow> u8 list \<Rightarrow> u8 list option" where
  "put_bytes 0 x buf = Some buf"
| "put_bytes (Suc i) x buf = do {
     buf \<leftarrow> arr_set buf i (ucast (x AND 0xFF));
     put_bytes i (drop_bit 8 x) buf
   }"

definition int_to_bytes :: "u64 \<Rightarrow> u8 list \<Rightarrow> u8 list option" where
  "int_to_bytes x buf = put_bytes INT_BYTES x buf"

definition bytes_to_int :: "u8 list \<Rightarrow> u64 option" where
  "bytes_to_int buf = for_from 0 INT_BYTES
     (\<lambda>i result. do { b \<leftarrow> arr_get buf i; Some (push_bit 8 result OR ucast b) }) 0"

section \<open>Sockets\<close>

text \<open>
  One direction of a connection: the bytes under way, and how many bytes the next calls
  deliver or accept at most (none or an error when not positive).  Reading from an empty
  connection is its end.
\<close>

record conn =
  under_way :: "u8 list"
  recv_s :: "int stream"
  send_s :: "int stream"
  alloc_ok :: "u64 \<Rightarrow> bool"

definition recv :: "nat \<Rightarrow> conn \<Rightarrow> int \<times> u8 list \<times> conn" where
  "recv len c =
     (let k = shd (recv_s c); c = c\<lparr>recv_s := stl (recv_s c)\<rparr> in
      if k \<le> 0 \<or> under_way c = [] then (min k 0, [], c)
      else let m = min (nat k) (min len (length (under_way c)))
        in (int m, take m (under_way c), c\<lparr>under_way := drop m (under_way c)\<rparr>))"

definition send :: "u8 list \<Rightarrow> conn \<Rightarrow> int \<times> conn" where
  "send bs c =
     (let k = shd (send_s c); c = c\<lparr>send_s := stl (send_s c)\<rparr> in
      if k \<le> 0 then (k, c)
      else let m = min (nat k) (length bs) in (int m, c\<lparr>under_way := under_way c @ take m bs\<rparr>))"

text \<open>The loops; the buffer filled so far, and the bytes still to send.\<close>

function read_loop :: "nat \<Rightarrow> u8 list \<Rightarrow> conn \<Rightarrow> u8 list option \<times> conn" where
  "read_loop remaining buffer c =
     (if remaining = 0 then (Some buffer, c)
      else
        let chunk = (if remaining < 1024 then remaining else 1024); (n, bs, c') = recv chunk c
        in if n \<le> 0 then (None, c') else read_loop (remaining - nat n) (buffer @ bs) c')"
  by pat_completeness auto
termination
  by (relation "measure (\<lambda>(remaining, _, _). remaining)") auto

declare read_loop.simps [simp del]

definition read_bytes :: "u64 \<Rightarrow> conn \<Rightarrow> u8 list option \<times> conn" where
  "read_bytes len c = (if alloc_ok c len then read_loop (unat len) [] c else (None, c))"

function send_all :: "u8 list \<Rightarrow> conn \<Rightarrow> int \<times> conn" where
  "send_all bs c =
     (if bs = [] then (0, c)
      else let (n, c') = send bs c in if n \<le> 0 then (- 1, c') else send_all (drop (nat n) bs) c')"
  by pat_completeness auto
termination
  by (relation "measure (\<lambda>(bs, _). length bs)") auto

declare send_all.simps [simp del]

definition send_int :: "u64 \<Rightarrow> conn \<Rightarrow> (int \<times> conn) option" where
  "send_int value c = do {
     buf \<leftarrow> int_to_bytes value (replicate INT_BYTES 0);
     Some (send_all buf c)
   }"

section \<open>Fields\<close>

text \<open>\<open>send_all\<close> with a null pointer: a system call with a bad address fails.\<close>

definition send_buf :: "u8 list option \<Rightarrow> nat \<Rightarrow> conn \<Rightarrow> conn" where
  "send_buf buf len c =
     (case buf of Some bs \<Rightarrow> snd (send_all (take len bs) c) | None \<Rightarrow> if len = 0 then c else c\<lparr>send_s := stl (send_s c)\<rparr>)"

text \<open>A message of bytes with their length before them; results of sending are not tested.\<close>

definition send_num :: "u64 \<Rightarrow> conn \<Rightarrow> conn option" where
  "send_num v c = map_option snd (send_int v c)"

definition send_bytes :: "u8 list option \<Rightarrow> nat \<Rightarrow> conn \<Rightarrow> conn option" where
  "send_bytes buf len c = do {
     c \<leftarrow> send_num (of_nat len) c;
     Some (send_buf buf len c)
   }"

text \<open>A length is read without testing for \<open>NULL\<close>.\<close>

definition read_len :: "conn \<Rightarrow> (u64 \<times> conn) option" where
  "read_len c =
     (case read_bytes (of_nat INT_BYTES) c of
        (None, c) \<Rightarrow> None
      | (Some b, c) \<Rightarrow> do { n \<leftarrow> bytes_to_int b; Some (n, c) })"

text \<open>Bytes with their length before them.\<close>

definition read_field :: "conn \<Rightarrow> (u8 list option \<times> conn) option" where
  "read_field c = do { (n, c) \<leftarrow> read_len c; Some (read_bytes n c) }"

section \<open>Sessions\<close>

text \<open>
  \<open>ctx_new\<close> and \<open>malloc_ok\<close> say whether a cipher context and a buffer of so many bytes can be
  had.  A call of the cipher, under a key and a vector, gives whether it succeeds and the bytes
  it writes, also when it fails: the update (with the initialisation before it) gets the whole
  input, the final call follows it.
\<close>

type_synonym cipher = "u8 list \<Rightarrow> u8 list \<Rightarrow> u8 list \<Rightarrow> bool \<times> u8 list"

record openssl =
  ctx_new :: bool
  malloc_ok :: "nat \<Rightarrow> bool"
  enc_update :: cipher
  enc_final :: cipher
  dec_update :: cipher
  dec_final :: cipher
  hmac_sha256 :: "u8 list \<Rightarrow> u8 list \<Rightarrow> u8 list option"

definition AES_KEY_LEN :: nat where "AES_KEY_LEN = 16"
definition AES_IV_LEN :: nat where "AES_IV_LEN = 16"
definition AES_BLOCK :: nat where "AES_BLOCK = 16"
definition HMAC_KEY_LEN :: nat where "HMAC_KEY_LEN = 16"
definition HMAC_LEN :: nat where "HMAC_LEN = 32"
definition SESSION_KEY_LEN :: nat where "SESSION_KEY_LEN = HMAC_KEY_LEN + AES_KEY_LEN"

lemmas crypto_sizes = AES_KEY_LEN_def AES_IV_LEN_def AES_BLOCK_def HMAC_KEY_LEN_def HMAC_LEN_def SESSION_KEY_LEN_def

text \<open>
  OpenSSL takes lengths as \<open>int\<close>: a negative one makes the call fail, one that does not fit
  is cut to 32 bits.
\<close>

definition evp_input :: "u8 list \<Rightarrow> u8 list option" where
  "evp_input m = (let n = to_int32 (int (length m)) in if n < 0 then None else Some (take (nat n) m))"

text \<open>
  The two calls on an input, writing to a buffer from an offset on; the result is the number of
  bytes they deliver, if they succeed, and the buffer.  \<open>None\<close> is a write past its end.
\<close>

definition cipher_run :: "(u8 list \<Rightarrow> bool \<times> u8 list) \<Rightarrow> (u8 list \<Rightarrow> bool \<times> u8 list) \<Rightarrow> u8 list \<Rightarrow> u8 list \<Rightarrow> nat \<Rightarrow> (nat option \<times> u8 list) option" where
  "cipher_run update final input buf off =
     (case evp_input input of
        None \<Rightarrow> Some (None, buf)
      | Some m \<Rightarrow> do {
          let (ok, u) = update m;
          buf \<leftarrow> memcpy buf off u;
          if \<not> ok then Some (None, buf)
          else do {
            let (ok, v) = final m;
            buf \<leftarrow> memcpy buf (off + length u) v;
            Some (if ok then Some (length u + length v) else None, buf)
          }
        })"

text \<open>
  The result is the output, or nothing when a call fails (\<open>NULL\<close>); the outer \<open>None\<close> is a
  write past the end of the allocated buffer.  \<open>iv\<close> is what \<open>RAND_bytes\<close> delivers.
\<close>

definition session_encrypt :: "openssl \<Rightarrow> u8 list \<Rightarrow> u8 list \<Rightarrow> u8 list option \<Rightarrow> u8 list option option" where
  "session_encrypt ssl key plain iv =
     (let hmac_key = take HMAC_KEY_LEN key; aes_key = take AES_KEY_LEN (drop HMAC_KEY_LEN key);
          max_out = AES_IV_LEN + (length plain + AES_BLOCK) + HMAC_LEN
      in case iv of
           None \<Rightarrow> Some None
         | Some iv \<Rightarrow> if \<not> malloc_ok ssl max_out then Some None else do {
             output \<leftarrow> memcpy (replicate max_out 0) 0 iv;
             if \<not> ctx_new ssl then Some None
             else do {
               (total_ct, output) \<leftarrow> cipher_run (enc_update ssl aes_key iv) (enc_final ssl aes_key iv) plain output AES_IV_LEN;
               case total_ct of
                 None \<Rightarrow> Some None
               | Some total_ct \<Rightarrow> (case hmac_sha256 ssl hmac_key (take (AES_IV_LEN + total_ct) output) of
                   None \<Rightarrow> Some None
                 | Some mac \<Rightarrow> do {
                     output \<leftarrow> memcpy output (AES_IV_LEN + total_ct) mac;
                     Some (Some (take (AES_IV_LEN + total_ct + HMAC_LEN) output))
                   })
             }
           })"

definition session_decrypt :: "openssl \<Rightarrow> u8 list \<Rightarrow> u8 list \<Rightarrow> u8 list option option" where
  "session_decrypt ssl key token =
     (let hmac_key = take HMAC_KEY_LEN key; aes_key = take AES_KEY_LEN (drop HMAC_KEY_LEN key) in
      if length token < AES_IV_LEN + AES_BLOCK + HMAC_LEN then Some None
      else
        let ct_len = length token - AES_IV_LEN - HMAC_LEN;
            iv = take AES_IV_LEN token;
            ct = take ct_len (drop AES_IV_LEN token);
            hmac_received = drop (AES_IV_LEN + ct_len) token
        in case hmac_sha256 ssl hmac_key (take (AES_IV_LEN + ct_len) token) of
             None \<Rightarrow> Some None
           | Some mac \<Rightarrow> do {
               hmac_computed \<leftarrow> memcpy (replicate HMAC_LEN 0) 0 mac;
               if hmac_computed \<noteq> hmac_received then Some None
               else if \<not> malloc_ok ssl ct_len \<or> \<not> ctx_new ssl then Some None
               else do {
                 (n, out) \<leftarrow> cipher_run (dec_update ssl aes_key iv) (dec_final ssl aes_key iv) ct (replicate ct_len 0) 0;
                 Some (map_option (\<lambda>n. take n out) n)
               }
             })"

end
