(* ===== verification/Rsa.thy ===== *)
theory Rsa
  imports Wire
begin

text \<open>
  The public-key part of the network library (\<open>src/libtetrissh/common.c\<close>): loading keys and
  certificates, checking a certificate, signing and verifying, encrypting and decrypting one
  block, and drawing a session key.  OpenSSL is the parameter \<open>evp\<close>; keys and certificates are
  numbers that stand for its objects.  \<open>None\<close> outside is undefined behaviour, here a write past
  the end of an allocated buffer; \<open>None\<close> inside is a \<open>NULL\<close> the code returns.
\<close>

type_synonym pkey = nat
type_synonym x509 = nat
type_synonym file_system = "string \<rightharpoonup> u8 list"

text \<open>
  One field for each group of calls whose results the code tests together.  \<open>pkey_ctx\<close> is
  \<open>EVP_PKEY_CTX_new\<close>, \<open>rsa_setup\<close> the initialisation and the choice of padding, the
  \<open>_size\<close> fields are the calls with a null output buffer.  Encryption and signatures draw
  randomness, their first argument.
\<close>

record evp =
  sym :: openssl
  pem_private_key :: "u8 list \<Rightarrow> pkey option"
  pem_x509 :: "u8 list \<Rightarrow> x509 option"
  bio_new :: bool
  store_new :: bool
  store_ctx_new :: bool
  x509_verify_cert :: "x509 \<Rightarrow> x509 \<Rightarrow> bool"
  x509_get_pubkey :: "x509 \<Rightarrow> pkey option"
  md_ctx :: bool
  sign_setup :: "pkey \<Rightarrow> bool"
  sign_size :: "pkey \<Rightarrow> nat option"
  sign_final :: "nat \<Rightarrow> pkey \<Rightarrow> u8 list \<Rightarrow> u8 list option"
  verify_setup :: "pkey \<Rightarrow> bool"
  verify_final :: "pkey \<Rightarrow> u8 list \<Rightarrow> u8 list \<Rightarrow> bool"
  pkey_ctx :: "pkey \<Rightarrow> bool"
  rsa_setup :: "pkey \<Rightarrow> bool \<Rightarrow> bool"
  rsa_enc_size :: "pkey \<Rightarrow> bool \<Rightarrow> u8 list \<Rightarrow> nat option"
  rsa_enc :: "nat \<Rightarrow> pkey \<Rightarrow> bool \<Rightarrow> u8 list \<Rightarrow> u8 list option"
  rsa_dec_size :: "pkey \<Rightarrow> bool \<Rightarrow> u8 list \<Rightarrow> nat option"
  rsa_dec :: "pkey \<Rightarrow> bool \<Rightarrow> u8 list \<Rightarrow> u8 list option"

section \<open>Keys and certificates\<close>

definition load_private_key :: "evp \<Rightarrow> file_system \<Rightarrow> string \<Rightarrow> pkey option" where
  "load_private_key ssl fs filename = Option.bind (fs filename) (pem_private_key ssl)"

definition load_cert_file :: "evp \<Rightarrow> file_system \<Rightarrow> string \<Rightarrow> x509 option" where
  "load_cert_file ssl fs filename = Option.bind (fs filename) (pem_x509 ssl)"

text \<open>\<open>BIO_new_mem_buf\<close> with a negative length reads up to a null byte.\<close>

definition load_cert_bytes :: "evp \<Rightarrow> u8 list \<Rightarrow> int \<Rightarrow> x509 option option" where
  "load_cert_bytes ssl data len =
     (if \<not> bio_new ssl then Some None
      else if len < 0
        then if 0 \<in> set data then Some (pem_x509 ssl (takeWhile (\<lambda>b. b \<noteq> 0) data)) else None
      else if nat len \<le> length data then Some (pem_x509 ssl (take (nat len) data)) else None)"

definition verify_server_cert :: "evp \<Rightarrow> file_system \<Rightarrow> x509 \<Rightarrow> string \<Rightarrow> bool" where
  "verify_server_cert ssl fs server_cert ca_cert_path =
     (case load_cert_file ssl fs ca_cert_path of
        None \<Rightarrow> False
      | Some ca_cert \<Rightarrow>
          if \<not> store_new ssl then False
          else if \<not> store_ctx_new ssl then False
          else x509_verify_cert ssl ca_cert server_cert)"

section \<open>Signatures\<close>

text \<open>
  A result of a call that fills a buffer whose size OpenSSL announced: the output and the
  length it reports; the output is missing after a failure.
\<close>

definition fill :: "evp \<Rightarrow> nat option \<Rightarrow> u8 list option \<Rightarrow> (u8 list option \<times> nat) option" where
  "fill ssl announced result =
     (case announced of
        None \<Rightarrow> Some (None, 0)
      | Some n \<Rightarrow>
          if \<not> malloc_ok (sym ssl) n then Some (None, n)
          else case result of
              None \<Rightarrow> Some (None, n)
            | Some out \<Rightarrow> do {
                buf \<leftarrow> memcpy (replicate n 0) 0 out;
                Some (Some (take (length out) buf), length out)
              })"

definition sign_message_pss :: "evp \<Rightarrow> nat \<Rightarrow> pkey \<Rightarrow> u8 list \<Rightarrow> (u8 list option \<times> nat) option" where
  "sign_message_pss ssl salt priv_key msg =
     (if \<not> md_ctx ssl then Some (None, 0)
      else if \<not> sign_setup ssl priv_key then Some (None, 0)
      else fill ssl (sign_size ssl priv_key) (sign_final ssl salt priv_key msg))"

definition verify_message_pss :: "evp \<Rightarrow> x509 \<Rightarrow> u8 list \<Rightarrow> u8 list \<Rightarrow> bool" where
  "verify_message_pss ssl cert sig msg =
     (case x509_get_pubkey ssl cert of
        None \<Rightarrow> False
      | Some pub_key \<Rightarrow>
          if \<not> md_ctx ssl then False
          else if \<not> verify_setup ssl pub_key then False
          else verify_final ssl pub_key sig msg)"

section \<open>Blocks\<close>

definition rsa_encrypt_block :: "evp \<Rightarrow> nat \<Rightarrow> pkey \<Rightarrow> u8 list \<Rightarrow> bool \<Rightarrow> (u8 list option \<times> nat) option" where
  "rsa_encrypt_block ssl seed pub_key plain use_oaep =
     (if \<not> pkey_ctx ssl pub_key then Some (None, 0)
      else if \<not> rsa_setup ssl pub_key use_oaep then Some (None, 0)
      else fill ssl (rsa_enc_size ssl pub_key use_oaep plain) (rsa_enc ssl seed pub_key use_oaep plain))"

definition rsa_decrypt_block :: "evp \<Rightarrow> pkey \<Rightarrow> u8 list \<Rightarrow> bool \<Rightarrow> (u8 list option \<times> nat) option" where
  "rsa_decrypt_block ssl priv_key cipher use_oaep =
     (if \<not> pkey_ctx ssl priv_key then Some (None, 0)
      else if \<not> rsa_setup ssl priv_key use_oaep then Some (None, 0)
      else fill ssl (rsa_dec_size ssl priv_key use_oaep cipher) (rsa_dec ssl priv_key use_oaep cipher))"

text \<open>\<open>random\<close> is what \<open>RAND_bytes\<close> delivers.\<close>

definition generate_session_key :: "u8 list option \<Rightarrow> u8 list \<Rightarrow> (int \<times> u8 list) option" where
  "generate_session_key random key_out =
     (case random of
        None \<Rightarrow> Some (- 1, key_out)
      | Some bytes \<Rightarrow> do { key_out \<leftarrow> memcpy key_out 0 bytes; Some (0, key_out) })"

end
