(* ===== verification/File_Transfer.thy ===== *)
theory File_Transfer
  imports Rsa
begin

text \<open>
  The secure file transfer (\<open>reference/pa2\<close>): the server that receives files over one
  connection (\<open>ServerWithSecurityCP2.c\<close>) and the client that authenticates it, hands it a
  session key and sends files (\<open>ClientWithSecurityCP2.c\<close>).  The two directions of the socket
  are two connections.  Each program has its own file system.  Opening the socket, name
  resolution and the progress messages are not modelled, except where a buffer without a null
  is printed as a string: \<open>prints\<close> says whether that is harmless.
\<close>

section \<open>Messages\<close>

definition MSG_FILENAME :: u64 where "MSG_FILENAME = 0"
definition MSG_FILE_DATA :: u64 where "MSG_FILE_DATA = 1"
definition MSG_CLOSE :: u64 where "MSG_CLOSE = 2"
definition MSG_AUTH :: u64 where "MSG_AUTH = 3"
definition MSG_SYMKEY :: u64 where "MSG_SYMKEY = 4"

definition RSA_KEY_BYTES :: nat where "RSA_KEY_BYTES = 1024 div 8"
definition RSA_OAEP_CHUNK :: nat where "RSA_OAEP_CHUNK = 62"
definition RSA_PKCS1_CHUNK :: nat where "RSA_PKCS1_CHUNK = 117"

text \<open>Characters are bytes.\<close>

definition chars :: "u8 list \<Rightarrow> string" where
  "chars bs = map (\<lambda>b. char_of (unat b)) bs"

definition octets :: "string \<Rightarrow> u8 list" where
  "octets s = map of_char s"

section \<open>Files as blocks\<close>

text \<open>The loops of \<open>encrypt_file\<close> and \<open>decrypt_file\<close>: the blocks still to do, the buffer and the offset in it.\<close>

function encrypt_blocks :: "evp \<Rightarrow> (nat \<Rightarrow> nat) \<Rightarrow> pkey \<Rightarrow> nat \<Rightarrow> bool \<Rightarrow> u8 list \<Rightarrow> u8 list \<Rightarrow> nat \<Rightarrow> (u8 list \<times> nat) option option" where
  "encrypt_blocks ssl seeds pub chunk oaep plain data off =
     (if plain = [] \<or> chunk = 0 then Some (Some (data, off))
      else do {
        let current = (if length plain < chunk then length plain else chunk);
        (block, n) \<leftarrow> rsa_encrypt_block ssl (seeds (length plain)) pub (take current plain) oaep;
        case block of
          None \<Rightarrow> Some None
        | Some block \<Rightarrow> do {
            data \<leftarrow> memcpy data off (take n block);
            encrypt_blocks ssl seeds pub chunk oaep (drop current plain) data (off + n)
          }
      })"
  by pat_completeness auto
termination
  by (relation "measure (\<lambda>(_, _, _, _, _, plain, _, _). length plain)") auto

declare encrypt_blocks.simps [simp del]

definition encrypt_file :: "evp \<Rightarrow> (nat \<Rightarrow> nat) \<Rightarrow> bool \<Rightarrow> pkey \<Rightarrow> u8 list \<Rightarrow> u8 list option option" where
  "encrypt_file ssl seeds use_oaep pub original =
     (let chunk_size = (if use_oaep then RSA_OAEP_CHUNK else RSA_PKCS1_CHUNK);
          blocks = (length original + chunk_size - 1) div chunk_size;
          enc_total_len = blocks * RSA_KEY_BYTES
      in if \<not> malloc_ok (sym ssl) enc_total_len then Some None
         else do {
           r \<leftarrow> encrypt_blocks ssl seeds pub chunk_size use_oaep original (replicate enc_total_len 0) 0;
           Some (map_option (\<lambda>(data, off). take off data) r)
         })"

function decrypt_blocks :: "evp \<Rightarrow> (u8 list \<Rightarrow> bool) \<Rightarrow> pkey \<Rightarrow> bool \<Rightarrow> u8 list \<Rightarrow> u8 list \<Rightarrow> nat \<Rightarrow> (u8 list \<times> nat) option option" where
  "decrypt_blocks ssl prints priv oaep enc data off =
     (if enc = [] then Some (Some (data, off))
      else if length enc < RSA_KEY_BYTES then None
      else do {
        (block, n) \<leftarrow> rsa_decrypt_block ssl priv (take RSA_KEY_BYTES enc) oaep;
        case block of
          None \<Rightarrow> Some None
        | Some block \<Rightarrow>
            if \<not> prints block then None
            else do {
              data \<leftarrow> memcpy data off (take n block);
              decrypt_blocks ssl prints priv oaep (drop RSA_KEY_BYTES enc) data (off + n)
            }
      })"
  by pat_completeness auto
termination
  by (relation "measure (\<lambda>(_, _, _, _, enc, _, _). length enc)") (auto simp: RSA_KEY_BYTES_def)

declare decrypt_blocks.simps [simp del]

definition decrypt_file :: "evp \<Rightarrow> (u8 list \<Rightarrow> bool) \<Rightarrow> bool \<Rightarrow> u8 list \<Rightarrow> pkey \<Rightarrow> u8 list option option" where
  "decrypt_file ssl prints use_oaep encrypted_data priv =
     (if \<not> malloc_ok (sym ssl) (length encrypted_data) then Some None
      else if \<not> prints encrypted_data then None
      else do {
        r \<leftarrow> decrypt_blocks ssl prints priv use_oaep encrypted_data (replicate (length encrypted_data) 0) 0;
        Some (map_option (\<lambda>(data, off). take off data) r)
      })"

section \<open>The server\<close>

record server =
  session_key :: "u8 list"
  session_key_flag :: bool
  srv_filename :: string  \<comment> \<open>the whole buffer\<close>
  srv_in :: conn
  srv_out :: conn
  srv_files :: file_system
  srv_creates :: "string \<Rightarrow> bool"  \<comment> \<open>whether a file can be opened for writing\<close>

text \<open>What the programs share: OpenSSL, the padding chosen, and how printing behaves.\<close>

record setting =
  ssl :: evp
  use_oaep :: bool
  prints :: "u8 list \<Rightarrow> bool"
  salt :: nat

definition FILENAME_MAX :: nat where "FILENAME_MAX = 4096"

text \<open>Each message gives whether the loop goes on, and the new state.\<close>

definition receive_filename :: "server \<Rightarrow> (bool \<times> server) option" where
  "receive_filename s = do {
     (fn_buf, c) \<leftarrow> read_field (srv_in s);
     case fn_buf of
       None \<Rightarrow> None
     | Some fn_buf \<Rightarrow> do {
         name \<leftarrow> memcpy (replicate FILENAME_MAX NUL) 0 (chars fn_buf);
         Some (True, s\<lparr>srv_filename := name, srv_in := c\<rparr>)
       }
   }"

text \<open>The text after the last slash of the file name, a string only if the buffer holds a null.\<close>

definition base_name :: "string \<Rightarrow> string option" where
  "base_name name =
     (if NUL \<notin> set name then None
      else Some (case strrchr_split (CHR ''/'') (cstr name) of Some (_, base) \<Rightarrow> base | None \<Rightarrow> cstr name))"

definition store_file :: "u8 list \<Rightarrow> server \<Rightarrow> server option" where
  "store_file data s = do {
     base \<leftarrow> base_name (srv_filename s);
     let outpath = take (FILENAME_MAX - 1) (''recv_files/recv_'' @ base);
     Some (if srv_creates s outpath then s\<lparr>srv_files := (srv_files s)(outpath \<mapsto> data)\<rparr> else s)
   }"

definition receive_file_data :: "setting \<Rightarrow> server \<Rightarrow> (bool \<times> server) option" where
  "receive_file_data e s = do {
     (enc_data, c) \<leftarrow> read_field (srv_in s);
     let s = s\<lparr>srv_in := c\<rparr>;
     case load_private_key (ssl e) (srv_files s) ''auth/private_key.pem'' of
       None \<Rightarrow> Some (False, s)
     | Some priv \<Rightarrow> (case enc_data of
         None \<Rightarrow> None
       | Some enc_data \<Rightarrow> do {
           file_data \<leftarrow>
             (if session_key_flag s
              then if prints e enc_data then session_decrypt (sym (ssl e)) (session_key s) enc_data else None
              else decrypt_file (ssl e) (prints e) (use_oaep e) enc_data priv);
           case file_data of
             None \<Rightarrow> Some (False, s)
           | Some file_data \<Rightarrow> do { s \<leftarrow> store_file file_data s; Some (True, s) }
         })
   }"

definition receive_auth :: "setting \<Rightarrow> server \<Rightarrow> (bool \<times> server) option" where
  "receive_auth e s = do {
     (challenge, c) \<leftarrow> read_field (srv_in s);
     let s = s\<lparr>srv_in := c\<rparr>;
     case challenge of
       None \<Rightarrow> Some (False, s)
     | Some challenge \<Rightarrow> (case load_private_key (ssl e) (srv_files s) ''auth/private_key.pem'' of
         None \<Rightarrow> Some (False, s)
       | Some priv \<Rightarrow> do {
           (sig, sig_len) \<leftarrow> sign_message_pss (ssl e) (salt e) priv challenge;
           case sig of
             None \<Rightarrow> Some (False, s)
           | Some sig \<Rightarrow> do {
               out \<leftarrow> send_bytes (Some sig) sig_len (srv_out s);
               let s = s\<lparr>srv_out := out\<rparr>;
               case srv_files s ''auth/server_signed.crt'' of
                 None \<Rightarrow> Some (False, s)
               | Some cert \<Rightarrow>
                   if \<not> malloc_ok (sym (ssl e)) (length cert) then Some (False, s)
                   else do {
                     out \<leftarrow> send_bytes (Some cert) (length cert) out;
                     Some (True, s\<lparr>srv_out := out\<rparr>)
                   }
             }
         })
   }"

definition receive_symkey :: "setting \<Rightarrow> server \<Rightarrow> (bool \<times> server) option" where
  "receive_symkey e s = do {
     (enc_key, c) \<leftarrow> read_field (srv_in s);
     let s = s\<lparr>srv_in := c\<rparr>;
     case enc_key of
       None \<Rightarrow> Some (False, s)
     | Some enc_key \<Rightarrow> (case load_private_key (ssl e) (srv_files s) ''auth/private_key.pem'' of
         None \<Rightarrow> Some (False, s)
       | Some priv \<Rightarrow> do {
           (dec_key, dec_key_len) \<leftarrow> rsa_decrypt_block (ssl e) priv enc_key (use_oaep e);
           case dec_key of
             None \<Rightarrow> Some (False, s)
           | Some dec_key \<Rightarrow>
               if dec_key_len \<noteq> SESSION_KEY_LEN then Some (False, s)
               else do {
                 key \<leftarrow> memcpy (session_key s) 0 (take SESSION_KEY_LEN dec_key);
                 Some (True, s\<lparr>session_key := key, session_key_flag := True\<rparr>)
               }
         })
   }"

definition server_message :: "setting \<Rightarrow> server \<Rightarrow> (bool \<times> server) option" where
  "server_message e s =
     (case read_bytes (of_nat INT_BYTES) (srv_in s) of
        (None, c) \<Rightarrow> Some (False, s\<lparr>srv_in := c\<rparr>)
      | (Some type_buf, c) \<Rightarrow> do {
          msg_type \<leftarrow> bytes_to_int type_buf;
          let s = s\<lparr>srv_in := c\<rparr>;
          if msg_type = MSG_FILENAME then receive_filename s
          else if msg_type = MSG_FILE_DATA then receive_file_data e s
          else if msg_type = MSG_CLOSE then Some (False, s)
          else if msg_type = MSG_AUTH then receive_auth e s
          else if msg_type = MSG_SYMKEY then receive_symkey e s
          else Some (False, s)
        })"

text \<open>Every message consumes its type, so the loop ends.\<close>

lemma recv_consumes:
  assumes "recv len c = (n, bs, c')"
  shows "length (under_way c') \<le> length (under_way c)" "0 < n \<Longrightarrow> length (under_way c') + nat n = length (under_way c)"
  using assms by (auto simp: recv_def Let_def split: if_splits)

lemma read_loop_consumes:
  assumes "read_loop n buf c = (r, c')"
  shows "length (under_way c') + (if r = None then 0 else n) \<le> length (under_way c)"
  using assms
proof (induction n buf c arbitrary: r c' rule: read_loop.induct)
  case (1 n buf c)
  show ?case
  proof (cases "n = 0")
    case True
    then show ?thesis using "1.prems" by (auto simp: read_loop.simps [of 0])
  next
    case False
    obtain k bs c1 where k: "recv (if n < 1024 then n else 1024) c = (k, bs, c1)" by (cases "recv (if n < 1024 then n else 1024) c")
    note "1.prems" [unfolded read_loop.simps [of n buf c], simplified False k Let_def if_False prod.case]
    then show ?thesis
      using "1.IH" [OF False refl refl k [symmetric] refl, of r c'] recv_consumes [OF k] by (auto split: if_splits)
  qed
qed

lemma read_bytes_consumes:
  "read_bytes len c = (r, c') \<Longrightarrow> length (under_way c') + (if r = None then 0 else unat len) \<le> length (under_way c)"
  by (auto simp: read_bytes_def dest: read_loop_consumes split: if_splits)

lemma read_len_consumes:
  "read_len c = Some (n, c') \<Longrightarrow> length (under_way c') \<le> length (under_way c)"
  by (auto simp: read_len_def bind_eq_Some_conv dest: read_bytes_consumes split: prod.splits option.splits)

lemma read_field_consumes:
  "read_field c = Some (b, c') \<Longrightarrow> length (under_way c') \<le> length (under_way c)"
  by (fastforce simp: read_field_def bind_eq_Some_conv dest: read_len_consumes read_bytes_consumes)

lemma store_file_in: "store_file d s = Some s' \<Longrightarrow> srv_in s' = srv_in s"
  by (auto simp: store_file_def bind_eq_Some_conv Let_def split: if_splits)

lemma receive_filename_in:
  "receive_filename s = Some (go, s') \<Longrightarrow> \<exists>b. read_field (srv_in s) = Some (b, srv_in s')"
  by (auto simp: receive_filename_def Let_def elim!: bind_SomeE split: option.split_asm if_split_asm)

lemma receive_file_data_in:
  "receive_file_data e s = Some (go, s') \<Longrightarrow> \<exists>b. read_field (srv_in s) = Some (b, srv_in s')"
  by (auto simp: receive_file_data_def Let_def elim!: bind_SomeE split: option.split_asm if_split_asm dest!: store_file_in)

lemma receive_auth_in:
  "receive_auth e s = Some (go, s') \<Longrightarrow> \<exists>b. read_field (srv_in s) = Some (b, srv_in s')"
  by (auto simp: receive_auth_def Let_def elim!: bind_SomeE split: option.split_asm if_split_asm)

lemma receive_symkey_in:
  "receive_symkey e s = Some (go, s') \<Longrightarrow> \<exists>b. read_field (srv_in s) = Some (b, srv_in s')"
  by (auto simp: receive_symkey_def Let_def elim!: bind_SomeE split: option.split_asm if_split_asm)

lemmas message_in = receive_filename_in receive_file_data_in receive_auth_in receive_symkey_in

lemma server_message_consumes:
  assumes "server_message e s = Some (True, s')"
  shows "length (under_way (srv_in s')) < length (under_way (srv_in s))"
proof -
  obtain r c where r: "read_bytes (of_nat INT_BYTES) (srv_in s) = (r, c)" by fastforce
  then obtain b where b: "r = Some b" using assms by (cases r) (auto simp: server_message_def)
  have "length (under_way c) < length (under_way (srv_in s))"
    using read_bytes_consumes [OF r] b by (simp add: INT_BYTES_def)
  moreover have "length (under_way (srv_in s')) \<le> length (under_way c)"
    using assms r b
    by (auto simp: server_message_def bind_eq_Some_conv Let_def split: if_splits dest!: message_in dest: read_field_consumes)
  ultimately show ?thesis by simp
qed

function server_loop :: "setting \<Rightarrow> server \<Rightarrow> server option" where
  "server_loop e s =
     (case server_message e s of
        None \<Rightarrow> None
      | Some (go, s') \<Rightarrow> if go then server_loop e s' else Some s')"
  by pat_completeness auto
termination
  by (relation "measure (\<lambda>(_, s). length (under_way (srv_in s)))") (auto dest: server_message_consumes)

declare server_loop.simps [simp del]

text \<open>
  The states the loop passes through, message by message, with whether it goes on; a message that
  leads to undefined behaviour has no successor.
\<close>

inductive server_steps :: "setting \<Rightarrow> server \<Rightarrow> bool \<Rightarrow> server \<Rightarrow> bool" for e s where
  start: "server_steps e s True s"
| message: "server_steps e s True s1 \<Longrightarrow> server_message e s1 = Some (go, s2) \<Longrightarrow> server_steps e s go s2"

lemma server_loop_steps:
  assumes "server_loop e s = Some s'" and "server_steps e s0 True s"
  shows "server_steps e s0 False s'"
  using assms
proof (induction e s rule: server_loop.induct)
  case (1 e s)
  from "1.prems"(1) obtain go s1 where s1: "server_message e s = Some (go, s1)"
    by (auto simp: server_loop.simps [of e s] split: option.split_asm)
  show ?case
    using "1.prems" "1.IH" [OF s1 refl] s1 server_steps.message [OF "1.prems"(2) s1]
    by (cases go) (auto simp: server_loop.simps [of e s])
qed

text \<open>After the loop the session key is wiped.\<close>

definition server_run :: "setting \<Rightarrow> server \<Rightarrow> server option" where
  "server_run e s = map_option (\<lambda>s. s\<lparr>session_key := replicate SESSION_KEY_LEN 0\<rparr>) (server_loop e s)"

section \<open>The client\<close>

record client =
  cl_in :: conn
  cl_out :: conn
  cl_files :: file_system  \<comment> \<open>the regular files\<close>
  cl_opens :: "string \<Rightarrow> bool"
  cl_stdin :: string

text \<open>What \<open>RAND_bytes\<close> delivers: the challenge, the session key, a vector for every file.\<close>

record draws =
  challenge_bytes :: "u8 list option"
  key_bytes :: "u8 list option"
  key_seed :: nat
  iv_bytes :: "nat \<Rightarrow> u8 list option"

text \<open>Sending that ends the function when it fails.\<close>

definition try_send :: "u8 list \<Rightarrow> client \<Rightarrow> bool \<times> client" where
  "try_send bs c = (let (r, out) = send_all bs (cl_out c) in (r = 0, c\<lparr>cl_out := out\<rparr>))"

definition try_send_int :: "u64 \<Rightarrow> client \<Rightarrow> (bool \<times> client) option" where
  "try_send_int v c = do { (r, out) \<leftarrow> send_int v (cl_out c); Some (r = 0, c\<lparr>cl_out := out\<rparr>) }"

text \<open>A field of the answer: \<open>None\<close> inside when one of the two reads failed.\<close>

definition answer_field :: "client \<Rightarrow> (u8 list option \<times> u64 \<times> client) option" where
  "answer_field c =
     (case read_bytes (of_nat INT_BYTES) (cl_in c) of
        (None, i) \<Rightarrow> Some (None, 0, c\<lparr>cl_in := i\<rparr>)
      | (Some b, i) \<Rightarrow> do {
          n \<leftarrow> bytes_to_int b;
          let (data, i) = read_bytes n i;
          Some (data, n, c\<lparr>cl_in := i\<rparr>)
        })"

text \<open>The checks of the answer: the certificate, the signature of the challenge, the key.\<close>

definition check_answer :: "setting \<Rightarrow> file_system \<Rightarrow> u8 list \<Rightarrow> u8 list \<Rightarrow> u8 list \<Rightarrow> u64 \<Rightarrow> pkey option option" where
  "check_answer e fs challenge sig crt_bytes crt_len = do {
     cert \<leftarrow> load_cert_bytes (ssl e) crt_bytes (to_int32 (int (unat crt_len)));
     Some (case cert of
         None \<Rightarrow> None
       | Some server_cert \<Rightarrow>
           if \<not> verify_server_cert (ssl e) fs server_cert ''auth/cacsertificate.crt'' then None
           else if \<not> verify_message_pss (ssl e) server_cert sig challenge then None
           else x509_get_pubkey (ssl e) server_cert)
   }"

text \<open>The public key, or \<open>None\<close> for the result \<open>-1\<close>.\<close>

definition auth :: "setting \<Rightarrow> draws \<Rightarrow> client \<Rightarrow> (pkey option \<times> client) option" where
  "auth e d c = do {
     (rc, challenge) \<leftarrow> generate_session_key (challenge_bytes d) (replicate SESSION_KEY_LEN 0);
     if rc \<noteq> 0 then Some (None, c)
     else do {
       (ok, c) \<leftarrow> try_send_int MSG_AUTH c;
       if \<not> ok then Some (None, c)
       else do {
         (ok, c) \<leftarrow> try_send_int (of_nat SESSION_KEY_LEN) c;
         if \<not> ok then Some (None, c)
         else let (ok, c) = try_send challenge c in
           if \<not> ok then Some (None, c)
           else do {
             (sig, _, c) \<leftarrow> answer_field c;
             case sig of
               None \<Rightarrow> Some (None, c)
             | Some sig \<Rightarrow> do {
                 (crt_bytes, crt_len, c) \<leftarrow> answer_field c;
                 case crt_bytes of
                   None \<Rightarrow> Some (None, c)
                 | Some crt_bytes \<Rightarrow> do {
                     key \<leftarrow> check_answer e (cl_files c) challenge sig crt_bytes crt_len;
                     Some (key, c)
                   }
               }
           }
       }
     }
   }"

text \<open>The name on an input line, and asking for one until it is \<open>-1\<close> or names a regular file.\<close>

definition typed_name :: "string \<Rightarrow> string" where
  "typed_name line = takeWhile (\<lambda>ch. ch \<noteq> NL) (cstr line)"

function ask_name :: "file_system \<Rightarrow> string \<Rightarrow> string option \<times> string" where
  "ask_name fs input =
     (if input = [] then (None, [])
      else let (line, rest) = fgets (FILENAME_MAX - 1) input; name = typed_name line
        in if name = ''-1'' \<or> fs name \<noteq> None then (Some name, rest) else ask_name fs rest)"
  by pat_completeness auto
termination
proof (relation "measure (\<lambda>(_, input). length input)")
  fix fs :: file_system and input line rest :: string and x name
  assume "input \<noteq> []" "x = fgets (FILENAME_MAX - 1) input" "(line, rest) = x"
  then show "((fs, rest), fs, input) \<in> measure (\<lambda>(_, input). length input)"
    using fgets_progress [of 4094 "hd input" "tl input" line rest] by (simp add: FILENAME_MAX_def)
qed simp

declare ask_name.simps [simp del]

text \<open>One file; \<open>i\<close> numbers the rounds of the loop.\<close>

definition send_file :: "setting \<Rightarrow> draws \<Rightarrow> u8 list \<Rightarrow> nat \<Rightarrow> string \<Rightarrow> client \<Rightarrow> client option" where
  "send_file e d key i name c = do {
     out \<leftarrow> send_num MSG_FILENAME (cl_out c);
     out \<leftarrow> send_bytes (Some (octets name)) (length name) out;
     let c = c\<lparr>cl_out := out\<rparr>;
     case (if cl_opens c name then cl_files c name else None) of
       None \<Rightarrow> Some c
     | Some file_data \<Rightarrow>
         if \<not> malloc_ok (sym (ssl e)) (length file_data) \<and> file_data \<noteq> [] then None
         else do {
           enc_data \<leftarrow> session_encrypt (sym (ssl e)) key file_data (iv_bytes d i);
           case enc_data of
             None \<Rightarrow> Some c
           | Some enc_data \<Rightarrow> do {
               out \<leftarrow> send_num MSG_FILE_DATA out;
               out \<leftarrow> send_bytes (Some enc_data) (length enc_data) out;
               Some (c\<lparr>cl_out := out\<rparr>)
             }
         }
   }"

lemma ask_name_shorter: "ask_name fs input = (Some name, rest) \<Longrightarrow> length rest < length input"
proof (induction fs input rule: ask_name.induct)
  case (1 fs input)
  obtain line r where f: "fgets (FILENAME_MAX - 1) input = (line, r)" by fastforce
  have "input \<noteq> []" using "1.prems" by (auto simp: ask_name.simps [of fs input])
  then have r: "length r < length input"
    using f fgets_progress [of 4094 "hd input" "tl input" line r] by (simp add: FILENAME_MAX_def)
  show ?case
    using "1.prems" "1.IH" [OF \<open>input \<noteq> []\<close> f [symmetric] refl refl] r f
    by (auto simp: ask_name.simps [of fs input] Let_def split: if_splits)
qed

lemma send_file_stdin: "send_file e d key i name c = Some c' \<Longrightarrow> cl_stdin c' = cl_stdin c"
  by (auto simp: send_file_def Let_def elim!: bind_SomeE split: option.split_asm if_split_asm)

function client_loop :: "setting \<Rightarrow> draws \<Rightarrow> u8 list \<Rightarrow> nat \<Rightarrow> client \<Rightarrow> client option" where
  "client_loop e d key i c =
     (case ask_name (cl_files c) (cl_stdin c) of
        (None, rest) \<Rightarrow> Some (c\<lparr>cl_stdin := rest\<rparr>)
      | (Some name, rest) \<Rightarrow>
          let c = c\<lparr>cl_stdin := rest\<rparr> in
          if name = ''-1'' then do { out \<leftarrow> send_num MSG_CLOSE (cl_out c); Some (c\<lparr>cl_out := out\<rparr>) }
          else do { c \<leftarrow> send_file e d key i name c; client_loop e d key (Suc i) c })"
  by pat_completeness auto
termination
  by (relation "measure (\<lambda>(_, _, _, _, c). length (cl_stdin c))")
     (auto dest!: ask_name_shorter [OF sym] send_file_stdin)

declare client_loop.simps [simp del]

text \<open>The whole program after the connection is made, with its exit status.\<close>

definition client_main :: "setting \<Rightarrow> draws \<Rightarrow> client \<Rightarrow> (int \<times> client) option" where
  "client_main e d c = do {
     (server_pub_key, c) \<leftarrow> auth e d c;
     case server_pub_key of
       None \<Rightarrow> Some (1, c)
     | Some server_pub_key \<Rightarrow> do {
         (rc, key) \<leftarrow> generate_session_key (key_bytes d) (replicate SESSION_KEY_LEN 0);
         if rc \<noteq> 0 then Some (1, c)
         else do {
           (enc_key, enc_key_len) \<leftarrow> rsa_encrypt_block (ssl e) (key_seed d) server_pub_key key (use_oaep e);
           out \<leftarrow> send_num MSG_SYMKEY (cl_out c);
           out \<leftarrow> send_bytes enc_key enc_key_len out;
           c \<leftarrow> client_loop e d key 0 (c\<lparr>cl_out := out\<rparr>);
           out \<leftarrow> send_num MSG_CLOSE (cl_out c);
           Some (0, c\<lparr>cl_out := out\<rparr>)
         }
       }
   }"

end
