(* ===== verification/Wire_Laws.thy ===== *)
theory Wire_Laws
  imports Wire
begin

unbundle bit_operations_syntax

text \<open>
  Integers arrive as they were sent however the connection splits them, and a session token
  decrypts to what was encrypted, is checked before it is decrypted, and never overruns a
  buffer, for any OpenSSL that keeps \<open>crypto_laws\<close>.
\<close>

section \<open>Integers\<close>

fun be_bytes :: "nat \<Rightarrow> u64 \<Rightarrow> u8 list" where
  "be_bytes 0 x = []"
| "be_bytes (Suc n) x = be_bytes n (drop_bit 8 x) @ [ucast x]"

definition be_value :: "u8 list \<Rightarrow> u64" where
  "be_value bs = foldl (\<lambda>r b. push_bit 8 r OR ucast b) 0 bs"

lemma be_bytes_length [simp]: "length (be_bytes n x) = n"
  by (induction n arbitrary: x) simp_all

lemma be_value_snoc: "be_value (bs @ [b]) = push_bit 8 (be_value bs) OR ucast b"
  by (simp add: be_value_def)

lemma push_low_byte:
  "push_bit 8 (take_bit n (drop_bit 8 x)) OR ucast (ucast x :: u8) = take_bit (n + 8) (x :: u64)"
  by (rule bit_word_eqI) (auto simp: bit_simps)

lemma be_value_bytes: "be_value (be_bytes n x) = take_bit (8 * n) x"
proof (induction n arbitrary: x)
  case 0
  then show ?case by (simp add: be_value_def)
next
  case (Suc n)
  then show ?case using push_low_byte [of "8 * n" x] by (simp add: be_value_snoc add.commute)
qed

lemma low_byte: "ucast (x AND 0xFF :: u64) = (ucast x :: u8)"
proof -
  have "(0xFF :: u64) = mask 8" by (simp add: mask_eq_exp_minus_1)
  then have "x AND 0xFF = take_bit 8 x" by (simp only: take_bit_eq_mask)
  then show ?thesis by (simp only:) (rule bit_word_eqI, auto simp: bit_simps)
qed

lemma put_bytes_eq:
  "n \<le> length buf \<Longrightarrow> put_bytes n x buf = Some (be_bytes n x @ drop n buf)"
proof (induction n arbitrary: x buf)
  case (Suc n)
  then have "put_bytes n (drop_bit 8 x) (buf[n := ucast x]) = Some (be_bytes n (drop_bit 8 x) @ drop n (buf[n := ucast x]))"
    by simp
  moreover have "drop n (buf[n := ucast x]) = ucast x # drop (Suc n) buf"
    using Suc.prems by (simp add: drop_update_swap Cons_nth_drop_Suc [symmetric] upd_conv_take_nth_drop)
  ultimately show ?case using Suc.prems by (simp add: low_byte)
qed simp

lemma int_to_bytes_eq: "length buf = 8 \<Longrightarrow> int_to_bytes x buf = Some (be_bytes 8 x)"
  by (simp add: int_to_bytes_def INT_BYTES_def put_bytes_eq)

lemma bytes_to_int_eq:
  assumes "length buf = 8"
  shows "bytes_to_int buf = Some (be_value buf)"
proof -
  have "bytes_to_int buf = Some (fold (\<lambda>i r. push_bit 8 r OR ucast (buf ! i)) [0..<8] 0)"
    unfolding bytes_to_int_def INT_BYTES_def by (rule for_from_fold) (use assms in simp)
  also have "fold (\<lambda>i r. push_bit 8 r OR ucast (buf ! i)) [0..<8] 0 = foldl (\<lambda>r b. push_bit 8 r OR ucast b) 0 (map ((!) buf) [0..<8])"
    by (simp add: foldl_conv_fold fold_map comp_def)
  also have "map ((!) buf) [0..<8] = buf" using assms map_nth [of buf] by simp
  finally show ?thesis by (simp add: be_value_def)
qed

section \<open>Fragmentation\<close>

definition flowing :: "conn \<Rightarrow> bool" where
  "flowing c = ((\<forall>k \<in> sset (recv_s c). 0 < k) \<and> (\<forall>k \<in> sset (send_s c). 0 < k) \<and> (\<forall>len. alloc_ok c len))"

lemma shd_stl_pos:
  assumes "\<forall>k \<in> sset s. P k"
  shows "P (shd s)" "\<forall>k \<in> sset (stl s). P k"
  using assms by (auto intro: stl_sset shd_sset)

text \<open>On a flowing connection every call makes some progress.\<close>

lemma recv_progress:
  assumes "flowing c" and "under_way c \<noteq> []" and "0 < len"
  obtains m c' where "recv len c = (int m, take m (under_way c), c')" "0 < m" "m \<le> len" "m \<le> length (under_way c)"
    "flowing c'" "under_way c' = drop m (under_way c)"
proof -
  let ?k = "shd (recv_s c)"
  have k: "0 < ?k" "\<forall>k \<in> sset (stl (recv_s c)). 0 < k"
    using assms(1) shd_stl_pos [of "recv_s c" "\<lambda>k. 0 < k"] by (simp_all add: flowing_def)
  let ?m = "min (nat ?k) (min len (length (under_way c)))"
  show ?thesis
  proof (rule that)
    show "recv len c = (int ?m, take ?m (under_way c), c\<lparr>recv_s := stl (recv_s c), under_way := drop ?m (under_way c)\<rparr>)"
      using k(1) assms(2) by (simp add: recv_def Let_def)
    show "0 < ?m" using k(1) assms(2,3) by simp
    show "flowing (c\<lparr>recv_s := stl (recv_s c), under_way := drop ?m (under_way c)\<rparr>)"
      using assms(1) k(2) by (simp add: flowing_def)
  qed simp_all
qed

lemma send_progress:
  assumes "flowing c" and "bs \<noteq> []"
  obtains m c' where "send bs c = (int m, c')" "0 < m" "m \<le> length bs"
    "flowing c'" "under_way c' = under_way c @ take m bs"
proof -
  let ?k = "shd (send_s c)"
  have k: "0 < ?k" "\<forall>k \<in> sset (stl (send_s c)). 0 < k"
    using assms(1) shd_stl_pos [of "send_s c" "\<lambda>k. 0 < k"] by (simp_all add: flowing_def)
  let ?m = "min (nat ?k) (length bs)"
  show ?thesis
  proof (rule that)
    show "send bs c = (int ?m, c\<lparr>send_s := stl (send_s c), under_way := under_way c @ take ?m bs\<rparr>)"
      using k(1) by (simp add: send_def Let_def)
    show "0 < ?m" using k(1) assms(2) by simp
    show "flowing (c\<lparr>send_s := stl (send_s c), under_way := under_way c @ take ?m bs\<rparr>)"
      using assms(1) k(2) by (simp add: flowing_def)
  qed simp_all
qed

lemma read_loop_exact:
  assumes "flowing c" and "under_way c = bs @ rest" and "length bs = n"
  shows "\<exists>c'. read_loop n buffer c = (Some (buffer @ bs), c') \<and> flowing c' \<and> under_way c' = rest"
  using assms
proof (induction n arbitrary: buffer c bs rule: less_induct)
  case (less n)
  show ?case
  proof (cases "n = 0")
    case True
    then show ?thesis using less.prems by (simp add: read_loop.simps)
  next
    case False
    define chunk where "chunk = (if n < 1024 then n else 1024)"
    have "0 < chunk" "chunk \<le> n" "under_way c \<noteq> []" using False less.prems(2,3) by (auto simp: chunk_def)
    with recv_progress [OF less.prems(1)] obtain m c1 where
      r: "recv chunk c = (int m, take m (under_way c), c1)" "0 < m" "m \<le> n" "flowing c1" "under_way c1 = drop m (under_way c)"
      by (metis order_trans)
    have bs: "take m (under_way c) = take m bs" "under_way c1 = drop m bs @ rest" "length (drop m bs) = n - m"
      using less.prems(2,3) r(3,5) by simp_all
    have "n - m < n" using r(2) False by simp
    from less.IH [OF this r(4) bs(2,3), of "buffer @ take m bs"] obtain c' where
      c': "read_loop (n - m) (buffer @ take m bs) c1 = (Some (buffer @ bs), c')" "flowing c'" "under_way c' = rest"
      by auto
    have "read_loop n buffer c = read_loop (n - m) (buffer @ take m bs) c1"
      using False r(1,2) bs(1) by (subst read_loop.simps) (simp add: chunk_def [symmetric] Let_def)
    with c' show ?thesis by simp
  qed
qed

lemma send_all_exact:
  assumes "flowing c"
  shows "\<exists>c'. send_all bs c = (0, c') \<and> flowing c' \<and> under_way c' = under_way c @ bs"
  using assms
proof (induction bs arbitrary: c rule: length_induct)
  case (1 bs)
  show ?case
  proof (cases "bs = []")
    case True
    then show ?thesis using "1.prems" by (simp add: send_all.simps)
  next
    case False
    from send_progress [OF "1.prems" this] obtain m c1 where
      s: "send bs c = (int m, c1)" "0 < m" "m \<le> length bs" "flowing c1" "under_way c1 = under_way c @ take m bs" .
    have "length (drop m bs) < length bs" using s(2) False by simp
    with "1.IH" s(4) obtain c' where c': "send_all (drop m bs) c1 = (0, c')" "flowing c'"
      "under_way c' = under_way c1 @ drop m bs"
      by blast
    have "send_all bs c = send_all (drop m bs) c1"
      using False s(1,2) by (subst send_all.simps) simp
    with c' s(5) show ?thesis by simp
  qed
qed

section \<open>Fields\<close>

text \<open>What a number and a field become on the wire.\<close>

lemma send_int_exact:
  assumes "flowing c"
  shows "\<exists>c'. send_int v c = Some (0, c') \<and> flowing c' \<and> under_way c' = under_way c @ be_bytes 8 v"
  using send_all_exact [OF assms, of "be_bytes 8 v"] by (simp add: send_int_def INT_BYTES_def int_to_bytes_eq)

definition frame :: "u8 list \<Rightarrow> u8 list" where
  "frame bs = be_bytes 8 (of_nat (length bs)) @ bs"

definition num :: "u64 \<Rightarrow> u8 list" where
  "num v = be_bytes 8 v"

lemma send_num_exact:
  assumes "flowing c"
  obtains c' where "send_num v c = Some c'" "flowing c'" "under_way c' = under_way c @ num v"
  using send_int_exact [OF assms, of v] by (auto simp: send_num_def num_def)

lemma send_bytes_exact:
  assumes "flowing c"
  obtains c' where "send_bytes (Some bs) (length bs) c = Some c'" "flowing c'" "under_way c' = under_way c @ frame bs"
proof -
  from send_num_exact [OF assms] obtain c1 where
    1: "send_num (of_nat (length bs)) c = Some c1" "flowing c1" "under_way c1 = under_way c @ num (of_nat (length bs))" .
  from send_all_exact [OF 1(2), of bs] obtain c2 where
    2: "send_all bs c1 = (0, c2)" "flowing c2" "under_way c2 = under_way c1 @ bs" by blast
  show ?thesis
    by (rule that [of c2]) (use 1 2 in \<open>simp_all add: send_bytes_def send_buf_def frame_def num_def\<close>)
qed

lemma read_bytes_exact:
  assumes "flowing c" and "under_way c = bs @ rest" and "unat n = length bs"
  obtains c' where "read_bytes n c = (Some bs, c')" "flowing c'" "under_way c' = rest"
  using read_loop_exact [OF assms(1,2) assms(3) [symmetric], of "[]"] assms(1)
  by (auto simp: read_bytes_def flowing_def)

lemma unat_INT_BYTES: "unat (of_nat INT_BYTES :: u64) = 8"
  by (simp add: INT_BYTES_def)

lemma bytes_to_int_num: "bytes_to_int (num v) = Some v"
  by (simp add: num_def bytes_to_int_eq be_value_bytes take_bit_word_eq_self)

lemma read_num_exact:
  assumes "flowing c" and "under_way c = num v @ rest"
  obtains c' where "read_bytes (of_nat INT_BYTES) c = (Some (num v), c')" "flowing c'" "under_way c' = rest"
  using read_bytes_exact [OF assms, of "of_nat INT_BYTES"] by (auto simp: unat_INT_BYTES num_def)

lemma read_len_exact:
  assumes "flowing c" and "under_way c = num v @ rest"
  obtains c' where "read_len c = Some (v, c')" "flowing c'" "under_way c' = rest"
proof -
  from read_num_exact [OF assms] obtain c' where
    "read_bytes (of_nat INT_BYTES) c = (Some (num v), c')" "flowing c'" "under_way c' = rest" .
  then show ?thesis using that by (simp add: read_len_def bytes_to_int_num)
qed

lemma read_field_exact:
  assumes "flowing c" and "under_way c = frame bs @ rest" and "length bs < 2 ^ 64"
  obtains c' where "read_field c = Some (Some bs, c')" "flowing c'" "under_way c' = rest"
proof -
  have "under_way c = num (of_nat (length bs)) @ bs @ rest" using assms(2) by (simp add: frame_def num_def)
  from read_len_exact [OF assms(1) this] obtain c1 where
    1: "read_len c = Some (of_nat (length bs), c1)" "flowing c1" "under_way c1 = bs @ rest" .
  from read_bytes_exact [OF 1(2,3), of "of_nat (length bs)"] assms(3) obtain c2 where
    "read_bytes (of_nat (length bs)) c1 = (Some bs, c2)" "flowing c2" "under_way c2 = rest" by auto
  then show ?thesis using that 1(1) by (simp add: read_field_def)
qed

text \<open>A field that was read.\<close>

definition read_bytes_field :: "conn \<Rightarrow> (u8 list \<times> conn) option" where
  "read_bytes_field c = (case read_field c of Some (Some bs, c) \<Rightarrow> Some (bs, c) | _ \<Rightarrow> None)"

lemma read_bytes_field_exact:
  assumes "flowing c" and "length bs < 2 ^ 64" and "under_way c = frame bs @ rest"
  obtains c' where "read_bytes_field c = Some (bs, c')" "flowing c'" "under_way c' = rest"
proof -
  from read_field_exact [OF assms(1,3,2)] obtain c' where
    "read_field c = Some (Some bs, c')" "flowing c'" "under_way c' = rest" .
  then show ?thesis using that by (simp add: read_bytes_field_def)
qed

text \<open>
  The contract of one kind of message: what is put arrives, as the bytes \<open>wire\<close>, and is what
  is got, as long as it is \<open>legal\<close>.  Sequences of messages then arrive in order.
\<close>

fun put_all :: "('v \<Rightarrow> conn \<Rightarrow> conn option) \<Rightarrow> 'v list \<Rightarrow> conn \<Rightarrow> conn option" where
  "put_all put [] c = Some c"
| "put_all put (v # vs) c = Option.bind (put v c) (put_all put vs)"

fun get_all :: "(conn \<Rightarrow> ('v \<times> conn) option) \<Rightarrow> nat \<Rightarrow> conn \<Rightarrow> ('v list \<times> conn) option" where
  "get_all get 0 c = Some ([], c)"
| "get_all get (Suc n) c = do { (v, c) \<leftarrow> get c; (vs, c) \<leftarrow> get_all get n c; Some (v # vs, c) }"

locale channel =
  fixes put :: "'v \<Rightarrow> conn \<Rightarrow> conn option"
    and get :: "conn \<Rightarrow> ('v \<times> conn) option"
    and wire :: "'v \<Rightarrow> u8 list"
    and legal :: "'v \<Rightarrow> bool"
  assumes put_wire: "flowing c \<Longrightarrow> \<exists>c'. put v c = Some c' \<and> flowing c' \<and> under_way c' = under_way c @ wire v"
    and get_wire: "flowing c \<Longrightarrow> legal v \<Longrightarrow> under_way c = wire v @ rest \<Longrightarrow>
      \<exists>c'. get c = Some (v, c') \<and> flowing c' \<and> under_way c' = rest"
begin

lemma put_all_wire:
  assumes "flowing c"
  shows "\<exists>c'. put_all put vs c = Some c' \<and> flowing c' \<and> under_way c' = under_way c @ concat (map wire vs)"
  using assms
proof (induction vs arbitrary: c)
  case (Cons v vs)
  from put_wire [OF Cons.prems, of v] obtain c1 where
    "put v c = Some c1" "flowing c1" "under_way c1 = under_way c @ wire v" by blast
  with Cons.IH [of c1] show ?case by simp
qed simp

lemma get_all_wire:
  assumes "flowing c" and "list_all legal vs" and "under_way c = concat (map wire vs) @ rest"
  shows "\<exists>c'. get_all get (length vs) c = Some (vs, c') \<and> flowing c' \<and> under_way c' = rest"
  using assms
proof (induction vs arbitrary: c)
  case (Cons v vs)
  have "legal v" "under_way c = wire v @ concat (map wire vs) @ rest" using Cons.prems(2,3) by simp_all
  from get_wire [OF Cons.prems(1) this] obtain c1 where
    "get c = Some (v, c1)" "flowing c1" "under_way c1 = concat (map wire vs) @ rest" by blast
  with Cons.IH [of c1] Cons.prems(2) show ?case by auto
qed simp

lemma exchange:
  assumes "flowing c" and "under_way c = []" and "list_all legal vs"
  shows "\<exists>c1 c2. put_all put vs c = Some c1 \<and> get_all get (length vs) c1 = Some (vs, c2) \<and> under_way c2 = []"
proof -
  from put_all_wire [OF assms(1), of vs] assms(2) obtain c1 where
    1: "put_all put vs c = Some c1" "flowing c1" "under_way c1 = concat (map wire vs) @ []" by auto
  from get_all_wire [OF 1(2) assms(3) 1(3)] 1(1) show ?thesis by auto
qed

end

text \<open>Numbers, and bytes with their length before them.\<close>

interpretation nums: channel send_num read_len num "\<lambda>_. True"
  by unfold_locales (metis send_num_exact, metis read_len_exact)

interpretation fields: channel "\<lambda>bs. send_bytes (Some bs) (length bs)" read_bytes_field frame "\<lambda>bs. length bs < 2 ^ 64"
  by unfold_locales (metis send_bytes_exact, metis read_bytes_field_exact)

section \<open>Sessions\<close>

text \<open>The ciphertext of a message, and the message in a ciphertext, when both calls succeed.\<close>

definition enciphers :: "openssl \<Rightarrow> u8 list \<Rightarrow> u8 list \<Rightarrow> u8 list \<Rightarrow> u8 list \<Rightarrow> bool" where
  "enciphers ssl k iv m c = (\<exists>u v. enc_update ssl k iv m = (True, u) \<and> enc_final ssl k iv m = (True, v) \<and> c = u @ v)"

definition deciphers :: "openssl \<Rightarrow> u8 list \<Rightarrow> u8 list \<Rightarrow> u8 list \<Rightarrow> u8 list \<Rightarrow> bool" where
  "deciphers ssl k iv c m = (\<exists>u v. dec_update ssl k iv c = (True, u) \<and> dec_final ssl k iv c = (True, v) \<and> m = u @ v)"

text \<open>
  What the code relies on of OpenSSL, as it is documented: AES-CBC pads to whole blocks, with at
  least one byte, decryption with the same key and vector gives the plaintext back, and a MAC has
  32 bytes.  The update of an encryption writes at most one byte less than a block beyond its
  input, that of a decryption at most a block, and a final call at most a block.
\<close>

definition crypto_laws :: "openssl \<Rightarrow> bool" where
  "crypto_laws ssl =
     ((\<forall>k iv m c. enciphers ssl k iv m c \<longrightarrow> length c = 16 * (length m div 16 + 1) \<and> deciphers ssl k iv c m) \<and>
      (\<forall>k iv m. length (snd (enc_update ssl k iv m)) \<le> length m + 15 \<and> length (snd (enc_final ssl k iv m)) \<le> 16) \<and>
      (\<forall>k iv m. length (snd (dec_update ssl k iv m)) \<le> length m + 16 \<and> length (snd (dec_final ssl k iv m)) \<le> 16) \<and>
      (\<forall>k m t. hmac_sha256 ssl k m = Some t \<longrightarrow> length t = 32))"

lemma crypto_lawsD:
  assumes "crypto_laws ssl"
  shows "enciphers ssl k iv m c \<Longrightarrow> length c = 16 * (length m div 16 + 1)"
    "enciphers ssl k iv m c \<Longrightarrow> deciphers ssl k iv c m"
    "length (snd (enc_update ssl k iv m)) \<le> length m + 15" "length (snd (enc_final ssl k iv m)) \<le> 16"
    "hmac_sha256 ssl k m = Some t \<Longrightarrow> length t = 32"
  using assms by (auto simp: crypto_laws_def)

lemma padded_length: "16 * (n div 16 + 1) \<le> n + (16 :: nat)"
  by simp

lemma evp_input_short: "length m < 2 ^ 31 \<Longrightarrow> evp_input m = Some m"
  by (simp add: evp_input_def to_int32_id Let_def)


lemma memcpy_at: "d + length xs \<le> length a \<Longrightarrow> memcpy a d xs = Some (take d a @ xs @ drop (d + length xs) a)"
  by (simp add: memcpy_def)

text \<open>A run of the cipher whose calls succeed.\<close>

lemma cipher_run_exact:
  assumes "update input = (True, u)" and "final input = (True, v)" and "length input < 2 ^ 31"
    and "off + length (u @ v) \<le> length buf"
  shows "cipher_run update final input buf off =
    Some (Some (length (u @ v)), take off buf @ (u @ v) @ drop (off + length (u @ v)) buf)"
  using assms by (simp add: cipher_run_def evp_input_short memcpy_def) (simp add: ac_simps)

text \<open>What \<open>session_encrypt\<close> computes when its calls succeed.\<close>

lemma session_encrypt_token:
  assumes "length iv = 16" and "length plain < 2 ^ 31"
    and "enciphers ssl (take 16 (drop 16 key)) iv plain ct" and "length ct \<le> length plain + 16"
    and "hmac_sha256 ssl (take 16 key) (iv @ ct) = Some mac" and "length mac = 32"
    and "ctx_new ssl" and "\<forall>n. malloc_ok ssl n"
  shows "session_encrypt ssl key plain (Some iv) = Some (Some (iv @ ct @ mac))"
proof -
  let ?n = "16 + (length plain + 16) + 32" and ?k = "take 16 (drop 16 key)"
  let ?out = "iv @ ct @ replicate (?n - 16 - length ct) 0"
  have 1: "memcpy (replicate ?n 0) 0 iv = Some (iv @ replicate (?n - 16) 0)"
    using assms(1) by (simp add: memcpy_def)
  from assms(3) obtain u v where uv: "enc_update ssl ?k iv plain = (True, u)" "enc_final ssl ?k iv plain = (True, v)"
    "ct = u @ v" by (auto simp: enciphers_def)
  have 2: "cipher_run (enc_update ssl ?k iv) (enc_final ssl ?k iv) plain (iv @ replicate (?n - 16) 0) 16 = Some (Some (length ct), ?out)"
    using cipher_run_exact [of "enc_update ssl ?k iv" plain u "enc_final ssl ?k iv" v, OF uv(1,2) assms(2), of 16 "iv @ replicate (?n - 16) 0"] assms(1,4) uv(3) by simp
  have 3: "memcpy ?out (16 + length ct) mac = Some (iv @ ct @ mac @ replicate (?n - 16 - length ct - 32) 0)"
    using assms(1,4,6) by (simp add: memcpy_def)
  show ?thesis
    using assms(1,5-8) 3
    unfolding session_encrypt_def crypto_sizes Let_def option.case 1 bind.bind_lunit 2
    by simp
qed

text \<open>What \<open>session_decrypt\<close> does with a token of the right shape.\<close>

lemma session_decrypt_token:
  assumes "length iv = 16" and "16 \<le> length ct" and "length ct < 2 ^ 31"
    and "hmac_sha256 ssl (take 16 key) (iv @ ct) = Some mac" and "length mac = 32"
    and "deciphers ssl (take 16 (drop 16 key)) iv ct plain" and "length plain \<le> length ct"
    and "ctx_new ssl" and "\<forall>n. malloc_ok ssl n"
  shows "session_decrypt ssl key (iv @ ct @ mac) = Some (Some plain)"
proof -
  let ?k = "take 16 (drop 16 key)"
  have 1: "memcpy (replicate 32 0) 0 mac = Some mac" using assms(5) by (simp add: memcpy_def)
  from assms(6) obtain u v where uv: "dec_update ssl ?k iv ct = (True, u)" "dec_final ssl ?k iv ct = (True, v)"
    "plain = u @ v" by (auto simp: deciphers_def)
  have 2: "cipher_run (dec_update ssl ?k iv) (dec_final ssl ?k iv) ct (replicate (length ct) 0) 0 =
      Some (Some (length plain), plain @ replicate (length ct - length plain) 0)"
    using cipher_run_exact [of "dec_update ssl ?k iv" ct u "dec_final ssl ?k iv" v, OF uv(1,2) assms(3), of 0 "replicate (length ct) 0"] assms(7) uv(3) by simp
  show ?thesis
    using assms(1,2,4,5,8,9) 2
    unfolding session_decrypt_def crypto_sizes Let_def by (simp add: 1)
qed




section \<open>Properties\<close>

text \<open>
  C21.  Numbers and fields arrive as they were sent: whatever pieces the connection accepts and
  delivers, sending a list of fields of bytes and reading as many returns the same list and
  leaves nothing behind; so do numbers.
\<close>

theorem fields_survive_fragmentation:
  assumes "flowing c" and "under_way c = []" and "list_all (\<lambda>bs. length bs < 2 ^ 64) msgs"
  shows "(\<exists>c1 c2. put_all (\<lambda>bs. send_bytes (Some bs) (length bs)) msgs c = Some c1 \<and>
      get_all read_bytes_field (length msgs) c1 = Some (msgs, c2) \<and> under_way c2 = []) \<and>
    (\<exists>c1 c2. put_all send_num vs c = Some c1 \<and> get_all read_len (length vs) c1 = Some (vs, c2) \<and> under_way c2 = [])"
  using fields.exchange [OF assms] nums.exchange [OF assms(1,2), of vs] by (simp add: list_all_iff)

definition trickle :: conn where
  "trickle = \<lparr>under_way = [], recv_s = sconst 1, send_s = sconst 3, alloc_ok = (\<lambda>_. True)\<rparr>"

theorem fields_survive_fragmentation_witness:
  "(\<exists>c1 c2. put_all (\<lambda>bs. send_bytes (Some bs) (length bs)) [[7, 8], []] trickle = Some c1 \<and>
      get_all read_bytes_field (length [[7, 8], [] :: u8 list]) c1 = Some ([[7, 8], []], c2) \<and> under_way c2 = []) \<and>
    (\<exists>c1 c2. put_all send_num [5, 1024] trickle = Some c1 \<and>
      get_all read_len (length [5, 1024 :: u64]) c1 = Some ([5, 1024], c2) \<and> under_way c2 = [])"
  by (rule fields_survive_fragmentation) (simp_all add: flowing_def trickle_def)

text \<open>
  C19.  A session token decrypts to what was encrypted: with the same key, for every message
  at least 17 bytes shorter than two gigabytes (its ciphertext is then below the 32-bit length
  OpenSSL takes), whenever memory can be had and the calls of OpenSSL succeed.
\<close>

theorem session_roundtrip:
  assumes "crypto_laws ssl" and "length iv = AES_IV_LEN" and "length plain + AES_BLOCK < 2 ^ 31"
    and "enciphers ssl (take AES_KEY_LEN (drop HMAC_KEY_LEN key)) iv plain ct"
    and "hmac_sha256 ssl (take HMAC_KEY_LEN key) (iv @ ct) = Some mac"
    and "ctx_new ssl" and "\<forall>n. malloc_ok ssl n"
  shows "\<exists>token. session_encrypt ssl key plain (Some iv) = Some (Some token) \<and>
    session_decrypt ssl key token = Some (Some plain)"
proof -
  have ct: "length ct = 16 * (length plain div 16 + 1)" "deciphers ssl (take 16 (drop 16 key)) iv ct plain"
    "length mac = 32" "length plain \<le> length ct"
    using crypto_lawsD [OF assms(1)] assms(4,5) by (auto simp: crypto_sizes)
  note a = assms(2-5) [unfolded crypto_sizes]
  have b: "16 \<le> length ct" "length ct \<le> length plain + 16" using ct(1) padded_length by simp_all
  have "session_encrypt ssl key plain (Some iv) = Some (Some (iv @ ct @ mac))"
    by (rule session_encrypt_token [OF a(1) _ a(3) b(2) a(4) ct(3) assms(6,7)]) (use a(2) in simp)
  moreover have "session_decrypt ssl key (iv @ ct @ mac) = Some (Some plain)"
    by (rule session_decrypt_token [OF a(1) b(1) _ a(4) ct(3,2,4) assms(6,7)]) (use a(2) b(2) in simp)
  ultimately show ?thesis by blast
qed

text \<open>A library that keeps the laws: it pads without hiding anything.\<close>

definition pad :: "u8 list \<Rightarrow> u8 list" where
  "pad m = m @ replicate (16 - length m mod 16) (of_nat (16 - length m mod 16))"

definition unpad :: "u8 list \<Rightarrow> u8 list option" where
  "unpad c = (if c = [] \<or> length c < unat (last c) then None else Some (take (length c - unat (last c)) c))"

definition clear_ssl :: openssl where
  "clear_ssl = \<lparr>ctx_new = True, malloc_ok = (\<lambda>_. True), 
     enc_update = (\<lambda>k iv m. (True, take (16 * (length m div 16)) (pad m))),
     enc_final = (\<lambda>k iv m. (True, drop (16 * (length m div 16)) (pad m))),
     dec_update = (\<lambda>k iv c. case unpad c of Some m \<Rightarrow> (True, m) | None \<Rightarrow> (False, [])), dec_final = (\<lambda>k iv c. (True, [])),
     hmac_sha256 = (\<lambda>k m. Some (replicate 32 (fold (+) (k @ m) 0)))\<rparr>"

lemma pad_length: "length (pad m) = 16 * (length m div 16 + 1)"
proof -
  have "length m = 16 * (length m div 16) + length m mod 16" "length m mod 16 < 16" by simp_all
  moreover have "n + (16 - r) = 16 * (q + 1)" if "n = 16 * q + r" and "r < 16" for n q r :: nat
    using that by simp
  ultimately have "length m + (16 - length m mod 16) = 16 * (length m div 16 + 1)" by blast
  then show ?thesis by (simp add: pad_def)
qed

lemma u8_of_small: "k \<le> 16 \<Longrightarrow> unat (of_nat k :: u8) = k"
  by (simp add: unat_of_nat)

lemma unpad_pad: "unpad (pad m) = Some m"
proof -
  define k where "k = 16 - length m mod 16"
  have k: "0 < k" "k \<le> 16" by (simp_all add: k_def)
  have pad: "pad m = m @ replicate k (of_nat k)" by (simp add: pad_def k_def)
  have "last (pad m) = of_nat k" using k(1) by (simp add: pad last_append last_replicate)
  then show ?thesis using k u8_of_small [OF k(2)] by (simp add: unpad_def pad)
qed

lemma unpad_length: "unpad c = Some m \<Longrightarrow> length m \<le> length c"
  by (auto simp: unpad_def split: if_splits)

lemma clear_enciphers: "enciphers clear_ssl k iv m c \<longleftrightarrow> c = pad m"
  by (simp add: enciphers_def clear_ssl_def)

lemma clear_ssl_laws: "crypto_laws clear_ssl"
proof -
  have "deciphers clear_ssl k iv (pad m) m" for k iv m by (simp add: deciphers_def clear_ssl_def unpad_pad)
  moreover have "length (snd (enc_update clear_ssl k iv m)) \<le> length m + 15" "length (snd (enc_final clear_ssl k iv m)) \<le> 16" for k iv m
    by (simp_all add: clear_ssl_def pad_length)
  moreover have "length (snd (dec_update clear_ssl k iv c)) \<le> length c + 16" "length (snd (dec_final clear_ssl k iv c)) \<le> 16" for k iv c
    by (auto simp: clear_ssl_def dest!: unpad_length split: option.split)
  ultimately show ?thesis by (simp add: crypto_laws_def clear_enciphers pad_length) (simp add: clear_ssl_def)
qed

text \<open>A token of that library: vector, padded message, MAC.\<close>

definition clear_token :: "u8 list" where
  "clear_token = (let body = replicate 16 9 @ pad [1, 2, 3] in body @ replicate 32 (fold (+) (replicate 16 7 @ body) 0))"

lemma clear_token_accepted: "session_decrypt clear_ssl (replicate 32 7) clear_token = Some (Some [1, 2, 3])"
  unfolding clear_token_def Let_def append_assoc
  by (rule session_decrypt_token) (simp_all add: deciphers_def clear_ssl_def pad_length unpad_pad)

theorem session_roundtrip_witness:
  "\<exists>token. session_encrypt clear_ssl (replicate 32 7) [1, 2, 3] (Some (replicate 16 9)) = Some (Some token) \<and>
    session_decrypt clear_ssl (replicate 32 7) token = Some (Some [1, 2, 3])"
  by (rule session_roundtrip [OF clear_ssl_laws, where ct = "pad [1, 2, 3]" and
        mac = "replicate 32 (fold (+) (take HMAC_KEY_LEN (replicate 32 7) @ replicate 16 9 @ pad [1, 2, 3]) 0)"])
     (simp_all add: clear_enciphers, simp_all add: clear_ssl_def crypto_sizes)

text \<open>
  C35.  Only authentic tokens are decrypted: a token is accepted only if its last 32 bytes
  are the MAC, under the session's key, of everything before them.
\<close>

theorem decrypt_checks_mac:
  assumes "crypto_laws ssl" and "session_decrypt ssl key token = Some (Some plain)"
  shows "hmac_sha256 ssl (take HMAC_KEY_LEN key) (take (length token - HMAC_LEN) token) = Some (drop (length token - HMAC_LEN) token)"
proof -
  have len: "64 \<le> length token" using assms(2) by (auto simp: session_decrypt_def crypto_sizes Let_def split: if_splits)
  then have n: "16 + (length token - 16 - 32) = length token - 32" by simp
  from assms(2) len obtain mac where
    mac: "hmac_sha256 ssl (take 16 key) (take (length token - 32) token) = Some mac"
    by (auto simp: session_decrypt_def crypto_sizes Let_def n split: option.splits)
  then have "length mac = 32" using crypto_lawsD(5) [OF assms(1)] by blast
  then have "memcpy (replicate 32 0) 0 mac = Some mac" by (simp add: memcpy_def)
  then have "mac = drop (length token - 32) token"
    using assms(2) len mac by (auto simp: session_decrypt_def crypto_sizes Let_def n split: if_splits)
  then show ?thesis using mac by (simp add: crypto_sizes)
qed

theorem decrypt_checks_mac_witness:
  "hmac_sha256 clear_ssl (take HMAC_KEY_LEN (replicate 32 7)) (take (length clear_token - HMAC_LEN) clear_token) =
     Some (drop (length clear_token - HMAC_LEN) clear_token)"
  by (rule decrypt_checks_mac [OF clear_ssl_laws clear_token_accepted])



text \<open>
  Decryption allocates a block less than the room OpenSSL asks for: a library that uses all of
  it, on a token whose padding is wrong, writes past the buffer.
\<close>

definition eager_ssl :: openssl where
  "eager_ssl = clear_ssl\<lparr>dec_update := (\<lambda>k iv c. case unpad c of Some m \<Rightarrow> (True, m) | None \<Rightarrow> (False, c @ replicate 16 0))\<rparr>"

lemma eager_ssl_laws: "crypto_laws eager_ssl"
proof -
  have "enciphers eager_ssl k iv m c = (c = pad m)" for k iv m c
    using clear_enciphers [of k iv m c] by (simp add: enciphers_def eager_ssl_def)
  moreover have "deciphers eager_ssl k iv (pad m) m" for k iv m
    by (simp add: deciphers_def eager_ssl_def clear_ssl_def unpad_pad)
  moreover have "length (snd (dec_update eager_ssl k iv c)) \<le> length c + 16" for k iv c
    by (auto simp: eager_ssl_def dest!: unpad_length split: option.split)
  moreover have "enc_update eager_ssl = enc_update clear_ssl" "enc_final eager_ssl = enc_final clear_ssl"
    "dec_final eager_ssl = dec_final clear_ssl" "hmac_sha256 eager_ssl = hmac_sha256 clear_ssl"
    by (simp_all add: eager_ssl_def)
  ultimately show ?thesis using clear_ssl_laws by (simp add: crypto_laws_def pad_length)
qed

theorem session_decrypt_buffer_short: "\<exists>ssl token. crypto_laws ssl \<and> session_decrypt ssl key token = None"
proof -
  let ?body = "replicate 16 9 @ replicate 16 255 :: u8 list"
  obtain mac where mac: "hmac_sha256 eager_ssl (take 16 key) ?body = Some mac" "length mac = 32"
    by (simp add: eager_ssl_def clear_ssl_def)
  have c: "memcpy (replicate 32 0) 0 mac = Some mac" using mac(2) by (simp add: memcpy_def)
  have u: "dec_update eager_ssl k iv (replicate 16 255) = (False, replicate 16 255 @ replicate 16 0)" for k iv
    by (simp add: eager_ssl_def unpad_def)
  have "evp_input (replicate 16 255) = Some (replicate 16 255)" by (rule evp_input_short) simp
  then have "cipher_run (dec_update eager_ssl k iv) f (replicate 16 255) (replicate 16 0) 0 = None" for k iv f
    by (simp add: cipher_run_def u memcpy_def)
  then have "session_decrypt eager_ssl key (?body @ mac) = None"
    using mac c unfolding session_decrypt_def crypto_sizes Let_def by (simp add: eager_ssl_def clear_ssl_def)
  then show ?thesis using eager_ssl_laws by blast
qed

end
