(* ===== verification/Transfer_Laws.thy ===== *)
theory Transfer_Laws
  imports File_Transfer Wire_Laws
begin

text \<open>
  The file transfer from end to end: what the client sends is what the server reads, whatever
  pieces the connection makes of it; the server's answer passes the client's checks; every file
  sent arrives with its contents, and nothing is written outside the directory of received
  files.  Files split into encrypted blocks are joined again.
\<close>

section \<open>Fields of a message\<close>

lemma octet_char: "char_of (unat (of_char ch :: u8)) = ch"
proof -
  have "(of_char ch :: u8) = of_nat (of_char ch)" by (simp only: of_nat_of_char)
  moreover have "(of_char ch :: nat) < 256" by simp
  ultimately have "unat (of_char ch :: u8) = of_char ch" by (simp add: unat_of_nat)
  then show ?thesis by simp
qed

lemma chars_octets [simp]: "chars (octets s) = s"
  by (simp add: chars_def octets_def octet_char comp_def)

lemma octets_length [simp]: "length (octets s) = length s"
  by (simp add: octets_def)

lemma answer_field_exact:
  assumes "flowing (cl_in c)" and "under_way (cl_in c) = frame bs @ rest" and "length bs < 2 ^ 64"
  obtains i where "answer_field c = Some (Some bs, of_nat (length bs), c\<lparr>cl_in := i\<rparr>)" "flowing i" "under_way i = rest"
proof -
  have "under_way (cl_in c) = num (of_nat (length bs)) @ bs @ rest" using assms(2) by (simp add: frame_def num_def)
  from read_num_exact [OF assms(1) this] obtain c1 where
    1: "read_bytes (of_nat INT_BYTES) (cl_in c) = (Some (num (of_nat (length bs))), c1)" "flowing c1" "under_way c1 = bs @ rest" .
  from read_bytes_exact [OF 1(2,3), of "of_nat (length bs)"] assms(3) obtain c2 where
    "read_bytes (of_nat (length bs)) c1 = (Some bs, c2)" "flowing c2" "under_way c2 = rest" by auto
  then show ?thesis using that 1(1) by (simp add: answer_field_def bytes_to_int_num)
qed

section \<open>What the programs rely on\<close>

text \<open>
  A pair of RSA keys of 1024 bits: blocks short enough for the padding encrypt to 128 bytes,
  whatever randomness is used, and decrypt to what they were.
\<close>

definition rsa_pair :: "evp \<Rightarrow> bool \<Rightarrow> pkey \<Rightarrow> pkey \<Rightarrow> bool" where
  "rsa_pair S oaep pub priv =
     (pkey_ctx S pub \<and> pkey_ctx S priv \<and> rsa_setup S pub oaep \<and> rsa_setup S priv oaep \<and>
      (\<forall>seed m. length m \<le> (if oaep then 62 else 117) \<longrightarrow>
         (\<exists>c. rsa_enc S seed pub oaep m = Some c \<and> length c = 128 \<and> rsa_enc_size S pub oaep m = Some 128 \<and>
           rsa_dec S priv oaep c = Some m \<and> rsa_dec_size S priv oaep c = Some 128)))"

text \<open>The private key signs for the public key.\<close>

definition signing_pair :: "evp \<Rightarrow> pkey \<Rightarrow> pkey \<Rightarrow> bool" where
  "signing_pair S pub priv =
     (md_ctx S \<and> sign_setup S priv \<and> verify_setup S pub \<and> sign_size S priv = Some 128 \<and>
      (\<forall>r m. \<exists>sig. sign_final S r priv m = Some sig \<and> length sig = 128 \<and> verify_final S pub sig m))"

text \<open>Memory can be had, no call fails, and printing does no harm.\<close>

definition healthy :: "setting \<Rightarrow> bool" where
  "healthy e =
     (let A = sym (ssl e) in crypto_laws A \<and> ctx_new A \<and> (\<forall>n. malloc_ok A n) \<and>
        (\<forall>k iv m. \<exists>c. enciphers A k iv m c) \<and> (\<forall>k m. hmac_sha256 A k m \<noteq> None) \<and> (\<forall>b. prints e b))"

lemma rsa_block_roundtrip:
  assumes "rsa_pair S oaep pub priv" and "\<forall>n. malloc_ok (sym S) n" and "length m \<le> (if oaep then 62 else 117)"
  obtains c where "rsa_encrypt_block S seed pub m oaep = Some (Some c, 128)" "length c = 128"
    "rsa_decrypt_block S priv c oaep = Some (Some m, length m)"
proof -
  from assms(1,3) obtain c where c: "rsa_enc S seed pub oaep m = Some c" "length c = 128" "rsa_enc_size S pub oaep m = Some 128"
      "rsa_dec S priv oaep c = Some m" "rsa_dec_size S priv oaep c = Some 128"
    unfolding rsa_pair_def by meson
  have "length m \<le> 128" using assms(3) by (simp split: if_splits)
  then show ?thesis
    using that [of c] c assms(1,2)
    by (simp add: rsa_encrypt_block_def rsa_decrypt_block_def fill_def memcpy_def rsa_pair_def)
qed

lemma sign_verifies:
  assumes "signing_pair S pub priv" and "\<forall>n. malloc_ok (sym S) n" and "x509_get_pubkey S cert = Some pub"
  obtains sig where "sign_message_pss S r priv m = Some (Some sig, 128)" "length sig = 128" "verify_message_pss S cert sig m"
proof -
  from assms(1) obtain sig where s: "sign_final S r priv m = Some sig" "length sig = 128" "verify_final S pub sig m"
    unfolding signing_pair_def by meson
  then show ?thesis
    using that [of sig] assms by (simp add: sign_message_pss_def verify_message_pss_def fill_def memcpy_def signing_pair_def)
qed

text \<open>A session token for every message of less than two gigabytes.\<close>

lemma session_token:
  assumes "healthy e" and "length iv = 16" and "length plain + 16 < 2 ^ 31"
  obtains token where "session_encrypt (sym (ssl e)) key plain (Some iv) = Some (Some token)"
    "session_decrypt (sym (ssl e)) key token = Some (Some plain)" "length token < 2 ^ 31 + 48"
proof -
  let ?O = "sym (ssl e)"
  from assms(1) have h: "crypto_laws ?O" "ctx_new ?O" "\<forall>n. malloc_ok ?O n"
    "\<And>k iv m. \<exists>c. enciphers ?O k iv m c" "\<And>k m. hmac_sha256 ?O k m \<noteq> None"
    by (simp_all add: healthy_def Let_def)
  obtain ct where ct: "enciphers ?O (take 16 (drop 16 key)) iv plain ct" using h(4) by blast
  obtain mac where mac: "hmac_sha256 ?O (take 16 key) (iv @ ct) = Some mac" using h(5) by blast
  have l: "length ct = 16 * (length plain div 16 + 1)" "deciphers ?O (take 16 (drop 16 key)) iv ct plain"
    "length mac = 32" "length plain \<le> length ct"
    using crypto_lawsD [OF h(1)] ct mac by auto
  have b: "16 \<le> length ct" "length ct \<le> length plain + 16" using l(1) padded_length by simp_all
  show ?thesis
  proof (rule that)
    show "session_encrypt ?O key plain (Some iv) = Some (Some (iv @ ct @ mac))"
      by (rule session_encrypt_token [OF assms(2) _ ct b(2) mac l(3) h(2,3)]) (use assms(3) in simp)
    show "session_decrypt ?O key (iv @ ct @ mac) = Some (Some plain)"
      by (rule session_decrypt_token [OF assms(2) b(1) _ mac l(3,2,4) h(2,3)]) (use assms(3) b(2) in simp)
    show "length (iv @ ct @ mac) < 2 ^ 31 + 48" using assms(2,3) l(3) b(2) by simp
  qed
qed

section \<open>The server reads one message\<close>

lemma server_filename:
  assumes "flowing (srv_in s)" and "under_way (srv_in s) = num MSG_FILENAME @ frame (octets name) @ rest"
    and "length name \<le> FILENAME_MAX"
  obtains c where "flowing c" "under_way c = rest"
    "server_message e s =
       Some (True, s\<lparr>srv_filename := name @ replicate (FILENAME_MAX - length name) NUL, srv_in := c\<rparr>)"
proof -
  from read_num_exact [OF assms(1,2)] obtain c1 where
    1: "read_bytes (of_nat INT_BYTES) (srv_in s) = (Some (num MSG_FILENAME), c1)" "flowing c1"
      "under_way c1 = frame (octets name) @ rest" .
  from read_field_exact [OF 1(2,3)] assms(3) obtain c2 where
    2: "read_field c1 = Some (Some (octets name), c2)" "flowing c2" "under_way c2 = rest"
    by (auto simp: FILENAME_MAX_def)
  show ?thesis
    by (rule that [OF 2(2,3)])
       (use 1(1) 2(1) assms(3) in \<open>simp add: server_message_def bytes_to_int_num receive_filename_def memcpy_def\<close>)
qed

text \<open>The path a file is stored at.\<close>

definition received_as :: "string \<Rightarrow> string" where
  "received_as name =
     take (FILENAME_MAX - 1) (''recv_files/recv_'' @
       (case strrchr_split (CHR ''/'') name of Some (_, base) \<Rightarrow> base | None \<Rightarrow> name))"

lemma cstr_padded: "NUL \<notin> set name \<Longrightarrow> 0 < k \<Longrightarrow> cstr (name @ replicate k NUL) = name"
  by (cases k) (simp_all add: cstr_def until_exact(1))

lemma store_file_path:
  assumes "srv_filename s = name @ replicate k NUL" and "NUL \<notin> set name" and "0 < k" and "\<forall>p. srv_creates s p"
  shows "store_file data s = Some (s\<lparr>srv_files := (srv_files s)(received_as name \<mapsto> data)\<rparr>)"
  using assms cstr_padded [OF assms(2,3)] by (simp add: store_file_def base_name_def received_as_def split: option.split)

lemma server_file_data:
  assumes "flowing (srv_in s)" and "under_way (srv_in s) = num MSG_FILE_DATA @ frame token @ rest"
    and "length token < 2 ^ 64" and "session_key_flag s" and "prints e token"
    and "load_private_key (ssl e) (srv_files s) ''auth/private_key.pem'' = Some priv"
    and "session_decrypt (sym (ssl e)) (session_key s) token = Some (Some data)"
    and "srv_filename s = name @ replicate k NUL" and "NUL \<notin> set name" and "0 < k" and "\<forall>p. srv_creates s p"
  obtains c where "flowing c" "under_way c = rest"
    "server_message e s = Some (True, s\<lparr>srv_files := (srv_files s)(received_as name \<mapsto> data), srv_in := c\<rparr>)"
proof -
  from read_num_exact [OF assms(1,2)] obtain c1 where
    1: "read_bytes (of_nat INT_BYTES) (srv_in s) = (Some (num MSG_FILE_DATA), c1)" "flowing c1"
      "under_way c1 = frame token @ rest" .
  from read_field_exact [OF 1(2,3) assms(3)] obtain c2 where
    2: "read_field c1 = Some (Some token, c2)" "flowing c2" "under_way c2 = rest" .
  have "store_file data (s\<lparr>srv_in := c2\<rparr>) = Some (s\<lparr>srv_files := (srv_files s)(received_as name \<mapsto> data), srv_in := c2\<rparr>)"
    using store_file_path [of "s\<lparr>srv_in := c2\<rparr>" name k data] assms(8-11) by simp
  then have "server_message e s = Some (True, s\<lparr>srv_files := (srv_files s)(received_as name \<mapsto> data), srv_in := c2\<rparr>)"
    using 1(1) 2(1) assms(4-7)
    by (simp add: server_message_def bytes_to_int_num receive_file_data_def MSG_FILE_DATA_def MSG_FILENAME_def)
  then show ?thesis using that 2(2,3) by blast
qed

lemma server_close:
  assumes "flowing (srv_in s)" and "under_way (srv_in s) = num MSG_CLOSE @ rest"
  obtains c where "flowing c" "under_way c = rest" "server_message e s = Some (False, s\<lparr>srv_in := c\<rparr>)"
proof -
  from read_num_exact [OF assms] obtain c1 where
    "read_bytes (of_nat INT_BYTES) (srv_in s) = (Some (num MSG_CLOSE), c1)" "flowing c1" "under_way c1 = rest" .
  then show ?thesis
    using that by (simp add: server_message_def bytes_to_int_num MSG_FILE_DATA_def MSG_FILENAME_def MSG_CLOSE_def)
qed

lemma server_symkey:
  assumes "flowing (srv_in s)" and "under_way (srv_in s) = num MSG_SYMKEY @ frame enc_key @ rest"
    and "length enc_key < 2 ^ 64" and "length key = SESSION_KEY_LEN" and "length (session_key s) = SESSION_KEY_LEN"
    and "load_private_key (ssl e) (srv_files s) ''auth/private_key.pem'' = Some priv"
    and "rsa_decrypt_block (ssl e) priv enc_key (use_oaep e) = Some (Some key, length key)"
  obtains c where "flowing c" "under_way c = rest"
    "server_message e s = Some (True, s\<lparr>session_key := key, session_key_flag := True, srv_in := c\<rparr>)"
proof -
  from read_num_exact [OF assms(1,2)] obtain c1 where
    1: "read_bytes (of_nat INT_BYTES) (srv_in s) = (Some (num MSG_SYMKEY), c1)" "flowing c1"
      "under_way c1 = frame enc_key @ rest" .
  from read_field_exact [OF 1(2,3) assms(3)] obtain c2 where
    2: "read_field c1 = Some (Some enc_key, c2)" "flowing c2" "under_way c2 = rest" .
  have "server_message e s = Some (True, s\<lparr>session_key := key, session_key_flag := True, srv_in := c2\<rparr>)"
    using 1(1) 2(1) assms(4-7)
    by (simp add: server_message_def bytes_to_int_num receive_symkey_def memcpy_def
        MSG_FILE_DATA_def MSG_FILENAME_def MSG_CLOSE_def MSG_AUTH_def MSG_SYMKEY_def)
  then show ?thesis using that 2(2,3) by blast
qed

lemma server_auth:
  assumes "flowing (srv_in s)" and "under_way (srv_in s) = num MSG_AUTH @ frame challenge @ rest"
    and "length challenge < 2 ^ 64" and "flowing (srv_out s)" and "\<forall>n. malloc_ok (sym (ssl e)) n"
    and "load_private_key (ssl e) (srv_files s) ''auth/private_key.pem'' = Some priv"
    and "sign_message_pss (ssl e) (salt e) priv challenge = Some (Some sig, length sig)"
    and "srv_files s ''auth/server_signed.crt'' = Some cert"
  obtains c out where "flowing c" "under_way c = rest" "flowing out"
    "under_way out = under_way (srv_out s) @ frame sig @ frame cert"
    "server_message e s = Some (True, s\<lparr>srv_in := c, srv_out := out\<rparr>)"
proof -
  from read_num_exact [OF assms(1,2)] obtain c1 where
    1: "read_bytes (of_nat INT_BYTES) (srv_in s) = (Some (num MSG_AUTH), c1)" "flowing c1"
      "under_way c1 = frame challenge @ rest" .
  from read_field_exact [OF 1(2,3) assms(3)] obtain c2 where
    2: "read_field c1 = Some (Some challenge, c2)" "flowing c2" "under_way c2 = rest" .
  from send_bytes_exact [OF assms(4)] obtain o1 where
    3: "send_bytes (Some sig) (length sig) (srv_out s) = Some o1" "flowing o1"
      "under_way o1 = under_way (srv_out s) @ frame sig" .
  from send_bytes_exact [OF 3(2)] obtain o2 where
    4: "send_bytes (Some cert) (length cert) o1 = Some o2" "flowing o2" "under_way o2 = under_way o1 @ frame cert" .
  have "server_message e s = Some (True, s\<lparr>srv_in := c2, srv_out := o2\<rparr>)"
    using 1(1) 2(1) 3(1) 4(1) assms(5-8)
    by (simp add: server_message_def bytes_to_int_num receive_auth_def
        MSG_FILE_DATA_def MSG_FILENAME_def MSG_CLOSE_def MSG_AUTH_def MSG_SYMKEY_def)
  then show ?thesis using that 2(2,3) 3(3) 4(2,3) by simp
qed

section \<open>The client sends files\<close>

text \<open>A name that can be typed and the file it names.\<close>

definition sendable :: "client \<Rightarrow> string \<Rightarrow> bool" where
  "sendable c name =
     (NL \<notin> set name \<and> NUL \<notin> set name \<and> length name < FILENAME_MAX - 1 \<and> name \<noteq> ''-1'' \<and> cl_opens c name \<and>
      (case cl_files c name of None \<Rightarrow> False | Some data \<Rightarrow> length data + 16 < 2 ^ 31))"

lemma sendableD:
  assumes "sendable c name"
  obtains data where "NL \<notin> set name" "NUL \<notin> set name" "length name < 4095" "name \<noteq> ''-1''" "cl_opens c name"
    "cl_files c name = Some data" "length data + 16 < 2 ^ 31"
  using assms by (auto simp: sendable_def FILENAME_MAX_def split: option.split_asm)

lemma sendable_cong [simp]: "sendable (c\<lparr>cl_out := x\<rparr>) = sendable c" "sendable (c\<lparr>cl_stdin := y\<rparr>) = sendable c"
  "sendable (c\<lparr>cl_in := z\<rparr>) = sendable c"
  by (simp_all add: sendable_def fun_eq_iff)

text \<open>The bytes a file becomes on the wire.\<close>

definition token_of :: "setting \<Rightarrow> draws \<Rightarrow> u8 list \<Rightarrow> nat \<Rightarrow> u8 list \<Rightarrow> u8 list" where
  "token_of e d key i data = the (the (session_encrypt (sym (ssl e)) key data (iv_bytes d i)))"

definition file_bytes :: "setting \<Rightarrow> draws \<Rightarrow> u8 list \<Rightarrow> nat \<Rightarrow> file_system \<Rightarrow> string \<Rightarrow> u8 list" where
  "file_bytes e d key i fs name =
     num MSG_FILENAME @ frame (octets name) @ num MSG_FILE_DATA @ frame (token_of e d key i (the (fs name)))"

fun all_bytes :: "setting \<Rightarrow> draws \<Rightarrow> u8 list \<Rightarrow> nat \<Rightarrow> file_system \<Rightarrow> string list \<Rightarrow> u8 list" where
  "all_bytes e d key i fs [] = []"
| "all_bytes e d key i fs (n # ns) = file_bytes e d key i fs n @ all_bytes e d key (Suc i) fs ns"

definition good_ivs :: "draws \<Rightarrow> bool" where
  "good_ivs d = (\<forall>i. \<exists>iv. iv_bytes d i = Some iv \<and> length iv = AES_IV_LEN)"

lemma token_of_roundtrip:
  assumes "healthy e" and "good_ivs d" and "length data + 16 < 2 ^ 31"
  shows "session_encrypt (sym (ssl e)) key data (iv_bytes d i) = Some (Some (token_of e d key i data))"
    "session_decrypt (sym (ssl e)) key (token_of e d key i data) = Some (Some data)"
    "length (token_of e d key i data) < 2 ^ 64"
proof -
  from assms(2) obtain iv where iv: "iv_bytes d i = Some iv" "length iv = 16" by (auto simp: good_ivs_def crypto_sizes)
  from session_token [OF assms(1) iv(2) assms(3), of key] obtain token where
    "session_encrypt (sym (ssl e)) key data (Some iv) = Some (Some token)"
    "session_decrypt (sym (ssl e)) key token = Some (Some data)" "length token < 2 ^ 31 + 48" .
  with iv(1) show "session_encrypt (sym (ssl e)) key data (iv_bytes d i) = Some (Some (token_of e d key i data))"
    "session_decrypt (sym (ssl e)) key (token_of e d key i data) = Some (Some data)"
    "length (token_of e d key i data) < 2 ^ 64"
    by (simp_all add: token_of_def)
qed

lemma send_file_exact:
  assumes "healthy e" and "good_ivs d" and "sendable c name" and "flowing (cl_out c)"
  obtains out where "send_file e d key i name c = Some (c\<lparr>cl_out := out\<rparr>)" "flowing out"
    "under_way out = under_way (cl_out c) @ file_bytes e d key i (cl_files c) name"
proof -
  from sendableD [OF assms(3)] obtain data where f: "cl_opens c name" "cl_files c name = Some data" "length data + 16 < 2 ^ 31" .
  let ?t = "token_of e d key i data"
  note t = token_of_roundtrip [OF assms(1,2) f(3), of key i]
  from send_num_exact [OF assms(4)] obtain o1 where
    1: "send_num MSG_FILENAME (cl_out c) = Some o1" "flowing o1" "under_way o1 = under_way (cl_out c) @ num MSG_FILENAME" .
  from send_bytes_exact [OF 1(2), of "octets name"] obtain o2 where
    2: "send_bytes (Some (octets name)) (length name) o1 = Some o2" "flowing o2" "under_way o2 = under_way o1 @ frame (octets name)"
    by auto
  from send_num_exact [OF 2(2)] obtain o3 where
    3: "send_num MSG_FILE_DATA o2 = Some o3" "flowing o3" "under_way o3 = under_way o2 @ num MSG_FILE_DATA" .
  from send_bytes_exact [OF 3(2), of ?t] obtain o4 where
    4: "send_bytes (Some ?t) (length ?t) o3 = Some o4" "flowing o4" "under_way o4 = under_way o3 @ frame ?t" .
  have "malloc_ok (sym (ssl e)) (length data)" using assms(1) by (simp add: healthy_def Let_def)
  then have "send_file e d key i name c = Some (c\<lparr>cl_out := o4\<rparr>)"
    using 1(1) 2(1) 3(1) 4(1) f(1,2) t(1) by (simp add: send_file_def)
  moreover have "under_way o4 = under_way (cl_out c) @ file_bytes e d key i (cl_files c) name"
    using 1(3) 2(3) 3(3) 4(3) f(2) by (simp add: file_bytes_def)
  ultimately show ?thesis using that 4(2) by blast
qed

text \<open>Typed names, one on a line, and the line that ends the session.\<close>

definition typed :: "string list \<Rightarrow> string" where
  "typed names = concat (map (\<lambda>n. n @ [NL]) (names @ [''-1'']))"

lemma ask_name_line:
  assumes "NL \<notin> set n" and "NUL \<notin> set n" and "length n < 4095" and "n = ''-1'' \<or> fs n \<noteq> None"
  shows "ask_name fs (n @ NL # rest) = (Some n, rest)"
proof -
  have "fgets 4095 (n @ NL # rest) = (n @ [NL], rest)" by (rule fgets_exact [OF assms(1,3)])
  moreover have "typed_name (n @ [NL]) = n" using assms(1,2) until_exact(1) [of NL n "[]"] by (simp add: typed_name_def)
  ultimately show ?thesis using assms(4) by (auto simp: ask_name.simps [of fs "n @ NL # rest"] FILENAME_MAX_def)
qed

lemma client_loop_exact:
  assumes "healthy e" and "good_ivs d" and "list_all (sendable c) names" and "flowing (cl_out c)"
    and "cl_stdin c = typed names"
  shows "\<exists>c'. client_loop e d key i c = Some c' \<and> flowing (cl_out c') \<and>
    under_way (cl_out c') = under_way (cl_out c) @ all_bytes e d key i (cl_files c) names @ num MSG_CLOSE"
  using assms(3-5)
proof (induction names arbitrary: i c)
  case Nil
  have "ask_name (cl_files c) (cl_stdin c) = (Some ''-1'', [])"
    using ask_name_line [of "''-1''" "cl_files c" "[]"] Nil.prems(3) by (simp add: typed_def)
  moreover from send_num_exact [OF Nil.prems(2)] obtain out where
    "send_num MSG_CLOSE (cl_out c) = Some out" "flowing out" "under_way out = under_way (cl_out c) @ num MSG_CLOSE" .
  ultimately show ?case by (simp add: client_loop.simps [of e d key i c])
next
  case (Cons n ns)
  let ?c = "c\<lparr>cl_stdin := typed ns\<rparr>"
  have n: "sendable c n" using Cons.prems(1) by simp
  then have "ask_name (cl_files c) (cl_stdin c) = (Some n, typed ns)"
    using ask_name_line [of n "cl_files c" "typed ns"] Cons.prems(3) by (auto simp: typed_def elim!: sendableD)
  moreover have "n \<noteq> ''-1''" using n by (simp add: sendable_def)
  moreover have "sendable ?c n" "flowing (cl_out ?c)" using n Cons.prems(2) by simp_all
  from send_file_exact [OF assms(1,2) this, of key i] obtain out where
    out: "send_file e d key i n ?c = Some (?c\<lparr>cl_out := out\<rparr>)" "flowing out"
      "under_way out = under_way (cl_out c) @ file_bytes e d key i (cl_files c) n" by auto
  moreover have "list_all (sendable (?c\<lparr>cl_out := out\<rparr>)) ns" using Cons.prems(1) by simp
  from Cons.IH [OF this, of "Suc i"] out(2) obtain c' where
    "client_loop e d key (Suc i) (?c\<lparr>cl_out := out\<rparr>) = Some c'" "flowing (cl_out c')"
    "under_way (cl_out c') = under_way out @ all_bytes e d key (Suc i) (cl_files c) ns @ num MSG_CLOSE"
    by auto
  ultimately show ?case by (simp add: client_loop.simps [of e d key i c])
qed

section \<open>The server stores files\<close>

definition ready :: "setting \<Rightarrow> u8 list \<Rightarrow> pkey \<Rightarrow> server \<Rightarrow> bool" where
  "ready e key priv s =
     (flowing (srv_in s) \<and> session_key_flag s \<and> session_key s = key \<and> (\<forall>p. srv_creates s p) \<and>
      load_private_key (ssl e) (srv_files s) ''auth/private_key.pem'' = Some priv)"

lemma received_as_prefix: "\<exists>t. received_as name = CHR ''r'' # t"
  by (simp add: received_as_def FILENAME_MAX_def)

lemma load_after_store [simp]:
  "load_private_key S (fs(received_as name \<mapsto> data)) ''auth/private_key.pem'' = load_private_key S fs ''auth/private_key.pem''"
  using received_as_prefix [of name] by (auto simp: load_private_key_def)

lemma server_file:
  assumes "healthy e" and "good_ivs d" and "sendable c name" and "ready e key priv s"
    and "under_way (srv_in s) = file_bytes e d key i (cl_files c) name @ rest"
  obtains s' where "server_loop e s = server_loop e s'" "ready e key priv s'" "under_way (srv_in s') = rest"
    "srv_files s' = (srv_files s)(received_as name \<mapsto> the (cl_files c name))" "srv_out s' = srv_out s"
proof -
  from sendableD [OF assms(3)] obtain data where
    n: "NUL \<notin> set name" "length name < 4095" "cl_files c name = Some data" "length data + 16 < 2 ^ 31" .
  let ?t = "token_of e d key i data"
  note t = token_of_roundtrip [OF assms(1,2) n(4), of key i]
  have r: "flowing (srv_in s)" "session_key_flag s" "session_key s = key" "\<forall>p. srv_creates s p"
    "load_private_key (ssl e) (srv_files s) ''auth/private_key.pem'' = Some priv"
    using assms(4) by (simp_all add: ready_def)
  have "under_way (srv_in s) = num MSG_FILENAME @ frame (octets name) @ num MSG_FILE_DATA @ frame ?t @ rest"
    using assms(5) n(3) by (simp add: file_bytes_def)
  moreover have "length name \<le> FILENAME_MAX" using n(2) by (simp add: FILENAME_MAX_def)
  ultimately obtain c1 where c1: "flowing c1" "under_way c1 = num MSG_FILE_DATA @ frame ?t @ rest"
    "server_message e s = Some (True, s\<lparr>srv_filename := name @ replicate (FILENAME_MAX - length name) NUL, srv_in := c1\<rparr>)"
    using server_filename [OF r(1), of name _ e] by blast
  let ?s = "s\<lparr>srv_filename := name @ replicate (FILENAME_MAX - length name) NUL, srv_in := c1\<rparr>"
  have "prints e ?t" "0 < FILENAME_MAX - length name" using assms(1) n(2) by (simp_all add: healthy_def Let_def FILENAME_MAX_def)
  then obtain c2 where c2: "flowing c2" "under_way c2 = rest"
    "server_message e ?s = Some (True, ?s\<lparr>srv_files := (srv_files s)(received_as name \<mapsto> data), srv_in := c2\<rparr>)"
    using server_file_data [of ?s ?t rest e priv data name "FILENAME_MAX - length name"] c1(1,2) r t n(1) by auto
  let ?s' = "?s\<lparr>srv_files := (srv_files s)(received_as name \<mapsto> data), srv_in := c2\<rparr>"
  have "server_loop e s = server_loop e ?s'"
    using c1(3) c2(3) by (simp add: server_loop.simps [of e s] server_loop.simps [of e ?s])
  moreover have "ready e key priv ?s'" using r c2(1) by (simp add: ready_def)
  ultimately show ?thesis using that [of ?s'] c2(2) n(3) by simp
qed

text \<open>The file system after receiving the files.\<close>

definition delivered :: "file_system \<Rightarrow> string list \<Rightarrow> file_system \<Rightarrow> file_system" where
  "delivered from names fs = fold (\<lambda>n fs. fs(received_as n \<mapsto> the (from n))) names fs"

lemma delivered_simps [simp]:
  "delivered from [] fs = fs"
  "delivered from (n # ns) fs = delivered from ns (fs(received_as n \<mapsto> the (from n)))"
  by (simp_all add: delivered_def)

lemma server_files:
  assumes "healthy e" and "good_ivs d" and "list_all (sendable c) names" and "ready e key priv s"
    and "under_way (srv_in s) = all_bytes e d key i (cl_files c) names @ num MSG_CLOSE @ rest"
  shows "\<exists>s'. server_loop e s = Some s' \<and> srv_files s' = delivered (cl_files c) names (srv_files s) \<and> srv_out s' = srv_out s"
  using assms(3-5)
proof (induction names arbitrary: i s)
  case Nil
  then have "flowing (srv_in s)" "under_way (srv_in s) = num MSG_CLOSE @ rest" by (simp_all add: ready_def)
  from server_close [OF this, of e] obtain c' where "server_message e s = Some (False, s\<lparr>srv_in := c'\<rparr>)" .
  then show ?case by (simp add: server_loop.simps [of e s])
next
  case (Cons n ns)
  have "sendable c n" "under_way (srv_in s) =
      file_bytes e d key i (cl_files c) n @ (all_bytes e d key (Suc i) (cl_files c) ns @ num MSG_CLOSE @ rest)"
    using Cons.prems(1,3) by simp_all
  from server_file [OF assms(1,2) this(1) Cons.prems(2) this(2)] obtain s1 where
    s1: "server_loop e s = server_loop e s1" "ready e key priv s1"
      "under_way (srv_in s1) = all_bytes e d key (Suc i) (cl_files c) ns @ num MSG_CLOSE @ rest"
      "srv_files s1 = (srv_files s)(received_as n \<mapsto> the (cl_files c n))" "srv_out s1 = srv_out s" .
  have "list_all (sendable c) ns" using Cons.prems(1) by simp
  from Cons.IH [OF this s1(2,3)] show ?case unfolding s1 delivered_simps .
qed

section \<open>The handshake\<close>

text \<open>
  The server's private key belongs to its certificate, which the authority the client knows
  has signed.
\<close>

definition trusted :: "evp \<Rightarrow> file_system \<Rightarrow> file_system \<Rightarrow> u8 list \<Rightarrow> pkey \<Rightarrow> pkey \<Rightarrow> bool" where
  "trusted S cfs sfs cert pub priv =
     (load_private_key S sfs ''auth/private_key.pem'' = Some priv \<and>
      sfs ''auth/server_signed.crt'' = Some cert \<and> length cert < 2 ^ 31 \<and>
      bio_new S \<and> store_new S \<and> store_ctx_new S \<and>
      (case (pem_x509 S cert, load_cert_file S cfs ''auth/cacsertificate.crt'') of
         (Some x, Some ca) \<Rightarrow> x509_get_pubkey S x = Some pub \<and> x509_verify_cert S ca x
       | _ \<Rightarrow> False))"

lemma trustedD:
  assumes "trusted S cfs sfs cert pub priv"
  obtains x ca where "load_private_key S sfs ''auth/private_key.pem'' = Some priv"
    "sfs ''auth/server_signed.crt'' = Some cert" "length cert < 2 ^ 31" "bio_new S" "store_new S" "store_ctx_new S"
    "pem_x509 S cert = Some x" "load_cert_file S cfs ''auth/cacsertificate.crt'' = Some ca"
    "x509_get_pubkey S x = Some pub" "x509_verify_cert S ca x"
  using assms by (auto simp: trusted_def split: option.split_asm)

lemma load_cert_exact:
  "bio_new S \<Longrightarrow> length cert < 2 ^ 31 \<Longrightarrow>
     load_cert_bytes S cert (to_int32 (int (unat (of_nat (length cert) :: u64)))) = Some (pem_x509 S cert)"
  by (simp add: load_cert_bytes_def to_int32_id)

lemma check_answer_trusted:
  assumes "trusted (ssl e) cfs sfs cert pub priv" and "signing_pair (ssl e) pub priv" and "\<forall>n. malloc_ok (sym (ssl e)) n"
  obtains sig where "sign_message_pss (ssl e) (salt e) priv challenge = Some (Some sig, length sig)" "length sig = 128"
    "check_answer e cfs challenge sig cert (of_nat (length cert)) = Some (Some pub)"
proof -
  from trustedD [OF assms(1)] obtain x ca where
    t: "length cert < 2 ^ 31" "bio_new (ssl e)" "store_new (ssl e)" "store_ctx_new (ssl e)"
      "pem_x509 (ssl e) cert = Some x" "load_cert_file (ssl e) cfs ''auth/cacsertificate.crt'' = Some ca"
      "x509_get_pubkey (ssl e) x = Some pub" "x509_verify_cert (ssl e) ca x" .
  from sign_verifies [OF assms(2,3) t(7), of "salt e" challenge] obtain sig where
    s: "sign_message_pss (ssl e) (salt e) priv challenge = Some (Some sig, 128)" "length sig = 128"
      "verify_message_pss (ssl e) x sig challenge" .
  have "check_answer e cfs challenge sig cert (of_nat (length cert)) = Some (Some pub)"
    using t s(3) load_cert_exact [OF t(2,1)] by (simp add: check_answer_def verify_server_cert_def)
  then show ?thesis using that s(1,2) by simp
qed

lemma try_send_int_exact:
  assumes "flowing (cl_out c)"
  obtains out where "try_send_int v c = Some (True, c\<lparr>cl_out := out\<rparr>)" "flowing out" "under_way out = under_way (cl_out c) @ num v"
  using send_int_exact [OF assms, of v] by (auto simp: try_send_int_def num_def)

lemma try_send_exact:
  assumes "flowing (cl_out c)"
  obtains out where "try_send bs c = (True, c\<lparr>cl_out := out\<rparr>)" "flowing out" "under_way out = under_way (cl_out c) @ bs"
  using send_all_exact [OF assms, of bs] by (auto simp: try_send_def)

lemma auth_exact:
  assumes "challenge_bytes d = Some challenge" and "length challenge = SESSION_KEY_LEN" and "flowing (cl_out c)"
    and "flowing (cl_in c)" and "under_way (cl_in c) = frame sig @ frame cert @ rest"
    and "length sig < 2 ^ 64" and "length cert < 2 ^ 64"
    and "check_answer e (cl_files c) challenge sig cert (of_nat (length cert)) = Some (Some pub)"
  obtains out i where "auth e d c = Some (Some pub, c\<lparr>cl_out := out, cl_in := i\<rparr>)" "flowing out"
    "under_way out = under_way (cl_out c) @ num MSG_AUTH @ frame challenge"
proof -
  from try_send_int_exact [OF assms(3)] obtain o1 where
    1: "try_send_int MSG_AUTH c = Some (True, c\<lparr>cl_out := o1\<rparr>)" "flowing o1" "under_way o1 = under_way (cl_out c) @ num MSG_AUTH" .
  from try_send_int_exact [of "c\<lparr>cl_out := o1\<rparr>" "of_nat SESSION_KEY_LEN"] 1(2) obtain o2 where
    2: "try_send_int (of_nat SESSION_KEY_LEN) (c\<lparr>cl_out := o1\<rparr>) = Some (True, c\<lparr>cl_out := o2\<rparr>)" "flowing o2"
      "under_way o2 = under_way o1 @ num (of_nat SESSION_KEY_LEN)" by auto
  from try_send_exact [of "c\<lparr>cl_out := o2\<rparr>" challenge] 2(2) obtain o3 where
    3: "try_send challenge (c\<lparr>cl_out := o2\<rparr>) = (True, c\<lparr>cl_out := o3\<rparr>)" "flowing o3" "under_way o3 = under_way o2 @ challenge" by auto
  from answer_field_exact [of "c\<lparr>cl_out := o3\<rparr>" sig "frame cert @ rest"] assms(4-6) obtain i1 where
    4: "answer_field (c\<lparr>cl_out := o3\<rparr>) = Some (Some sig, of_nat (length sig), c\<lparr>cl_out := o3, cl_in := i1\<rparr>)" "flowing i1"
      "under_way i1 = frame cert @ rest" by auto
  from answer_field_exact [of "c\<lparr>cl_out := o3, cl_in := i1\<rparr>" cert rest] 4(2,3) assms(7) obtain i2 where
    5: "answer_field (c\<lparr>cl_out := o3, cl_in := i1\<rparr>) = Some (Some cert, of_nat (length cert), c\<lparr>cl_out := o3, cl_in := i2\<rparr>)" by auto
  have g: "generate_session_key (challenge_bytes d) (replicate SESSION_KEY_LEN 0) = Some (0, challenge)"
    using assms(1,2) by (simp add: generate_session_key_def memcpy_def)
  have "auth e d c = Some (Some pub, c\<lparr>cl_out := o3, cl_in := i2\<rparr>)"
    using g 1(1) 2(1) 3(1) 4(1) 5 assms(8) by (simp add: auth_def)
  moreover have "under_way o3 = under_way (cl_out c) @ num MSG_AUTH @ frame challenge"
    using 1(3) 2(3) 3(3) assms(2) by (simp add: frame_def num_def)
  ultimately show ?thesis using that 3(2) by blast
qed

section \<open>Files as blocks\<close>

definition blocks_of :: "nat \<Rightarrow> nat \<Rightarrow> nat" where
  "blocks_of chunk n = (n + chunk - 1) div chunk"

lemma blocks_of_step:
  assumes "0 < n" and "0 < chunk"
  shows "blocks_of chunk n = Suc (blocks_of chunk (n - (if n < chunk then n else chunk)))"
proof -
  have n: "n + chunk - 1 = chunk + (n - 1)" using assms by simp
  have "blocks_of chunk n = Suc ((n - 1) div chunk)"
    unfolding blocks_of_def n using assms(2) by (simp only: div_add_self1 plus_1_eq_Suc)
  moreover have "blocks_of chunk (n - (if n < chunk then n else chunk)) = (n - 1) div chunk"
    using assms by (simp add: blocks_of_def)
  ultimately show ?thesis by simp
qed

lemma blocks_of_enough: "0 < chunk \<Longrightarrow> n \<le> chunk * blocks_of chunk n"
proof (induction n rule: less_induct)
  case (less n)
  show ?case
  proof (cases "n = 0")
    case False
    let ?m = "n - (if n < chunk then n else chunk)"
    have "?m < n" using False less.prems by simp
    then have "?m \<le> chunk * blocks_of chunk ?m" using less by blast
    then show ?thesis using blocks_of_step [of n chunk] False less.prems by (auto split: if_splits)
  qed simp
qed

lemma memcpy_in: "off + length b \<le> length data \<Longrightarrow> memcpy data off b = Some (take off data @ b @ drop (off + length b) data)"
  by (simp add: memcpy_def)

lemma encrypt_decrypt_blocks:
  assumes "rsa_pair S oaep pub priv" and "\<forall>n. malloc_ok (sym S) n" and "\<forall>b. print b"
    and "0 < chunk" and "chunk \<le> (if oaep then 62 else 117)"
  shows "off + 128 * blocks_of chunk (length plain) \<le> length data \<Longrightarrow>
    \<exists>E. encrypt_blocks S seeds pub chunk oaep plain data off =
        Some (Some (take off data @ E @ drop (off + length E) data, off + length E)) \<and>
      length E = 128 * blocks_of chunk (length plain) \<and>
      (\<forall>out n. n + length plain \<le> length out \<longrightarrow>
        decrypt_blocks S print priv oaep E out n =
          Some (Some (take n out @ plain @ drop (n + length plain) out, n + length plain)))"
proof (induction plain arbitrary: data off rule: length_induct)
  case (1 plain)
  show ?case
  proof (cases "plain = []")
    case True
    then show ?thesis
      using assms(4) by (auto simp: encrypt_blocks.simps decrypt_blocks.simps blocks_of_def intro!: exI [of _ "[]"])
  next
    case False
    define cur where "cur = (if length plain < chunk then length plain else chunk)"
    let ?m = "take cur plain"
    have cur: "0 < cur" "cur \<le> length plain" "length ?m = cur" "cur \<le> chunk"
      using False assms(4) by (auto simp: cur_def)
    from rsa_block_roundtrip [OF assms(1,2), of ?m "seeds (length plain)"] cur(3,4) assms(5) obtain b where
      b: "rsa_encrypt_block S (seeds (length plain)) pub ?m oaep = Some (Some b, 128)" "length b = 128"
        "rsa_decrypt_block S priv b oaep = Some (Some ?m, cur)" by (auto simp del: length_take)
    have bl: "blocks_of chunk (length plain) = Suc (blocks_of chunk (length (drop cur plain)))"
      using blocks_of_step [of "length plain" chunk] False assms(4) by (simp add: cur_def)
    let ?data = "take off data @ b @ drop (off + 128) data"
    have room: "off + 128 \<le> length data" "off + 128 + 128 * blocks_of chunk (length (drop cur plain)) \<le> length ?data"
      using "1.prems" bl b(2) by simp_all
    have "length (drop cur plain) < length plain" using cur(1,2) by simp
    from "1.IH" [rule_format, OF this room(2)] obtain E where
      E: "encrypt_blocks S seeds pub chunk oaep (drop cur plain) ?data (off + 128) =
          Some (Some (take (off + 128) ?data @ E @ drop (off + 128 + length E) ?data, off + 128 + length E))"
        "length E = 128 * blocks_of chunk (length (drop cur plain))"
        "\<And>out n. n + length (drop cur plain) \<le> length out \<Longrightarrow> decrypt_blocks S print priv oaep E out n =
          Some (Some (take n out @ drop cur plain @ drop (n + length (drop cur plain)) out, n + length (drop cur plain)))"
      by blast
    have parts: "take (off + 128) ?data = take off data @ b" "drop (off + 128 + length E) ?data = drop (off + 128 + length E) data"
      using room(1) b(2) by (simp_all add: ac_simps)
    have "memcpy data off b = Some ?data" using memcpy_in [of off b data] room(1) b(2) by simp
    then have "encrypt_blocks S seeds pub chunk oaep plain data off =
        encrypt_blocks S seeds pub chunk oaep (drop cur plain) ?data (off + 128)"
      using False assms(4) b(1,2) by (simp add: encrypt_blocks.simps [of S seeds pub chunk oaep plain] cur_def [symmetric])
    then have enc: "encrypt_blocks S seeds pub chunk oaep plain data off =
        Some (Some (take off data @ (b @ E) @ drop (off + length (b @ E)) data, off + length (b @ E)))"
      using E(1) b(2) unfolding parts by (simp add: add.assoc)
    have dec: "decrypt_blocks S print priv oaep (b @ E) out n =
        Some (Some (take n out @ plain @ drop (n + length plain) out, n + length plain))"
      if "n + length plain \<le> length out" for out n
    proof -
      let ?out = "take n out @ ?m @ drop (n + cur) out"
      have "memcpy out n ?m = Some ?out" using memcpy_in [of n ?m out] that cur(2,3) by simp
      then have "decrypt_blocks S print priv oaep (b @ E) out n = decrypt_blocks S print priv oaep E ?out (n + cur)"
        using b(2,3) cur(3) assms(3)
        by (simp add: decrypt_blocks.simps [of S print priv oaep "b @ E"] RSA_KEY_BYTES_def del: length_take)
           (metis list.size(3) zero_neq_numeral)
      moreover have "n + cur + length (drop cur plain) \<le> length ?out" using that cur(2) by simp
      moreover have "take (n + cur) ?out = take n out @ ?m" "drop (n + cur + length (drop cur plain)) ?out = drop (n + length plain) out"
        "n + cur + length (drop cur plain) = n + length plain" using that cur(2) by (simp_all add: ac_simps)
      ultimately show ?thesis using E(3) [of "n + cur" ?out] append_take_drop_id [of cur plain]
        by (metis append.assoc)
    qed
    show ?thesis using enc dec b(2) E(2) bl by (intro exI [of _ "b @ E"]) simp
  qed
qed

section \<open>What one message may change\<close>

lemma strrchr_no_slash: "strrchr_split ch s = Some (a, b) \<Longrightarrow> ch \<notin> set b"
  by (auto simp: strrchr_split_def split: if_splits dest: set_takeWhileD)

lemma strrchr_None: "strrchr_split ch s = None \<Longrightarrow> ch \<notin> set s"
  by (auto simp: strrchr_split_def split: if_splits)

definition in_directory :: "string \<Rightarrow> bool" where
  "in_directory p = (\<exists>base. p = ''recv_files/recv_'' @ base \<and> CHR ''/'' \<notin> set base)"

lemma base_name_no_slash: "base_name name = Some base \<Longrightarrow> CHR ''/'' \<notin> set base"
  by (auto simp: base_name_def split: if_splits option.splits dest: strrchr_no_slash strrchr_None)

lemma store_file_writes:
  assumes "store_file data s = Some s'" and "srv_files s' p \<noteq> srv_files s p"
  shows "in_directory p"
proof -
  from assms(1) obtain base where b: "base_name (srv_filename s) = Some base" by (auto simp: store_file_def elim: bind_SomeE)
  then have "p = take (FILENAME_MAX - 1) (''recv_files/recv_'' @ base)"
    using assms by (auto simp: store_file_def Let_def split: if_splits)
  then have "p = ''recv_files/recv_'' @ take 4079 base" by (simp add: FILENAME_MAX_def)
  moreover have "CHR ''/'' \<notin> set (take 4079 base)" using base_name_no_slash [OF b] by (auto dest: in_set_takeD)
  ultimately show ?thesis unfolding in_directory_def by blast
qed

lemma store_after_read_writes:
  "store_file data (s\<lparr>srv_in := c\<rparr>) = Some s' \<Longrightarrow> srv_files s' p = srv_files s p \<or> in_directory p"
  using store_file_writes [of data "s\<lparr>srv_in := c\<rparr>" s' p] by auto

lemma receive_file_data_writes:
  assumes "receive_file_data e s = Some (go, s')" and "srv_files s' p \<noteq> srv_files s p"
  shows "in_directory p"
  using assms
  by (auto simp: receive_file_data_def Let_def elim!: bind_SomeE split: option.split_asm if_split_asm
      dest!: store_after_read_writes [where p = p])

lemma other_messages_write:
  "receive_filename s = Some (go, s') \<Longrightarrow> srv_files s' = srv_files s"
  "receive_auth e s = Some (go, s') \<Longrightarrow> srv_files s' = srv_files s"
  "receive_symkey e s = Some (go, s') \<Longrightarrow> srv_files s' = srv_files s"
  by (auto simp: receive_filename_def receive_auth_def receive_symkey_def Let_def elim!: bind_SomeE
      split: option.split_asm if_split_asm)

lemma server_message_writes:
  assumes "server_message e s = Some (go, s')" and "srv_files s' p \<noteq> srv_files s p"
  shows "in_directory p"
  using assms receive_file_data_writes [of e "s\<lparr>srv_in := c\<rparr>" for c]
  by (fastforce simp: server_message_def Let_def elim!: bind_SomeE split: prod.split_asm option.split_asm if_split_asm
      dest!: other_messages_write)

lemma server_steps_write:
  "server_steps e s go s' \<Longrightarrow> srv_files s' p \<noteq> srv_files s p \<Longrightarrow> in_directory p"
proof (induction rule: server_steps.induct)
  case (message s1 go s2)
  then show ?case using server_message_writes [OF message.hyps(2), of p] by metis
qed simp

lemma answer_files:
  "try_send_int v c = Some (ok, c') \<Longrightarrow> cl_files c' = cl_files c"
  "try_send bs c = (ok, c') \<Longrightarrow> cl_files c' = cl_files c"
  "answer_field c = Some (b, n, c') \<Longrightarrow> cl_files c' = cl_files c"
  by (auto simp: try_send_int_def try_send_def answer_field_def Let_def elim!: bind_SomeE
      split: prod.split_asm option.split_asm)

lemma check_answer_checks:
  assumes "check_answer e fs challenge sig crt n = Some (Some pub)"
  shows "\<exists>ca cert. load_cert_file (ssl e) fs ''auth/cacsertificate.crt'' = Some ca \<and>
    x509_verify_cert (ssl e) ca cert \<and> x509_get_pubkey (ssl e) cert = Some pub \<and> verify_final (ssl e) pub sig challenge"
  using assms
  by (auto simp: check_answer_def verify_server_cert_def verify_message_pss_def elim!: bind_SomeE
      split: option.split_asm if_split_asm)

section \<open>A library that keeps the laws\<close>

text \<open>Encryption and signatures that hide nothing: a block ends in the length of its text.\<close>

definition clear_block :: "u8 list \<Rightarrow> u8 list" where
  "clear_block m = m @ replicate (127 - length m) 0 @ [of_nat (length m)]"

definition clear_sign :: "u8 list \<Rightarrow> u8 list" where
  "clear_sign m = take 128 (m @ replicate 128 0)"

definition clear_evp :: evp where
  "clear_evp = \<lparr>sym = clear_ssl, pem_private_key = (\<lambda>_. Some 1), pem_x509 = (\<lambda>b. Some (length b)), bio_new = True,
     store_new = True, store_ctx_new = True, x509_verify_cert = (\<lambda>ca x. ca = 1 \<and> x = 2), x509_get_pubkey = (\<lambda>_. Some 2),
     md_ctx = True, sign_setup = (\<lambda>_. True), sign_size = (\<lambda>_. Some 128), sign_final = (\<lambda>_ _ m. Some (clear_sign m)),
     verify_setup = (\<lambda>_. True), verify_final = (\<lambda>_ sig m. sig = clear_sign m), pkey_ctx = (\<lambda>_. True),
     rsa_setup = (\<lambda>_ _. True), rsa_enc_size = (\<lambda>_ _ _. Some 128), rsa_enc = (\<lambda>_ _ _ m. Some (clear_block m)),
     rsa_dec_size = (\<lambda>_ _ _. Some 128), rsa_dec = (\<lambda>_ _ c. Some (take (unat (last c)) c))\<rparr>"

definition demo_setting :: setting where
  "demo_setting = \<lparr>ssl = clear_evp, use_oaep = True, prints = (\<lambda>_. True), salt = 0\<rparr>"

definition demo_draws :: draws where
  "demo_draws = \<lparr>challenge_bytes = Some (replicate 32 5), key_bytes = Some (replicate 32 6), key_seed = 0,
     iv_bytes = (\<lambda>_. Some (replicate 16 9))\<rparr>"

definition demo_client :: client where
  "demo_client = \<lparr>cl_in = trickle, cl_out = trickle,
     cl_files = [''a.txt'' \<mapsto> [1, 2, 3], ''auth/cacsertificate.crt'' \<mapsto> [1]], cl_opens = (\<lambda>_. True), cl_stdin = typed [''a.txt'']\<rparr>"

definition demo_server :: server where
  "demo_server = \<lparr>session_key = replicate 32 0, session_key_flag = False, srv_filename = replicate 4096 NUL,
     srv_in = trickle, srv_out = trickle,
     srv_files = [''auth/private_key.pem'' \<mapsto> [1], ''auth/server_signed.crt'' \<mapsto> [1, 2]], srv_creates = (\<lambda>_. True)\<rparr>"

lemmas demo_defs = demo_setting_def demo_draws_def demo_client_def demo_server_def

lemma trickle_flows [simp]: "flowing trickle" "under_way trickle = []" "flowing (trickle\<lparr>under_way := bs\<rparr>)"
  by (simp_all add: flowing_def trickle_def)

lemma demo_healthy: "healthy demo_setting"
proof -
  have "\<exists>c. enciphers clear_ssl k iv m c" for k iv m by (simp add: clear_enciphers)
  moreover have "ctx_new clear_ssl" "\<And>n. malloc_ok clear_ssl n" "\<And>k m. hmac_sha256 clear_ssl k m \<noteq> None"
    by (simp_all add: clear_ssl_def)
  ultimately show ?thesis using clear_ssl_laws by (auto simp: healthy_def demo_setting_def clear_evp_def)
qed

lemma clear_block_reads:
  assumes "length m \<le> 117"
  shows "length (clear_block m) = 128" "take (unat (last (clear_block m))) (clear_block m) = m"
proof -
  have "unat (of_nat (length m) :: u8) = length m" using assms by (simp add: unat_of_nat)
  then show "length (clear_block m) = 128" "take (unat (last (clear_block m))) (clear_block m) = m"
    using assms by (simp_all add: clear_block_def)
qed

lemma clear_rsa_pair: "rsa_pair clear_evp oaep 2 1"
  using clear_block_reads by (simp add: rsa_pair_def clear_evp_def)

lemma clear_signing_pair: "signing_pair clear_evp 2 1"
  by (simp add: signing_pair_def clear_evp_def clear_sign_def min_def)

lemma demo_trusted: "trusted clear_evp (cl_files demo_client) (srv_files demo_server) [1, 2] 2 1"
  by (simp add: trusted_def clear_evp_def demo_defs load_private_key_def load_cert_file_def)

lemma demo_sendable: "sendable demo_client ''a.txt''"
  by (simp add: sendable_def demo_client_def FILENAME_MAX_def)

lemma demo_ivs: "good_ivs demo_draws"
  by (simp add: good_ivs_def demo_draws_def crypto_sizes)

lemma demo_auth:
  "\<exists>c'. auth demo_setting demo_draws
     (demo_client\<lparr>cl_in := trickle\<lparr>under_way := frame (clear_sign (replicate 32 5)) @ frame [1, 2]\<rparr>\<rparr>) = Some (Some 2, c')"
proof -
  let ?c = "demo_client\<lparr>cl_in := trickle\<lparr>under_way := frame (clear_sign (replicate 32 5)) @ frame [1, 2]\<rparr>\<rparr>"
  have "check_answer demo_setting (cl_files ?c) (replicate 32 5) (clear_sign (replicate 32 5)) [1, 2] (of_nat (length [1, 2 :: u8])) = Some (Some 2)"
    by (simp add: check_answer_def demo_defs clear_evp_def load_cert_bytes_def verify_server_cert_def verify_message_pss_def
        load_cert_file_def to_int32_id)
  moreover have "challenge_bytes demo_draws = Some (replicate 32 5)" "length (replicate 32 (5 :: u8)) = SESSION_KEY_LEN"
    "flowing (cl_out ?c)" "flowing (cl_in ?c)"
    "under_way (cl_in ?c) = frame (clear_sign (replicate 32 5)) @ frame [1, 2] @ []"
    "length (clear_sign (replicate 32 5)) < 2 ^ 64" "length [1, 2 :: u8] < 2 ^ 64"
    by (simp_all add: demo_draws_def demo_client_def crypto_sizes clear_sign_def)
  ultimately show ?thesis using auth_exact [of demo_draws "replicate 32 5" ?c] by metis
qed

section \<open>Properties\<close>

text \<open>
  The bytes of a whole session, and what both programs make of them.
\<close>

lemma client_session:
  assumes "healthy e" and "good_ivs d" and "rsa_pair (ssl e) (use_oaep e) pub priv"
    and "challenge_bytes d = Some challenge" and "length challenge = SESSION_KEY_LEN"
    and "key_bytes d = Some key" and "length key = SESSION_KEY_LEN"
    and "list_all (sendable c) names" and "cl_stdin c = typed names" and "flowing (cl_out c)" and "flowing (cl_in c)"
    and "under_way (cl_in c) = frame sig @ frame cert" and "length sig < 2 ^ 64" and "length cert < 2 ^ 64"
    and "check_answer e (cl_files c) challenge sig cert (of_nat (length cert)) = Some (Some pub)"
  obtains c' enc_key where "client_main e d c = Some (0, c')" "length enc_key = 128"
    "rsa_decrypt_block (ssl e) priv enc_key (use_oaep e) = Some (Some key, length key)" "flowing (cl_out c')"
    "under_way (cl_out c') = under_way (cl_out c) @ num MSG_AUTH @ frame challenge @ num MSG_SYMKEY @ frame enc_key @
       all_bytes e d key 0 (cl_files c) names @ num MSG_CLOSE @ num MSG_CLOSE"
proof -
  have "under_way (cl_in c) = frame sig @ frame cert @ []" using assms(12) by simp
  from auth_exact [OF assms(4,5,10,11) this assms(13,14,15)] obtain o1 i1 where
    1: "auth e d c = Some (Some pub, c\<lparr>cl_out := o1, cl_in := i1\<rparr>)" "flowing o1"
      "under_way o1 = under_way (cl_out c) @ num MSG_AUTH @ frame challenge" .
  have m: "\<forall>n. malloc_ok (sym (ssl e)) n" using assms(1) by (simp add: healthy_def Let_def)
  have "length key \<le> (if use_oaep e then 62 else 117)" using assms(7) by (simp add: crypto_sizes)
  from rsa_block_roundtrip [OF assms(3) m this, of "key_seed d"] obtain enc_key where
    k: "rsa_encrypt_block (ssl e) (key_seed d) pub key (use_oaep e) = Some (Some enc_key, 128)" "length enc_key = 128"
      "rsa_decrypt_block (ssl e) priv enc_key (use_oaep e) = Some (Some key, length key)" .
  have g: "generate_session_key (key_bytes d) (replicate SESSION_KEY_LEN 0) = Some (0, key)"
    using assms(6,7) by (simp add: generate_session_key_def memcpy_def)
  from send_num_exact [OF 1(2)] obtain o2 where
    2: "send_num MSG_SYMKEY o1 = Some o2" "flowing o2" "under_way o2 = under_way o1 @ num MSG_SYMKEY" .
  from send_bytes_exact [OF 2(2), of enc_key] obtain o3 where
    3: "send_bytes (Some enc_key) 128 o2 = Some o3" "flowing o3" "under_way o3 = under_way o2 @ frame enc_key"
    using k(2) by auto
  let ?c = "c\<lparr>cl_in := i1, cl_out := o3\<rparr>"
  from client_loop_exact [OF assms(1,2), of ?c names key 0] assms(8,9) 3(2) obtain c4 where
    4: "client_loop e d key 0 ?c = Some c4" "flowing (cl_out c4)"
      "under_way (cl_out c4) = under_way o3 @ all_bytes e d key 0 (cl_files c) names @ num MSG_CLOSE" by auto
  from send_num_exact [OF 4(2)] obtain o5 where
    5: "send_num MSG_CLOSE (cl_out c4) = Some o5" "flowing o5" "under_way o5 = under_way (cl_out c4) @ num MSG_CLOSE" .
  have "client_main e d c = Some (0, c4\<lparr>cl_out := o5\<rparr>)"
    using 1(1) g k(1) 2(1) 3(1) 4(1) 5(1) by (simp add: client_main_def)
  then show ?thesis
    by (rule that [OF _ k(2,3)]) (use 1(3) 2(3) 3(3) 4(3) 5(2,3) in simp_all)
qed

lemma server_session:
  assumes "healthy e" and "good_ivs d" and "list_all (sendable c) names"
    and "flowing (srv_in s)" and "flowing (srv_out s)" and "length (session_key s) = SESSION_KEY_LEN" and "\<forall>p. srv_creates s p"
    and "load_private_key (ssl e) (srv_files s) ''auth/private_key.pem'' = Some priv"
    and "srv_files s ''auth/server_signed.crt'' = Some cert"
    and "sign_message_pss (ssl e) (salt e) priv challenge = Some (Some sig, length sig)" and "length challenge < 2 ^ 64"
    and "rsa_decrypt_block (ssl e) priv enc_key (use_oaep e) = Some (Some key, length key)" and "length enc_key = 128"
    and "length key = SESSION_KEY_LEN"
    and "under_way (srv_in s) = num MSG_AUTH @ frame challenge @ num MSG_SYMKEY @ frame enc_key @
       all_bytes e d key 0 (cl_files c) names @ num MSG_CLOSE @ rest"
  obtains s' where "server_run e s = Some s'" "srv_files s' = delivered (cl_files c) names (srv_files s)"
    "under_way (srv_out s') = under_way (srv_out s) @ frame sig @ frame cert"
proof -
  have m: "\<forall>n. malloc_ok (sym (ssl e)) n" using assms(1) by (simp add: healthy_def Let_def)
  from server_auth [OF assms(4,15,11,5) m assms(8,10,9)] obtain c1 o1 where
    1: "flowing c1" "under_way c1 = num MSG_SYMKEY @ frame enc_key @ all_bytes e d key 0 (cl_files c) names @ num MSG_CLOSE @ rest"
      "flowing o1" "under_way o1 = under_way (srv_out s) @ frame sig @ frame cert"
      "server_message e s = Some (True, s\<lparr>srv_in := c1, srv_out := o1\<rparr>)" .
  let ?s1 = "s\<lparr>srv_in := c1, srv_out := o1\<rparr>"
  from server_symkey [of ?s1 enc_key _ key e priv] 1(1,2) assms(6,8,12-14) obtain c2 where
    2: "flowing c2" "under_way c2 = all_bytes e d key 0 (cl_files c) names @ num MSG_CLOSE @ rest"
      "server_message e ?s1 = Some (True, ?s1\<lparr>session_key := key, session_key_flag := True, srv_in := c2\<rparr>)" by auto
  let ?s2 = "?s1\<lparr>session_key := key, session_key_flag := True, srv_in := c2\<rparr>"
  have "ready e key priv ?s2" using 2(1) assms(7,8) by (simp add: ready_def)
  from server_files [OF assms(1-3) this, of 0 rest] 2(2) obtain s3 where
    3: "server_loop e ?s2 = Some s3" "srv_files s3 = delivered (cl_files c) names (srv_files s)" "srv_out s3 = o1" by auto
  have "server_loop e s = Some s3"
    using 1(5) 2(3) 3(1) by (simp add: server_loop.simps [of e s] server_loop.simps [of e ?s1])
  then show ?thesis using that [of "s3\<lparr>session_key := replicate SESSION_KEY_LEN 0\<rparr>"] 3(2,3) 1(4) by (simp add: server_run_def)
qed

text \<open>
  C7.  Files arrive: a client whose server holds the certified key authenticates it, and every
  file named on its input is stored by the server with its contents, under the directory for
  received files, over a connection that cuts the bytes into any pieces.  The answer the client
  reads is the one the server sends.
\<close>

theorem files_are_delivered:
  assumes "healthy e" and "good_ivs d" and "rsa_pair (ssl e) (use_oaep e) pub priv" and "signing_pair (ssl e) pub priv"
    and "trusted (ssl e) (cl_files c) (srv_files s) cert pub priv"
    and "challenge_bytes d = Some challenge" and "length challenge = SESSION_KEY_LEN"
    and "key_bytes d = Some key" and "length key = SESSION_KEY_LEN"
    and "list_all (sendable c) names" and "cl_stdin c = typed names" and "flowing (cl_out c)" and "under_way (cl_out c) = []"
    and "flowing (srv_out s)" and "under_way (srv_out s) = []"
    and "length (session_key s) = SESSION_KEY_LEN" and "\<forall>p. srv_creates s p"
  shows "\<exists>answer. \<forall>i. flowing i \<and> under_way i = answer \<longrightarrow>
    (\<exists>c' s'. client_main e d (c\<lparr>cl_in := i\<rparr>) = Some (0, c') \<and> server_run e (s\<lparr>srv_in := cl_out c'\<rparr>) = Some s' \<and>
       under_way (srv_out s') = answer \<and> srv_files s' = delivered (cl_files c) names (srv_files s))"
proof -
  from trustedD [OF assms(5)] have t: "load_private_key (ssl e) (srv_files s) ''auth/private_key.pem'' = Some priv"
    "srv_files s ''auth/server_signed.crt'' = Some cert" "length cert < 2 ^ 64" by fastforce+
  have m: "\<forall>n. malloc_ok (sym (ssl e)) n" using assms(1) by (simp add: healthy_def Let_def)
  from check_answer_trusted [OF assms(5,4) m, of challenge] obtain sig where
    sig: "sign_message_pss (ssl e) (salt e) priv challenge = Some (Some sig, length sig)" "length sig = 128"
      "check_answer e (cl_files c) challenge sig cert (of_nat (length cert)) = Some (Some pub)" .
  have "\<exists>c' s'. client_main e d (c\<lparr>cl_in := i\<rparr>) = Some (0, c') \<and> server_run e (s\<lparr>srv_in := cl_out c'\<rparr>) = Some s' \<and>
       under_way (srv_out s') = frame sig @ frame cert \<and> srv_files s' = delivered (cl_files c) names (srv_files s)"
    if i: "flowing i" "under_way i = frame sig @ frame cert" for i
  proof -
    from client_session [OF assms(1-3,6-9), of "c\<lparr>cl_in := i\<rparr>" names sig cert] assms(10-13) i sig t(3)
    obtain c' enc_key where
      c': "client_main e d (c\<lparr>cl_in := i\<rparr>) = Some (0, c')" "length enc_key = 128"
        "rsa_decrypt_block (ssl e) priv enc_key (use_oaep e) = Some (Some key, length key)" "flowing (cl_out c')"
        "under_way (cl_out c') = num MSG_AUTH @ frame challenge @ num MSG_SYMKEY @ frame enc_key @
           all_bytes e d key 0 (cl_files c) names @ num MSG_CLOSE @ num MSG_CLOSE"
      by auto
    from server_session [OF assms(1,2,10), of "s\<lparr>srv_in := cl_out c'\<rparr>" priv cert challenge sig enc_key key "num MSG_CLOSE"]
      assms(7,9,14-17) t(1,2) sig(1) c'(2-5) obtain s' where
      "server_run e (s\<lparr>srv_in := cl_out c'\<rparr>) = Some s'" "srv_files s' = delivered (cl_files c) names (srv_files s)"
      "under_way (srv_out s') = frame sig @ frame cert" by (auto simp: crypto_sizes)
    with c'(1) show ?thesis by blast
  qed
  then show ?thesis by blast
qed

theorem files_are_delivered_witness:
  "\<exists>answer. \<forall>i. flowing i \<and> under_way i = answer \<longrightarrow>
    (\<exists>c' s'. client_main demo_setting demo_draws (demo_client\<lparr>cl_in := i\<rparr>) = Some (0, c') \<and>
       server_run demo_setting (demo_server\<lparr>srv_in := cl_out c'\<rparr>) = Some s' \<and>
       under_way (srv_out s') = answer \<and> srv_files s' = delivered (cl_files demo_client) [''a.txt''] (srv_files demo_server))"
proof (rule files_are_delivered [OF demo_healthy demo_ivs, where challenge = "replicate 32 5" and key = "replicate 32 6"])
  show "rsa_pair (ssl demo_setting) (use_oaep demo_setting) 2 1" "signing_pair (ssl demo_setting) 2 1"
    using clear_rsa_pair clear_signing_pair by (simp_all add: demo_setting_def)
  show "trusted (ssl demo_setting) (cl_files demo_client) (srv_files demo_server) [1, 2] 2 1"
    using demo_trusted by (simp add: demo_setting_def)
  show "list_all (sendable demo_client) [''a.txt'']" using demo_sendable by simp
qed (simp_all add: demo_draws_def demo_client_def demo_server_def crypto_sizes)

text \<open>
  C16.  The client accepts a server only after both checks: the key it goes on with belongs to a
  certificate that verifies under the authority's, and the challenge it drew carries a valid
  signature of that key.
\<close>

theorem accepted_server_is_checked:
  assumes "auth e d c = Some (Some pub, c')"
  shows "\<exists>ca cert sig challenge. load_cert_file (ssl e) (cl_files c) ''auth/cacsertificate.crt'' = Some ca \<and>
    x509_verify_cert (ssl e) ca cert \<and> x509_get_pubkey (ssl e) cert = Some pub \<and>
    generate_session_key (challenge_bytes d) (replicate SESSION_KEY_LEN 0) = Some (0, challenge) \<and>
    verify_final (ssl e) pub sig challenge"
proof -
  from assms obtain challenge sig crt n where
    c1: "generate_session_key (challenge_bytes d) (replicate SESSION_KEY_LEN 0) = Some (0, challenge)"
      "check_answer e (cl_files c) challenge sig crt n = Some (Some pub)"
    by (auto simp: auth_def elim!: bind_SomeE split: prod.split_asm option.split_asm if_split_asm dest!: answer_files)
  from check_answer_checks [OF c1(2)] c1(1) show ?thesis by metis
qed

theorem accepted_server_is_checked_witness:
  "\<exists>ca cert sig challenge. load_cert_file (ssl demo_setting) (cl_files demo_client) ''auth/cacsertificate.crt'' = Some ca \<and>
    x509_verify_cert (ssl demo_setting) ca cert \<and> x509_get_pubkey (ssl demo_setting) cert = Some 2 \<and>
    generate_session_key (challenge_bytes demo_draws) (replicate SESSION_KEY_LEN 0) = Some (0, challenge) \<and>
    verify_final (ssl demo_setting) 2 sig challenge"
proof -
  from demo_auth obtain c' where "auth demo_setting demo_draws
     (demo_client\<lparr>cl_in := trickle\<lparr>under_way := frame (clear_sign (replicate 32 5)) @ frame [1, 2]\<rparr>\<rparr>) = Some (Some 2, c')" ..
  from accepted_server_is_checked [OF this] show ?thesis by simp
qed

text \<open>
  C15.  Received files stay in their directory: after any number of messages, whatever they hold
  and however the run goes on, every file the server has changed has a path that starts with
  \<open>recv_files/recv_\<close> and has no further slash.  This is so up to the point where a message
  leads the program into undefined behaviour, and for every run that ends.
\<close>

theorem files_stay_in_directory:
  assumes "server_steps e s go s'" and "srv_files s' p \<noteq> srv_files s p"
  shows "\<exists>base. p = ''recv_files/recv_'' @ base \<and> CHR ''/'' \<notin> set base"
  using server_steps_write [OF assms] by (simp only: in_directory_def)

theorem files_stay_in_directory_witness:
  "\<exists>base. ''recv_files/recv_a.txt'' = ''recv_files/recv_'' @ base \<and> CHR ''/'' \<notin> set base"
proof -
  let ?k = "replicate 32 6"
  let ?s = "demo_server\<lparr>session_key := ?k, session_key_flag := True, srv_in := trickle\<lparr>under_way :=
    all_bytes demo_setting demo_draws ?k 0 (cl_files demo_client) [''a.txt''] @ num MSG_CLOSE\<rparr>\<rparr>"
  have "ready demo_setting ?k 1 ?s"
    by (simp add: ready_def demo_server_def demo_setting_def clear_evp_def load_private_key_def)
  from server_files [OF demo_healthy demo_ivs _ this, of demo_client "[''a.txt'']" 0 "[]"] demo_sendable obtain s' where
    s': "server_loop demo_setting ?s = Some s'" "srv_files s' = delivered (cl_files demo_client) [''a.txt''] (srv_files ?s)"
    by (auto simp: trickle_def)
  have "received_as ''a.txt'' = ''recv_files/recv_a.txt''" by (simp add: received_as_def strrchr_split_def FILENAME_MAX_def)
  then have "srv_files s' ''recv_files/recv_a.txt'' \<noteq> srv_files ?s ''recv_files/recv_a.txt''"
    using s'(2) by (simp add: demo_server_def)
  with files_stay_in_directory [OF server_loop_steps [OF s'(1) server_steps.start]] show ?thesis .
qed

text \<open>
  C20.  A file encrypted block by block decrypts to itself, with either padding, and neither
  program writes past its buffer, whenever memory can be had and the calls of OpenSSL succeed.
  The decryption prints buffers without a null as strings; that these reads past their ends do
  no harm is assumed.
\<close>

theorem block_file_roundtrip:
  assumes "rsa_pair S oaep pub priv" and "\<forall>n. malloc_ok (sym S) n" and "\<forall>b. print b"
  shows "\<exists>enc. encrypt_file S seeds oaep pub original = Some (Some enc) \<and>
    decrypt_file S print oaep enc priv = Some (Some original)"
proof -
  let ?chunk = "if oaep then RSA_OAEP_CHUNK else RSA_PKCS1_CHUNK"
  let ?data = "replicate (blocks_of ?chunk (length original) * RSA_KEY_BYTES) (0 :: u8)"
  have ch: "0 < ?chunk" "?chunk \<le> (if oaep then 62 else 117)" "?chunk \<le> 128"
    by (simp_all add: RSA_OAEP_CHUNK_def RSA_PKCS1_CHUNK_def)
  have "0 + 128 * blocks_of ?chunk (length original) \<le> length ?data" by (simp add: RSA_KEY_BYTES_def)
  from encrypt_decrypt_blocks [OF assms ch(1,2) this, of seeds] obtain E where
    E: "encrypt_blocks S seeds pub ?chunk oaep original ?data 0 = Some (Some (E @ drop (length E) ?data, length E))"
      "length E = 128 * blocks_of ?chunk (length original)"
      "\<And>out n. n + length original \<le> length out \<Longrightarrow> decrypt_blocks S print priv oaep E out n =
          Some (Some (take n out @ original @ drop (n + length original) out, n + length original))"
    by auto
  have "encrypt_file S seeds oaep pub original = Some (Some E)"
    using E(1) assms(2) unfolding encrypt_file_def Let_def blocks_of_def [symmetric] by simp
  moreover have "length original \<le> length E"
  proof -
    have "length original \<le> ?chunk * blocks_of ?chunk (length original)" by (rule blocks_of_enough [OF ch(1)])
    also have "\<dots> \<le> 128 * blocks_of ?chunk (length original)" using ch(3) by (rule mult_le_mono1)
    finally show ?thesis using E(2) by simp
  qed
  then have "decrypt_file S print oaep E priv = Some (Some original)"
    using E(3) [of 0 "replicate (length E) 0"] assms(2,3) by (simp add: decrypt_file_def)
  ultimately show ?thesis by blast
qed

theorem block_file_roundtrip_witness:
  "\<exists>enc. encrypt_file clear_evp (\<lambda>_. 0) True 2 (replicate 100 7) = Some (Some enc) \<and>
    decrypt_file clear_evp (\<lambda>_. True) True enc 1 = Some (Some (replicate 100 7))"
  by (rule block_file_roundtrip [OF clear_rsa_pair]) (simp_all add: clear_evp_def clear_ssl_def)

text \<open>
  A name longer than its buffer overruns it: the server copies as many bytes as the client
  announces.
\<close>

theorem long_filename_overruns:
  assumes "flowing (srv_in s)" and "under_way (srv_in s) = num MSG_FILENAME @ frame name @ rest"
    and "FILENAME_MAX < length name" and "length name < 2 ^ 64"
  shows "server_message e s = None"
proof -
  from read_num_exact [OF assms(1,2)] obtain c1 where
    1: "read_bytes (of_nat INT_BYTES) (srv_in s) = (Some (num MSG_FILENAME), c1)" "flowing c1" "under_way c1 = frame name @ rest" .
  from read_field_exact [OF 1(2,3) assms(4)] obtain c2 where "read_field c1 = Some (Some name, c2)" .
  then show ?thesis
    using 1(1) assms(3) by (simp add: server_message_def bytes_to_int_num receive_filename_def memcpy_def chars_def)
qed

theorem long_filename_overruns_witness:
  "server_message demo_setting (demo_server\<lparr>srv_in := trickle\<lparr>under_way := num MSG_FILENAME @ frame (replicate 5000 65)\<rparr>\<rparr>) = None"
  by (rule long_filename_overruns [where name = "replicate 5000 65" and rest = "[]"])
     (simp_all add: trickle_def flowing_def FILENAME_MAX_def)

text \<open>
  A connection that ends inside a message makes the server read through a null pointer:
  only the type of a message is checked for the end of the connection, not its length.
\<close>

theorem cut_message_undefined:
  assumes "flowing (srv_in s)" and "under_way (srv_in s) = num v"
    and "v = MSG_FILENAME \<or> v = MSG_FILE_DATA \<or> v = MSG_AUTH \<or> v = MSG_SYMKEY"
  shows "server_message e s = None"
proof -
  from read_num_exact [OF assms(1), of v "[]"] assms(2) obtain c1 where
    1: "read_bytes (of_nat INT_BYTES) (srv_in s) = (Some (num v), c1)" "flowing c1" "under_way c1 = []" by auto
  have "read_bytes (of_nat INT_BYTES) c1 = (None, snd (read_bytes (of_nat INT_BYTES) c1))"
    using 1(2,3) by (simp add: read_bytes_def unat_INT_BYTES read_loop.simps recv_def Let_def flowing_def)
  then obtain c2 where "read_bytes (of_nat INT_BYTES) c1 = (None, c2)" by blast
  then have "read_field c1 = None" by (simp add: read_field_def read_len_def)
  then show ?thesis
    using 1(1) assms(3)
    by (auto simp: server_message_def bytes_to_int_num receive_filename_def receive_file_data_def receive_auth_def
        receive_symkey_def MSG_FILENAME_def MSG_FILE_DATA_def MSG_AUTH_def MSG_SYMKEY_def MSG_CLOSE_def)
qed

theorem cut_message_undefined_witness:
  "server_message demo_setting (demo_server\<lparr>srv_in := trickle\<lparr>under_way := num MSG_AUTH\<rparr>\<rparr>) = None"
  by (rule cut_message_undefined [where v = MSG_AUTH]) (simp_all add: trickle_def flowing_def)

end
