(* ===== verification/Spec2Isabelle.thy ===== *)
theory Spec2Isabelle
  imports Raft_Completeness Raft_Replication Chord Completion Startup_Laws Plant_Laws Registry_Laws Listing_Laws Sysinfo Backup
    Tetris Transfer_Laws
begin

text \<open>
  Verification of corestack-peky, a shell (\<open>tetrish\<close>) with its system programs, among them a
  Raft node and a Chord ring, and a library for authenticated and encrypted connections.

  \<^bold>\<open>The parts and how they interact.\<close>
  \<^item> The shell (\<open>src/tetrish/shell.c\<close>) reads lines with the line editor (\<open>cmdline.c\<close>), which
    keeps a command history and completes words; it splits a line, expands an alias and runs a
    built-in (\<open>builtin.c\<close>) or starts a child.
  \<^item> The Raft node (\<open>system_programs/raft.c\<close>, \<open>include/tetrish/raft.h\<close>) elects a leader,
    replicates a log and keeps its term, vote and log in a text file it restores at start-up.
  \<^item> The Chord ring (\<open>system_programs/chord.c\<close>) computes finger tables.
  \<^item> The plant daemon (\<open>system_programs/dplant.c\<close>) keeps the state of a plant in a file, guarded
    by a lock file and a registry of daemons; \<open>dspawn\<close>, \<open>dcheck\<close> and \<open>dkill\<close> start, list and stop
    the daemons of the registry.
  \<^item> \<open>ld\<close>, \<open>ldr\<close>, \<open>find\<close>, \<open>sys\<close> and \<open>backup\<close> are programs the shell starts: they walk directories,
    report on the system and run \<open>tar\<close>.  \<open>tetrisd\<close> sets up the board of a game.
  \<^item> The network library (\<open>src/libtetrissh/common.c\<close>) sends integers and fields over a socket,
    signs, verifies and encrypts; the file transfer server and client (\<open>reference/pa2\<close>) use it.

  \<^bold>\<open>The theories.\<close>  A C function that can reach undefined behaviour is a function into \<open>option\<close>,
  and \<open>None\<close> is that behaviour; errors the code reports are values inside \<open>Some\<close>.  Integers keep
  their width (\<open>u8\<close>, \<open>u32\<close>, \<open>u64\<close>) where they can wrap around; arrays are lists of their declared
  size with checked access.
  \<^item> \<open>Prelude\<close>, \<open>Posix\<close>, \<open>Cstring\<close>: integers, arrays, counted loops, the C library and the
    operating system (clock, files, failing calls, \<open>fgets\<close>, \<open>sscanf\<close>, \<open>strtok\<close>), and the interface
    \<open>simulation\<close> for step-by-step refinements.
  \<^item> \<open>Raft_Types\<close>, \<open>Raft_Persist\<close>, \<open>Raft_Node\<close> model \<open>raft.h\<close> and \<open>raft.c\<close>: one record for each
    struct, one function for each operation, the text of the log file character by character.
    \<open>Raft_Safety\<close>, \<open>Raft_Contract\<close> and \<open>Raft_Leader\<close> give the contract of every operation;
    \<open>Raft_Recovery\<close> (interface \<open>record_log\<close>) and \<open>Raft_Durability\<close> show that the file always
    holds the state; \<open>Raft_Machine\<close> (interface \<open>node_machine\<close>) and \<open>Raft_Restart\<close> treat sequences
    of calls and restarts of one node; \<open>Raft_Cluster\<close> is the step relation of several nodes and
    a network that loses, repeats and reorders messages, with an invariant by rule induction;
    \<open>Raft_Election\<close> and \<open>Raft_Replication\<close> hold the properties: one leader for each term, the
    merge of logs, commitment, delivery, voting, and where the code departs from its intention;
    \<open>Raft_Matching\<close> follows the logs of the leaders to show that logs that agree on the term of
    an entry agree up to it; \<open>Raft_Progress\<close> says what each call does to votes, match indices and
    the commit index, and \<open>Raft_Completeness\<close> follows the logs of all nodes through the terms to
    show that what a leader commits is in the logs of all later leaders.  The indices followers
    learn from heartbeats have no such guarantee, as \<open>Raft_Replication\<close> shows.
  \<^item> \<open>Chord\<close> models \<open>chord.c\<close> and relates it to clockwise distances on the ring.
  \<^item> \<open>History\<close> (interface \<open>browsing\<close>), \<open>Cmdline\<close>, \<open>Line_Editor\<close> and \<open>Completion\<close> model \<open>cmdline.c\<close>:
    the ring of lines, every key, completion; the editor refines a text with a cursor.
  \<^item> \<open>Builtin\<close>, \<open>Builtin_Laws\<close> (interface \<open>keyed_store\<close>), \<open>Shell\<close> and \<open>Shell_Laws\<close> model \<open>builtin.c\<close>
    and the main loop of \<open>shell.c\<close>: every command, aliases and environment as maps, and that no
    input brings the shell to undefined behaviour while its working directory has a path.  \<open>Startup\<close> and \<open>Startup_Laws\<close> model the rest of
    \<open>shell.c\<close>, from the first directory it makes to the last line of its log.
  \<^item> \<open>Plant\<close> and \<open>Plant_Laws\<close> model \<open>dplant.c\<close>: ranges of the statistics, the registry, that the
    daemon never sees a watering, and how long a plant lives at most under its ten-second loop.  \<open>Registry\<close> and \<open>Registry_Laws\<close> model \<open>dspawn.c\<close>, \<open>dcheck.c\<close> and
    \<open>dkill.c\<close> on the same registry file: names, the report, and what stopping daemons leaves.
  \<^item> \<open>Paths\<close> models the path helpers several programs share; \<open>Listing\<close> and \<open>Listing_Laws\<close> model
    \<open>ld.c\<close>, \<open>ldr.c\<close> and \<open>find.c\<close> on a file system whose paths are cut at the programs' buffers;
    \<open>Sysinfo\<close>, \<open>Backup\<close> and \<open>Tetris\<close> model \<open>sys.c\<close>, \<open>backup.c\<close> and \<open>tetrisd.c\<close>.
  \<^item> \<open>Wire\<close> and \<open>Rsa\<close> model \<open>common.c\<close>; \<open>Wire_Laws\<close> (interface \<open>channel\<close>, interpreted on numbers and
    on fields) shows that fragmentation does not matter and that sessions are authenticated,
    that encryption stays within its buffer, and that decryption has a smaller one than OpenSSL
    asks for.  \<open>File_Transfer\<close> models \<open>ServerWithSecurityCP2.c\<close> and
    \<open>ClientWithSecurityCP2.c\<close>, \<open>Transfer_Laws\<close> composes both: files arrive, the client checks the
    server, received files stay in their directory; and two ways to bring the server to
    undefined behaviour.

  \<^bold>\<open>Termination and bounds.\<close>  No definition uses fuel.  Loops that wait for input are recursive
  in the input that is left: the bytes of the keyboard for \<open>line_read\<close>, the lines of the input for
  the shell and the client, the bytes under way for the server; the loops of \<open>read_bytes\<close> and
  \<open>send_all\<close> in the bytes that remain.  The daemon's endless loop is modelled by its rounds.  The
  directory walks of \<open>ldr\<close> and \<open>find\<close> go down without end where a cut path names a directory
  again; they keep every directory above open, so that the number of free descriptors, an
  argument of the model, ends them.

  \<^bold>\<open>Parameters.\<close>  OpenSSL is a record of functions (\<open>openssl\<close>, \<open>evp\<close>); what the code relies on is in
  \<open>crypto_laws\<close>, \<open>rsa_pair\<close>, \<open>signing_pair\<close> and \<open>trusted\<close>, and an instance that keeps these laws is
  given with the witnesses.  The answers of the operating system are streams and functions of
  the worlds of each component.  Calls of a Raft node do not overlap: each handler is one step,
  also where the code reads a field before it takes the lock.  A node restarts only while no
  operation on its file has failed.

  \<^bold>\<open>Not modelled.\<close>  Terminal modes and signals; forking and opening sockets, beyond their effect on
  the state; text that is only printed, except where a program exists to print it; allocation
  failures in the shell, the editor, the daemon, \<open>sys\<close> and \<open>backup\<close>.  \<open>tetrisu\<close>, \<open>tetrisctl\<close>, \<open>tetrislog\<close> and
  \<open>tetrissh.c\<close> are empty.
\<close>

end
